(* ===== verification/Prelude.thy ===== *)
theory Prelude
  imports Main "HOL-Library.Word"
begin

text \<open>
  What the components of the development share: the machine integers of the C++ sources as
  words, the little-endian layout that \<open>memcpy\<close> of a packed struct produces on the supported
  hosts (x86-64, AArch64), the two buffer operations the code performs on a
  \<open>std::vector<std::byte>\<close> (\<open>resize\<close> and a bounded \<open>memcpy\<close>), and bit-level lemmas.
  The collection \<open>layout_simps\<close> carries the proofs about packed structs.
\<close>

unbundle bit_operations_syntax

named_theorems layout_simps \<open>splitting a concatenation of fixed-width fields\<close>

section \<open>Machine integers\<close>

type_synonym u8 = "8 word"
type_synonym u16 = "16 word"
type_synonym u32 = "32 word"
type_synonym u64 = "64 word"
type_synonym i64 = "64 word"  \<comment> \<open>two's complement, read by \<open>sint\<close>\<close>
type_synonym byte = "8 word"

section \<open>Little-endian fields\<close>

primrec le_bytes :: "nat \<Rightarrow> 'a::len word \<Rightarrow> byte list" where
  "le_bytes 0 w = []"
| "le_bytes (Suc n) w = ucast w # le_bytes n (drop_bit 8 w)"

primrec le_word :: "byte list \<Rightarrow> 'a::len word" where
  "le_word [] = 0"
| "le_word (b # bs) = ucast b OR push_bit 8 (le_word bs)"

lemma length_le_bytes [simp]: "length (le_bytes n w) = n"
  by (induction n arbitrary: w) simp_all

lemma le_bytes_split: "le_bytes (m + n) w = le_bytes m w @ le_bytes n (drop_bit (8 * m) w)"
  by (induction m arbitrary: w) (simp_all add: drop_bit_drop_bit add.commute)

lemma le_bytes_4_eval:
  "le_bytes 4 w = [ucast w, ucast (drop_bit 8 w), ucast (drop_bit 16 w), ucast (drop_bit 24 w)]"
  using le_bytes_split [of 2 2 w] le_bytes_split [of 1 1 w] le_bytes_split [of 1 1 "drop_bit 16 w"]
  by (simp add: drop_bit_drop_bit numeral_2_eq_2 [symmetric])

lemma le_bytes_8_eval:
  "le_bytes 8 w = [ucast w, ucast (drop_bit 8 w), ucast (drop_bit 16 w), ucast (drop_bit 24 w),
     ucast (drop_bit 32 w), ucast (drop_bit 40 w), ucast (drop_bit 48 w), ucast (drop_bit 56 w)]"
  using le_bytes_split [of 4 4 w] by (simp add: le_bytes_4_eval drop_bit_drop_bit)

lemma le_word_le_bytes_take: "le_word (le_bytes n w) = take_bit (8 * n) (w :: 'a::len word)"
proof (induction n arbitrary: w)
  case 0
  show ?case by simp
next
  case (Suc n)
  show ?case
    by (rule bit_eqI) (auto simp: Suc.IH bit_simps)
qed

lemma bit_le_word: "bit (le_word bs :: 'a::len word) i \<Longrightarrow> i < 8 * length bs"
proof (induction bs arbitrary: i)
  case (Cons b bs)
  then consider "bit b i" | "8 \<le> i" "bit (le_word bs :: 'a word) (i - 8)"
    by (auto simp: bit_simps)
  then show ?case
  proof cases
    case 1
    then have "i < LENGTH(8)" by (rule bit_imp_le_length)
    then show ?thesis by simp
  next
    case 2
    then show ?thesis using Cons.IH [of "i - 8"] by simp
  qed
qed simp

lemma le_bytes_le_word:
  "8 * length bs \<le> LENGTH('a) \<Longrightarrow> le_bytes (length bs) (le_word bs :: 'a::len word) = bs"
proof (induction bs)
  case (Cons b bs)
  have *: "le_bytes (length bs) (drop_bit 8 (ucast b OR push_bit 8 (le_word bs :: 'a word))) = bs"
  proof -
    have "drop_bit 8 (ucast b OR push_bit 8 (le_word bs :: 'a word)) = le_word bs"
      using Cons.prems
      by (intro bit_eqI) (auto simp: bit_simps dest: bit_imp_le_length bit_le_word)
    then show ?thesis using Cons by simp
  qed
  have "ucast (ucast b OR push_bit 8 (le_word bs :: 'a word)) = b"
    using Cons.prems by (intro bit_eqI) (auto simp: bit_simps dest: bit_imp_le_length)
  with * show ?case by simp
qed simp

section \<open>Bits of words\<close>

lemma xor_cancel_right [simp]: "(a XOR c = b XOR c) = (a = (b :: 'a::len word))"
proof
  assume "a XOR c = b XOR c"
  then have "(a XOR c) XOR c = (b XOR c) XOR c" by (rule arg_cong)
  then show "a = b" by (simp only: xor.assoc xor_self_eq xor.right_neutral)
qed simp

lemma xor_cancel_left [simp]: "(c XOR a = c XOR b) = (a = (b :: 'a::len word))"
  by (metis xor.commute xor_cancel_right)

lemma push_drop_bit_even: "\<not> bit (w :: 'a::len word) 0 \<Longrightarrow> push_bit 1 (drop_bit 1 w) = w"
proof (rule bit_eqI)
  fix n assume "\<not> bit w 0" and "possible_bit TYPE('a word) n"
  then show "bit (push_bit 1 (drop_bit 1 w)) n = bit w n"
    by (cases n) (simp_all only: bit_push_bit_iff bit_drop_bit_eq, auto)
qed

lemma push_drop_bit_odd: "bit (w :: 'a::len word) 0 \<Longrightarrow> push_bit 1 (drop_bit 1 w) OR 1 = w"
proof (rule bit_eqI)
  fix n assume "bit w 0" and "possible_bit TYPE('a word) n"
  then show "bit (push_bit 1 (drop_bit 1 w) OR 1) n = bit w n"
    by (cases n) (simp_all only: bit_or_iff bit_push_bit_iff bit_drop_bit_eq, auto)
qed

lemma low_bit_iff: "(c AND 1 \<noteq> 0) = bit (c :: 'a::len word) 0"
  by (metis and_one_eq bit_0 even_iff_mod_2_eq_zero)

lemma unat_less_of_take_bit: "take_bit n w = (w :: 'a::len word) \<Longrightarrow> unat w < 2 ^ n"
  by (metis take_bit_nat_less_exp unsigned_take_bit_eq)

lemma unat_u32_less: "unat (w :: u32) < 4294967296"
  using unsigned_less [of w, where 'a = nat] by simp

lemma unat_u64_less: "unat (w :: u64) < 18446744073709551616"
  using unsigned_less [of w, where 'a = nat] by simp

section \<open>Buffers\<close>

text \<open>
  \<open>resize\<close> is \<open>std::vector::resize\<close>: the prefix is kept and new elements are zero.
  \<open>memcpy_at\<close> is a \<open>memcpy\<close> into a buffer; a copy that runs past the buffer's end is
  undefined behaviour in C++ and the value \<open>None\<close> here.
\<close>

definition resize :: "nat \<Rightarrow> byte list \<Rightarrow> byte list" where
  "resize n xs = take n xs @ replicate (n - length xs) 0"

definition memcpy_at :: "byte list \<Rightarrow> nat \<Rightarrow> byte list \<Rightarrow> byte list option" where
  "memcpy_at buf off data =
     (if off + length data \<le> length buf
      then Some (take off buf @ data @ drop (off + length data) buf) else None)"

lemma length_resize [simp]: "length (resize n xs) = n"
  by (simp add: resize_def)

lemma memcpy_at_Some_length: "memcpy_at buf off data = Some buf' \<Longrightarrow> length buf' = length buf"
  by (auto simp: memcpy_at_def split: if_splits)

lemma memcpy_at_whole_tail:
  "off + length data = length buf \<Longrightarrow> memcpy_at buf off data = Some (take off buf @ data)"
  by (simp add: memcpy_at_def)

lemma memcpy_at_prefix:
  "length data \<le> length buf \<Longrightarrow> memcpy_at buf 0 data = Some (data @ drop (length data) buf)"
  by (simp add: memcpy_at_def)

section \<open>Decimal numbers\<close>

text \<open>\<open>std::to_string\<close> of an unsigned integer.\<close>

fun to_string :: "nat \<Rightarrow> string" where
  "to_string n = (if n < 10 then [char_of (48 + n)] else to_string (n div 10) @ [char_of (48 + n mod 10)])"

declare to_string.simps [simp del]

section \<open>Packed structs\<close>

lemma word_take_bit_self: "LENGTH('a) \<le> n \<Longrightarrow> take_bit n (w :: 'a::len word) = w"
  by (rule bit_eqI) (auto simp: bit_take_bit_iff dest: bit_imp_le_length)

lemma le_word_le_bytes8 [simp]: "le_word (le_bytes 8 w) = (w :: u64)"
  by (simp add: le_word_le_bytes_take word_take_bit_self)

lemma le_word_le_bytes4 [simp]: "le_word (le_bytes 4 w) = (w :: u32)"
  by (simp add: le_word_le_bytes_take word_take_bit_self)

lemma le_word_le_bytes2 [simp]: "le_word (le_bytes 2 w) = (w :: u16)"
  by (simp add: le_word_le_bytes_take word_take_bit_self)

lemma le_word_le_bytes1 [simp]: "le_word (le_bytes 1 w) = (w :: u8)"
  by (simp add: le_word_le_bytes_take)

lemma le_bytes_of_word:
  "length bs = n \<Longrightarrow> 8 * n \<le> LENGTH('a) \<Longrightarrow> le_bytes n (le_word bs :: 'a::len word) = bs"
  using le_bytes_le_word [of bs, where 'a = 'a] by simp

text \<open>A field re-encoded from the bytes it was read from is those bytes.\<close>

lemma le_bytes_field:
  "off + n \<le> length bs \<Longrightarrow> 8 * n \<le> LENGTH('a)
   \<Longrightarrow> le_bytes n (le_word (take n (drop off bs)) :: 'a::len word) = take n (drop off bs)"
  by (rule le_bytes_of_word) auto

lemma fields_join [layout_simps]:
  "k = off + n \<Longrightarrow> take n (drop off bs) @ take m (drop k bs) = take (n + m) (drop off bs)"
  by (metis take_add drop_drop add.commute)

lemma fields_join_rest [layout_simps]:
  "k = off + n \<Longrightarrow> take n (drop off bs) @ take m (drop k bs) @ r = take (n + m) (drop off bs) @ r"
  by (simp add: fields_join flip: append_assoc)

lemma fields_join_first [layout_simps]: "take n bs @ take m (drop n bs) = take (n + m) bs"
  by (simp add: take_add)

lemma fields_join_first_rest [layout_simps]:
  "take n bs @ take m (drop n bs) @ r = take (n + m) bs @ r"
  by (simp add: take_add)

lemma byte_field [layout_simps]:
  "off < length bs \<Longrightarrow> (le_word (take (Suc 0) (drop off bs)) :: u8) # r = take (Suc 0) (drop off bs) @ r"
  by (simp add: take_Suc_conv_app_nth)

section \<open>Lists\<close>

lemma sorted_le_last: "sorted xs \<Longrightarrow> x \<in> set xs \<Longrightarrow> x \<le> last (xs :: 'a::linorder list)"
  by (induction xs) auto

lemma length_takeWhile_mono:
  "(\<And>x. x \<in> set xs \<Longrightarrow> P x \<Longrightarrow> Q x) \<Longrightarrow> length (takeWhile P xs) \<le> length (takeWhile Q xs)"
  by (induction xs) auto

lemma length_filter_mono:
  "(\<And>x. x \<in> set xs \<Longrightarrow> P x \<Longrightarrow> Q x) \<Longrightarrow> length (filter P xs) \<le> length (filter Q xs)"
  by (induction xs) auto

end
