(* ===== verification/File_System.thy ===== *)
theory File_System
  imports Prelude
begin

text \<open>
  The file system as the recorder and the replayer see it. A disk maps paths to contents; a shared
  mapping of a file is the file's own contents, so a store through \<open>mmap\<close> is visible to every
  later \<open>read\<close> of that path. Which system calls fail is not decided by the program: the record
  carries the outcomes still to come (\<open>True\<close> for a failing call; when the list is used up, calls
  succeed), so a theorem over all values of \<open>faults\<close> covers every pattern of failures.
\<close>

record os =
  disk :: "string \<rightharpoonup> byte list"
  faults :: "bool list"

type_synonym path = string

definition syscall :: "os \<Rightarrow> bool \<times> os" where
  "syscall s = (case faults s of [] \<Rightarrow> (True, s) | f # fs \<Rightarrow> (\<not> f, s\<lparr>faults := fs\<rparr>))"

text \<open>\<open>open(path, O_RDWR | O_CREAT | O_TRUNC)\<close>.\<close>

definition sys_open_trunc :: "path \<Rightarrow> os \<Rightarrow> bool \<times> os" where
  "sys_open_trunc p s = (let (ok, s1) = syscall s in
     if ok then (True, s1\<lparr>disk := (disk s1)(p \<mapsto> [])\<rparr>) else (False, s1))"

text \<open>
  \<open>ftruncate(fd, static_cast<off_t>(n))\<close> on the file opened at \<open>p\<close>: a size that is negative as a
  signed 64-bit value is refused, a larger size pads with zeros.
\<close>

definition sys_ftruncate :: "path \<Rightarrow> u64 \<Rightarrow> os \<Rightarrow> bool \<times> os" where
  "sys_ftruncate p n s = (let (ok, s1) = syscall s in
     if ok \<and> 0 \<le> sint n
     then (True, s1\<lparr>disk := (disk s1)(p := map_option (resize (unat n)) (disk s1 p))\<rparr>)
     else (False, s1))"

text \<open>A store through the mapping of \<open>p\<close>; \<open>None\<close> when it leaves the mapped file.\<close>

definition store :: "path \<Rightarrow> nat \<Rightarrow> byte list \<Rightarrow> os \<Rightarrow> os option" where
  "store p off data s = (case disk s p of None \<Rightarrow> None
     | Some bs \<Rightarrow> map_option (\<lambda>bs'. s\<lparr>disk := (disk s)(p \<mapsto> bs')\<rparr>) (memcpy_at bs off data))"

section \<open>Lemmas\<close>

lemma syscall_disk: "syscall s = (ok, s') \<Longrightarrow> disk s' = disk s"
  by (auto simp: syscall_def split: list.splits)

lemma syscall_disk_snd [simp]: "disk (snd (syscall s)) = disk s"
  by (cases "syscall s") (simp add: syscall_disk)

lemma syscall_no_faults [simp]: "faults s = [] \<Longrightarrow> syscall s = (True, s)"
  by (simp add: syscall_def)

lemma sys_open_trunc_disk:
  "sys_open_trunc p s = (ok, s') \<Longrightarrow> disk s' = (if ok then (disk s)(p \<mapsto> []) else disk s)"
  by (auto simp: sys_open_trunc_def Let_def dest: syscall_disk split: prod.splits if_splits)

lemma sys_ftruncate_disk:
  "sys_ftruncate p n s = (ok, s') \<Longrightarrow>
     disk s' = (if ok then (disk s)(p := map_option (resize (unat n)) (disk s p)) else disk s)"
  by (auto simp: sys_ftruncate_def Let_def dest: syscall_disk split: prod.splits if_splits)

lemma store_SomeD:
  "store p off data s = Some s' \<Longrightarrow> \<exists>bs bs'. disk s p = Some bs \<and> memcpy_at bs off data = Some bs'
     \<and> s' = s\<lparr>disk := (disk s)(p \<mapsto> bs')\<rparr>"
  by (auto simp: store_def split: option.splits)

lemma take_resize: "n \<le> length bs \<Longrightarrow> n \<le> m \<Longrightarrow> take n (resize m bs) = take n bs"
  by (simp add: resize_def min_def)

lemma resize_shrink: "n \<le> length bs \<Longrightarrow> resize n bs = take n bs"
  by (simp add: resize_def)

end
