(* ===== verification/Ifstream.thy ===== *)
theory Ifstream
  imports File_System
begin

text \<open>
  \<open>std::ifstream\<close> in binary mode as the replayer uses it: position, \<open>eofbit\<close>, \<open>failbit\<close> and the count of
  the last unformatted read. The file's contents are looked up at each read in \<open>dk\<close>, the readable
  files; read-ahead of the stream buffer is not modelled, which makes no difference for files that
  are not being written.
\<close>

type_synonym files = "path \<rightharpoonup> byte list"

record ifstream =
  if_path :: path
  if_open :: bool
  if_pos :: nat
  if_eof :: bool
  if_fail :: bool
  gcount :: nat

definition ifs_open :: "files \<Rightarrow> path \<Rightarrow> ifstream" where
  "ifs_open dk p = \<lparr>if_path = p, if_open = (dk p \<noteq> None), if_pos = 0, if_eof = False, if_fail = (dk p = None), gcount = 0\<rparr>"

definition ifs_good :: "ifstream \<Rightarrow> bool" where
  "ifs_good f \<longleftrightarrow> \<not> if_eof f \<and> \<not> if_fail f"

definition contents :: "files \<Rightarrow> ifstream \<Rightarrow> byte list" where
  "contents dk f = (case dk (if_path f) of None \<Rightarrow> [] | Some bs \<Rightarrow> bs)"

text \<open>\<open>read\<close>: fewer bytes than asked for set both bits; on a stream that is not good nothing is read.\<close>

definition ifs_read :: "files \<Rightarrow> nat \<Rightarrow> ifstream \<Rightarrow> byte list \<times> ifstream" where
  "ifs_read dk n f =
     (if \<not> ifs_good f then ([], f\<lparr>if_fail := True, gcount := 0\<rparr>)
      else let bs = take n (drop (if_pos f) (contents dk f))
           in (bs, f\<lparr>if_pos := if_pos f + length bs, gcount := length bs,
                     if_eof := (length bs < n), if_fail := (length bs < n)\<rparr>))"

text \<open>\<open>seekg\<close> clears \<open>eofbit\<close> and does nothing on a failed stream; \<open>tellg\<close> is \<open>-1\<close> (\<open>None\<close>) there.\<close>

definition ifs_seek :: "u64 \<Rightarrow> ifstream \<Rightarrow> ifstream" where
  "ifs_seek p f =
     (if if_fail f then f\<lparr>if_eof := False\<rparr>
      else if sint p < 0 then f\<lparr>if_eof := False, if_fail := True\<rparr>
      else f\<lparr>if_eof := False, if_pos := unat p\<rparr>)"

definition ifs_seek_end :: "files \<Rightarrow> ifstream \<Rightarrow> ifstream" where
  "ifs_seek_end dk f = (if if_fail f then f\<lparr>if_eof := False\<rparr> else f\<lparr>if_eof := False, if_pos := length (contents dk f)\<rparr>)"

definition ifs_tell :: "ifstream \<Rightarrow> nat option" where
  "ifs_tell f = (if if_fail f then None else Some (if_pos f))"

section \<open>Lemmas\<close>

lemma ifs_read_whole:
  assumes "ifs_good f" "drop (if_pos f) (contents dk f) = bs @ rest" "length bs = n"
  shows "ifs_read dk n f = (bs, f\<lparr>if_pos := if_pos f + n, gcount := n\<rparr>)"
  using assms by (cases f) (simp add: ifs_read_def ifs_good_def)

lemma ifs_read_end:
  assumes "ifs_good f" "drop (if_pos f) (contents dk f) = []" "0 < n"
  shows "ifs_read dk n f = ([], f\<lparr>gcount := 0, if_eof := True, if_fail := True\<rparr>)"
  using assms by (simp add: ifs_read_def)

lemma ifs_seek_small: "\<not> if_fail f \<Longrightarrow> n < 2 ^ 63 \<Longrightarrow> ifs_seek (of_nat n) f = f\<lparr>if_eof := False, if_pos := n\<rparr>"
proof -
  assume "\<not> if_fail f" "n < 2 ^ 63"
  then have "sint (of_nat n :: u64) = int n"
    using int_word_sint [of "int n", where 'a = 64] by simp
  then show ?thesis using \<open>\<not> if_fail f\<close> \<open>n < 2 ^ 63\<close> by (simp add: ifs_seek_def unat_of_nat)
qed

lemma contents_update [simp]: "contents dk (f\<lparr>if_pos := p\<rparr>) = contents dk f" "contents dk (f\<lparr>gcount := g\<rparr>) = contents dk f"
  "contents dk (f\<lparr>if_eof := b\<rparr>) = contents dk f" "contents dk (f\<lparr>if_fail := b\<rparr>) = contents dk f"
  by (simp_all add: contents_def)

lemma ifs_good_update [simp]: "ifs_good (f\<lparr>if_pos := p\<rparr>) = ifs_good f" "ifs_good (f\<lparr>gcount := g\<rparr>) = ifs_good f"
  by (simp_all add: ifs_good_def)

end
