(* ===== verification/Symbol_Registry.thy ===== *)
theory Symbol_Registry
  imports Prelude
begin

text \<open>
  \<open>SymbolRegistry\<close> of \<open>src/common/symbol_registry.cpp\<close>: the map from symbols to ids, the vector
  indexed by id and the id counter, which is 32 bits wide and wraps. \<open>get_or_add\<close> runs in two
  critical sections, a lookup under the shared lock and a second lookup with the insertion under
  the exclusive lock; the sequential composition is \<open>get_or_add\<close>, and the interleavings of any
  number of threads are the step relation \<open>reg_step\<close>.
\<close>

section \<open>The code\<close>

record SymbolRegistry =
  symbol_to_id :: "string \<rightharpoonup> u32"
  symbols :: "string list"
  next_id :: u32

definition new_registry :: SymbolRegistry where
  "new_registry = \<lparr>symbol_to_id = Map.empty, symbols = [[]], next_id = 1\<rparr>"

text \<open>The first critical section: a lookup under the shared lock.\<close>

definition find_symbol :: "SymbolRegistry \<Rightarrow> string \<Rightarrow> u32 option" where
  "find_symbol r symb = symbol_to_id r symb"

text \<open>
  The second critical section. \<open>resize(id + 1)\<close> is computed in 32 bits, so it empties the vector
  when the counter is exhausted; writing \<open>symbols_[id]\<close> outside the vector is undefined
  behaviour, the value \<open>None\<close>.
\<close>

definition add_symbol :: "SymbolRegistry \<Rightarrow> string \<Rightarrow> (u32 \<times> SymbolRegistry) option" where
  "add_symbol r symb =
     (case symbol_to_id r symb of
        Some i \<Rightarrow> Some (i, r)
      | None \<Rightarrow>
          let id = next_id r;
              vec = (if length (symbols r) \<le> unat id
                     then (let n = unat (id + 1)
                           in take n (symbols r) @ replicate (n - length (symbols r)) [])
                     else symbols r)
          in if unat id < length vec
             then Some (id, \<lparr>symbol_to_id = (symbol_to_id r)(symb \<mapsto> id),
                             symbols = vec[unat id := symb], next_id = id + 1\<rparr>)
             else None)"

definition get_or_add :: "SymbolRegistry \<Rightarrow> string \<Rightarrow> (u32 \<times> SymbolRegistry) option" where
  "get_or_add r symb =
     (case find_symbol r symb of
        Some i \<Rightarrow> Some (i, r)
      | None \<Rightarrow> add_symbol r symb)"

definition by_id :: "SymbolRegistry \<Rightarrow> u32 \<Rightarrow> string" where
  "by_id r i = (if length (symbols r) \<le> unat i then [] else symbols r ! unat i)"

definition get_all :: "SymbolRegistry \<Rightarrow> (u32 \<times> string) list" where
  "get_all r = filter (\<lambda>(i, s). s \<noteq> [])
     (map (\<lambda>i. (word_of_nat i, symbols r ! i)) [1..<length (symbols r)])"

definition registry_size :: "SymbolRegistry \<Rightarrow> nat" where
  "registry_size r = length (symbols r)"

text \<open>
  The invariant: slot 0 is the reserved empty string, the counter is the length of the vector,
  and the map and the vector are inverse to each other on the assigned ids.
\<close>

definition registry_inv :: "SymbolRegistry \<Rightarrow> bool" where
  "registry_inv r \<longleftrightarrow> length (symbols r) = unat (next_id r) \<and> 0 < next_id r \<and> symbols r ! 0 = []
     \<and> (\<forall>symb i. symbol_to_id r symb = Some i \<longleftrightarrow>
          (0 < unat i \<and> unat i < length (symbols r) \<and> symbols r ! unat i = symb))"

text \<open>One more id can be handed out without the counter wrapping.\<close>

definition has_room :: "SymbolRegistry \<Rightarrow> bool" where
  "has_room r \<longleftrightarrow> unat (next_id r) < 2 ^ 32 - 1"

section \<open>Threads\<close>

text \<open>
  A thread calls \<open>get_or_add\<close>: \<open>Calling\<close> before the shared-lock lookup, \<open>Missed\<close> between the two
  critical sections, \<open>Returned\<close> with its result. The locks make each critical section atomic.
\<close>

datatype call = Idle | Calling string | Missed string | Returned string u32

record reg_sys =
  reg :: SymbolRegistry
  calls :: "nat \<Rightarrow> call"

definition reg_init :: reg_sys where
  "reg_init = \<lparr>reg = new_registry, calls = (\<lambda>_. Idle)\<rparr>"

inductive reg_step :: "reg_sys \<Rightarrow> reg_sys \<Rightarrow> bool" where
  invoke: "calls s t = Idle \<or> calls s t = Returned symb' i \<Longrightarrow>
     reg_step s (s\<lparr>calls := (calls s)(t := Calling symb)\<rparr>)"
| shared_hit: "calls s t = Calling symb \<Longrightarrow> find_symbol (reg s) symb = Some i \<Longrightarrow>
     reg_step s (s\<lparr>calls := (calls s)(t := Returned symb i)\<rparr>)"
| shared_miss: "calls s t = Calling symb \<Longrightarrow> find_symbol (reg s) symb = None \<Longrightarrow>
     reg_step s (s\<lparr>calls := (calls s)(t := Missed symb)\<rparr>)"
| exclusive: "calls s t = Missed symb \<Longrightarrow> add_symbol (reg s) symb = Some (i, r) \<Longrightarrow>
     reg_step s (s\<lparr>reg := r, calls := (calls s)(t := Returned symb i)\<rparr>)"

inductive reg_reachable :: "reg_sys \<Rightarrow> bool" where
  start: "reg_reachable reg_init"
| step: "reg_reachable s \<Longrightarrow> reg_step s s' \<Longrightarrow> reg_reachable s'"

inductive_cases reg_stepE: "reg_step s s'"

definition reg_sys_inv :: "reg_sys \<Rightarrow> bool" where
  "reg_sys_inv s \<longleftrightarrow> registry_inv (reg s) \<and>
     (\<forall>t symb i. calls s t = Returned symb i \<longrightarrow> symbol_to_id (reg s) symb = Some i)"

text \<open>A list of lookups in sequence, over any registry operation.\<close>

fun add_all :: "('r \<Rightarrow> string \<Rightarrow> (u32 \<times> 'r) option) \<Rightarrow> 'r \<Rightarrow> string list \<Rightarrow> (u32 list \<times> 'r) option" where
  "add_all add r [] = Some ([], r)"
| "add_all add r (s # ss) =
     (case add r s of
        None \<Rightarrow> None
      | Some (i, r') \<Rightarrow> (case add_all add r' ss of None \<Rightarrow> None | Some (is, r'') \<Rightarrow> Some (i # is, r'')))"

section \<open>Lemmas\<close>

lemma registry_inv_new: "registry_inv new_registry"
  by (auto simp: registry_inv_def new_registry_def)

lemma unat_inc: "unat w < 2 ^ 32 - 1 \<Longrightarrow> unat (w + 1 :: u32) = unat w + 1"
  by (simp add: unat_word_ariths)

lemma get_or_add_eq: "get_or_add r symb = add_symbol r symb"
  by (simp add: get_or_add_def find_symbol_def add_symbol_def split: option.split)

lemma add_symbol_known: "symbol_to_id r symb = Some i \<Longrightarrow> add_symbol r symb = Some (i, r)"
  by (simp add: add_symbol_def)

text \<open>With room and the invariant, a new symbol is appended to the vector under the next id.\<close>

lemma add_symbol_new:
  assumes "registry_inv r" "has_room r" "symbol_to_id r symb = None"
  shows "add_symbol r symb = Some (next_id r,
    \<lparr>symbol_to_id = (symbol_to_id r)(symb \<mapsto> next_id r), symbols = symbols r @ [symb], next_id = next_id r + 1\<rparr>)"
  using assms list_update_length [of "symbols r" "[]" "[]" symb]
  by (simp add: add_symbol_def registry_inv_def has_room_def unat_inc Let_def)

text \<open>At the last id the 32-bit \<open>id + 1\<close> is 0: the vector is emptied and the write is out of range.\<close>

lemma add_symbol_full:
  assumes "registry_inv r" "\<not> has_room r" "symbol_to_id r symb = None"
  shows "add_symbol r symb = None"
proof -
  have "unat (next_id r) = 2 ^ 32 - 1"
    using assms(2) unat_u32_less [of "next_id r"] by (simp add: has_room_def)
  then have "next_id r = 0xFFFFFFFF" by (simp add: word_unat_eq_iff)
  then show ?thesis using assms by (simp add: add_symbol_def registry_inv_def Let_def)
qed

lemma registry_inv_append:
  assumes inv: "registry_inv r" and room: "has_room r" and new: "symbol_to_id r symb = None"
  shows "registry_inv \<lparr>symbol_to_id = (symbol_to_id r)(symb \<mapsto> next_id r),
    symbols = symbols r @ [symb], next_id = next_id r + 1\<rparr>"
proof -
  let ?n = "length (symbols r)"
  have n: "?n = unat (next_id r)" and pos: "0 < ?n" and z: "symbols r ! 0 = []"
    and bij: "\<And>s i. symbol_to_id r s = Some i \<longleftrightarrow>
      (0 < unat i \<and> unat i < ?n \<and> symbols r ! unat i = s)"
    using inv by (auto simp: registry_inv_def unat_gt_0 word_gt_0)
  have fresh: "\<not> (0 < unat i \<and> unat i < ?n \<and> symbols r ! unat i = symb)" for i :: u32
    using bij [of symb i] new by simp
  have "((symbol_to_id r)(symb \<mapsto> next_id r)) s = Some i \<longleftrightarrow>
      (0 < unat i \<and> unat i < ?n + 1 \<and> (symbols r @ [symb]) ! unat i = s)" for s i
    using bij [of s i] fresh [of i] pos n
    by (auto simp: nth_append less_Suc_eq word_unat_eq_iff split: if_splits)
  moreover have n': "unat (next_id r + 1) = unat (next_id r) + 1"
    using room by (simp add: has_room_def unat_inc)
  then have "0 < next_id r + 1" by (simp add: word_less_nat_alt)
  moreover have z0: "(symbols r @ [symb]) ! 0 = []" using pos z by (simp add: nth_append)
  ultimately show ?thesis
    using n' z0 n by (simp add: registry_inv_def)
qed

text \<open>Every defined outcome of the second critical section is one of two.\<close>

lemma add_symbol_cases:
  assumes "registry_inv r" "add_symbol r symb = Some (i, r')"
  obtains (known) "symbol_to_id r symb = Some i" "r' = r"
  | (new) "symbol_to_id r symb = None" "has_room r" "i = next_id r"
      "r' = \<lparr>symbol_to_id = (symbol_to_id r)(symb \<mapsto> i), symbols = symbols r @ [symb], next_id = i + 1\<rparr>"
  using assms add_symbol_known [of r symb] add_symbol_new [of r symb] add_symbol_full [of r symb]
  by (cases "symbol_to_id r symb"; cases "has_room r") auto

lemma add_symbol_inv: "registry_inv r \<Longrightarrow> add_symbol r symb = Some (i, r') \<Longrightarrow> registry_inv r'"
  using registry_inv_append [of r symb] by (metis add_symbol_cases)

lemma add_symbol_lookup: "registry_inv r \<Longrightarrow> add_symbol r symb = Some (i, r') \<Longrightarrow> symbol_to_id r' symb = Some i"
  by (erule (1) add_symbol_cases) auto

lemma add_symbol_keeps:
  "registry_inv r \<Longrightarrow> add_symbol r symb = Some (i, r') \<Longrightarrow> symbol_to_id r t = Some j \<Longrightarrow> symbol_to_id r' t = Some j"
  by (erule (1) add_symbol_cases) auto

lemma by_id_iff:
  "registry_inv r \<Longrightarrow> symbol_to_id r symb = Some i \<Longrightarrow> by_id r i = symb"
  by (auto simp: registry_inv_def by_id_def)

section \<open>The contract of a symbol table\<close>

text \<open>
  What the normalizer, the distributor and the replayer rely on: an id handed out resolves to its
  symbol, later insertions never change what a known id resolves to, and asking again for a
  symbol returns the id it has. \<open>bound r s i\<close> says that \<open>r\<close> has assigned \<open>i\<close> to \<open>s\<close>.
\<close>

locale symbol_table =
  fixes add :: "'r \<Rightarrow> string \<Rightarrow> (u32 \<times> 'r) option" and name_of :: "'r \<Rightarrow> u32 \<Rightarrow> string"
    and inv :: "'r \<Rightarrow> bool" and bound :: "'r \<Rightarrow> string \<Rightarrow> u32 \<Rightarrow> bool"
  assumes add_inv: "inv r \<Longrightarrow> add r s = Some (i, r') \<Longrightarrow> inv r'"
    and add_bound: "inv r \<Longrightarrow> add r s = Some (i, r') \<Longrightarrow> bound r' s i"
    and add_keeps: "inv r \<Longrightarrow> add r s = Some (i, r') \<Longrightarrow> bound r t j \<Longrightarrow> bound r' t j"
    and bound_name: "inv r \<Longrightarrow> bound r s i \<Longrightarrow> name_of r i = s"
    and bound_unique: "bound r s i \<Longrightarrow> bound r s j \<Longrightarrow> i = j"
    and add_bound_id: "bound r s i \<Longrightarrow> add r s = Some (i, r)"
begin

lemma bound_inj: "inv r \<Longrightarrow> bound r s i \<Longrightarrow> bound r t i \<Longrightarrow> s = t"
  by (metis bound_name)

lemma add_all_keeps:
  "inv r \<Longrightarrow> add_all add r ss = Some (is, r') \<Longrightarrow> inv r' \<and> (\<forall>t j. bound r t j \<longrightarrow> bound r' t j)"
proof (induction ss arbitrary: r "is")
  case (Cons s ss)
  from Cons.prems obtain i r1 is' where st: "add r s = Some (i, r1)" "add_all add r1 ss = Some (is', r')"
    by (auto split: option.splits prod.splits)
  then have "inv r1" using Cons.prems(1) add_inv by blast
  then show ?case using Cons.IH [OF _ st(2)] st(1) Cons.prems(1) add_keeps by blast
qed simp

text \<open>The ids of a whole sequence of symbols resolve, afterwards, to exactly those symbols.\<close>

lemma add_all_names:
  "inv r \<Longrightarrow> add_all add r ss = Some (is, r') \<Longrightarrow> map (name_of r') is = ss"
proof (induction ss arbitrary: r "is")
  case (Cons s ss)
  from Cons.prems obtain i r1 is' where st: "add r s = Some (i, r1)" "add_all add r1 ss = Some (is', r')"
    "is = i # is'" by (auto split: option.splits prod.splits)
  have inv1: "inv r1" and b1: "bound r1 s i" using Cons.prems(1) st(1) add_inv add_bound by blast+
  then have "inv r'" "bound r' s i" using add_all_keeps [OF inv1 st(2)] by blast+
  then show ?case using Cons.IH [OF inv1 st(2)] st(3) by (simp add: bound_name)
qed simp

end

interpretation registry: symbol_table get_or_add by_id registry_inv "\<lambda>r s i. symbol_to_id r s = Some i"
  by unfold_locales (auto simp: get_or_add_eq by_id_iff add_symbol_known
      intro: add_symbol_inv add_symbol_lookup add_symbol_keeps)

section \<open>Threads\<close>

lemma reg_sys_inv_step: "reg_step s s' \<Longrightarrow> reg_sys_inv s \<Longrightarrow> reg_sys_inv s'"
proof (induction rule: reg_step.induct)
  case (exclusive s t symb i r)
  then have inv: "registry_inv (reg s)" by (simp add: reg_sys_inv_def)
  then have "registry_inv r" "symbol_to_id r symb = Some i"
    "\<And>u j. symbol_to_id (reg s) u = Some j \<Longrightarrow> symbol_to_id r u = Some j"
    using exclusive(2) add_symbol_inv add_symbol_lookup add_symbol_keeps by blast+
  then show ?case using exclusive(3) by (auto simp: reg_sys_inv_def)
qed (auto simp: reg_sys_inv_def find_symbol_def)

lemma reg_reachable_inv: "reg_reachable s \<Longrightarrow> reg_sys_inv s"
proof (induction rule: reg_reachable.induct)
  case start
  show ?case by (simp add: reg_sys_inv_def reg_init_def registry_inv_new)
next
  case (step s s')
  then show ?case by (blast intro: reg_sys_inv_step)
qed

section \<open>Properties\<close>

text \<open>
  C17: \<open>get_or_add\<close> on a registry that satisfies the invariant, with an id left, returns an id that
  resolves to the symbol, keeps the invariant and every earlier id, and a second call with the
  same symbol returns the same id and changes nothing.
\<close>

theorem get_or_add_correct:
  assumes "registry_inv r" "has_room r"
  shows "\<exists>i r'. get_or_add r s = Some (i, r') \<and> registry_inv r' \<and> 0 < unat i \<and> by_id r' i = s
    \<and> get_or_add r' s = Some (i, r')
    \<and> (\<forall>t j. get_or_add r t = Some (j, r) \<longrightarrow> get_or_add r' t = Some (j, r') \<and> by_id r' j = t)"
proof -
  obtain i r' where st: "get_or_add r s = Some (i, r')"
    using assms add_symbol_new [of r s] add_symbol_known [of r s] get_or_add_eq [of r s]
    by (cases "symbol_to_id r s") auto
  have inv': "registry_inv r'" and b: "symbol_to_id r' s = Some i"
    using registry.add_inv [OF assms(1) st] registry.add_bound [OF assms(1) st] by auto
  then have "0 < unat i" by (simp add: registry_inv_def)
  moreover have "get_or_add r' t = Some (j, r') \<and> by_id r' j = t" if "get_or_add r t = Some (j, r)" for t j
    using registry.add_keeps [OF assms(1) st registry.add_bound [OF assms(1) that]]
      registry.add_bound_id registry.bound_name [OF inv'] by blast
  ultimately show ?thesis
    using st inv' b registry.add_bound_id registry.bound_name [OF inv' b] by blast
qed

theorem get_or_add_correct_witness:
  "\<exists>i r'. get_or_add new_registry ''BTCUSDT'' = Some (i, r') \<and> by_id r' i = ''BTCUSDT''"
proof -
  have "has_room new_registry" by (simp add: has_room_def new_registry_def)
  from get_or_add_correct [OF registry_inv_new this, of "''BTCUSDT''"] show ?thesis by blast
qed

text \<open>
  C18: the double-checked locking of \<open>get_or_add\<close> is correct under every interleaving of any number
  of threads: in every reachable state, two calls that returned for the same symbol returned the
  same id, two calls that returned the same id were for the same symbol, and every returned id
  resolves to its symbol.
\<close>

theorem get_or_add_linearizable:
  assumes "reg_reachable s" "calls s t = Returned a i" "calls s u = Returned b j"
  shows "(a = b \<longleftrightarrow> i = j) \<and> by_id (reg s) i = a"
proof -
  from reg_reachable_inv [OF assms(1)] have "registry_inv (reg s)"
    "symbol_to_id (reg s) a = Some i" "symbol_to_id (reg s) b = Some j"
    using assms(2,3) by (auto simp: reg_sys_inv_def)
  then show ?thesis by (metis registry.bound_name option.inject)
qed

definition two_thread_race :: reg_sys where
  "two_thread_race = \<lparr>reg = \<lparr>symbol_to_id = [''ETH'' \<mapsto> 1], symbols = [[], ''ETH''], next_id = 2\<rparr>,
     calls = (\<lambda>_. Idle)(0 := Calling ''ETH'', 1 := Calling ''ETH'', 0 := Missed ''ETH'', 1 := Missed ''ETH'',
       0 := Returned ''ETH'' 1, 1 := Returned ''ETH'' 1)\<rparr>"

lemma two_thread_race_reachable: "reg_reachable two_thread_race"
proof -
  let ?r = "\<lparr>symbol_to_id = [''ETH'' \<mapsto> 1], symbols = [[], ''ETH''], next_id = 2\<rparr> :: SymbolRegistry"
  let ?s1 = "reg_init\<lparr>calls := (calls reg_init)(0 := Calling ''ETH'')\<rparr>"
  let ?s2 = "?s1\<lparr>calls := (calls ?s1)(1 := Calling ''ETH'')\<rparr>"
  let ?s3 = "?s2\<lparr>calls := (calls ?s2)(0 := Missed ''ETH'')\<rparr>"
  let ?s4 = "?s3\<lparr>calls := (calls ?s3)(1 := Missed ''ETH'')\<rparr>"
  let ?s5 = "?s4\<lparr>reg := ?r, calls := (calls ?s4)(0 := Returned ''ETH'' 1)\<rparr>"
  let ?s6 = "?s5\<lparr>reg := ?r, calls := (calls ?s5)(1 := Returned ''ETH'' 1)\<rparr>"
  have r1: "reg_reachable ?s1"
    by (rule reg_reachable.step [OF reg_reachable.start], rule reg_step.invoke) (simp add: reg_init_def)
  have r2: "reg_reachable ?s2"
    by (rule reg_reachable.step [OF r1], rule reg_step.invoke) (simp add: reg_init_def)
  have r3: "reg_reachable ?s3"
    by (rule reg_reachable.step [OF r2], rule reg_step.shared_miss)
      (simp_all add: reg_init_def find_symbol_def new_registry_def)
  have r4: "reg_reachable ?s4"
    by (rule reg_reachable.step [OF r3], rule reg_step.shared_miss)
      (simp_all add: reg_init_def find_symbol_def new_registry_def)
  have r5: "reg_reachable ?s5"
    by (rule reg_reachable.step [OF r4], rule reg_step.exclusive)
      (simp_all add: reg_init_def new_registry_def add_symbol_def)
  have "reg_reachable ?s6"
    by (rule reg_reachable.step [OF r5], rule reg_step.exclusive)
      (simp_all add: reg_init_def add_symbol_def)
  then show ?thesis by (simp add: two_thread_race_def reg_init_def)
qed

theorem get_or_add_linearizable_witness:
  "(''ETH'' = ''ETH'' \<longleftrightarrow> (1 :: u32) = 1) \<and> by_id (reg two_thread_race) 1 = ''ETH''"
  by (rule get_or_add_linearizable [OF two_thread_race_reachable, of 0 _ _ 1])
    (simp_all add: two_thread_race_def)

text \<open>
  \<open>get_all\<close> lists the registered non-empty symbols with their ids, each exactly once and in
  the order of the ids.
\<close>

theorem get_all_correct:
  assumes "registry_inv r"
  shows "set (get_all r) = {(i, s). symbol_to_id r s = Some i \<and> s \<noteq> []} \<and> sorted_wrt (<) (map (unat \<circ> fst) (get_all r))"
proof -
  let ?f = "\<lambda>i. (word_of_nat i :: u32, symbols r ! i)" and ?n = "length (symbols r)"
  have n: "?n < 2 ^ 32" using assms unat_u32_less [of "next_id r"] by (simp add: registry_inv_def)
  then have u: "unat (word_of_nat k :: u32) = k" if "k < ?n" for k
    using that by (simp add: unat_of_nat)
  have "(i, s) \<in> set (get_all r) \<longleftrightarrow> symbol_to_id r s = Some i \<and> s \<noteq> []" for i s
  proof -
    have "(\<exists>k \<in> {1..<?n}. (i, s) = ?f k) \<longleftrightarrow> 0 < unat i \<and> unat i < ?n \<and> symbols r ! unat i = s"
      by (auto simp: u intro!: bexI [of _ "unat i"])
    then show ?thesis using assms by (auto simp: get_all_def registry_inv_def)
  qed
  moreover have "sorted_wrt (<) (map (unat \<circ> fst) (get_all r))"
  proof -
    have "sorted_wrt (\<lambda>j k. unat (fst (?f j)) < unat (fst (?f k))) [1..<?n]"
      by (rule sorted_wrt_mono_rel [of _ "(<)"]) (simp_all add: u)
    then show ?thesis by (simp add: get_all_def sorted_wrt_map sorted_wrt_filter)
  qed
  ultimately show ?thesis by auto
qed

theorem get_all_correct_witness:
  "set (get_all (reg two_thread_race)) = {(i, s). symbol_to_id (reg two_thread_race) s = Some i \<and> s \<noteq> []}"
  using get_all_correct [of "reg two_thread_race"] reg_reachable_inv [OF two_thread_race_reachable]
  by (simp add: reg_sys_inv_def)

end
