(* ===== verification/Crc32.thy ===== *)
theory Crc32
  imports Prelude
begin

text \<open>
  The checksum of \<open>src/common/crc32.cpp\<close>: the lookup table built by \<open>init_table\<close>, its lazy
  initialisation, and the table-driven loop of \<open>calculate_crc32\<close> over the process-wide table
  and flag (\<open>crc_globals\<close>). The reference is the bit-serial reflected CRC-32; the loop is proved
  equal to it, and the reference is proved to tell apart any two inputs that differ in a window
  of at most four bytes, which is the guarantee the frame decoder builds on.
\<close>

section \<open>The code\<close>

text \<open>One round of the inner loop of \<open>init_table\<close>, and the eight rounds that make one entry.\<close>

definition crc_bit :: "u32 \<Rightarrow> u32" where
  "crc_bit crc = (if crc AND 1 \<noteq> 0 then drop_bit 1 crc XOR 0xEDB88320 else drop_bit 1 crc)"

definition table_entry :: "u32 \<Rightarrow> u32" where
  "table_entry i = (crc_bit ^^ 8) i"

record crc_globals =
  crc32_table :: "u32 list"
  table_initialized :: bool

definition init_table :: "crc_globals \<Rightarrow> crc_globals" where
  "init_table g = g\<lparr>crc32_table := map (\<lambda>i. table_entry (word_of_nat i)) [0..<256],
                    table_initialized := True\<rparr>"

definition initialize_crc32_table :: "crc_globals \<Rightarrow> crc_globals" where
  "initialize_crc32_table g = (if \<not> table_initialized g then init_table g else g)"

definition crc_step :: "u32 list \<Rightarrow> u32 \<Rightarrow> byte \<Rightarrow> u32" where
  "crc_step tab crc b = drop_bit 8 crc XOR (tab ! unat ((crc AND 0xFF) XOR ucast b))"

definition calculate_crc32 :: "crc_globals \<Rightarrow> byte list \<Rightarrow> u32 \<times> crc_globals" where
  "calculate_crc32 g data =
     (let g' = (if \<not> table_initialized g then init_table g else g)
      in (foldl (crc_step (crc32_table g')) 0xFFFFFFFF data XOR 0xFFFFFFFF, g'))"

text \<open>
  \<open>crc_ok\<close> is the state every run keeps: a table that claims to be initialised is the table that
  \<open>init_table\<close> builds. The program starts with the flag false.
\<close>

definition crc_start :: crc_globals where
  "crc_start = \<lparr>crc32_table = replicate 256 0, table_initialized = False\<rparr>"

definition crc_ok :: "crc_globals \<Rightarrow> bool" where
  "crc_ok g \<longleftrightarrow> (table_initialized g \<longrightarrow>
     crc32_table g = map (\<lambda>i. table_entry (word_of_nat i)) [0..<256])"

text \<open>
  \<open>setup_components\<close> initialises the table before any frame exists, so \<open>crc32\<close> is the value the
  codec sees; C1 shows that no other state the program can be in gives another value.
\<close>

definition crc32 :: "byte list \<Rightarrow> u32" where
  "crc32 data = fst (calculate_crc32 (initialize_crc32_table crc_start) data)"

section \<open>The bit-serial reference\<close>

definition crc_byte :: "u32 \<Rightarrow> byte \<Rightarrow> u32" where
  "crc_byte crc b = (crc_bit ^^ 8) (crc XOR ucast b)"

definition crc32_ref :: "byte list \<Rightarrow> u32" where
  "crc32_ref data = foldl crc_byte 0xFFFFFFFF data XOR 0xFFFFFFFF"

section \<open>The table-driven loop is the reference\<close>

text \<open>The inverse of one round: its top bit tells which branch was taken.\<close>

definition crc_unbit :: "u32 \<Rightarrow> u32" where
  "crc_unbit d = (if bit d 31 then push_bit 1 (d XOR 0xEDB88320) OR 1 else push_bit 1 d)"

lemma crc_bit_odd: "bit c 0 \<Longrightarrow> crc_bit c = drop_bit 1 c XOR 0xEDB88320"
  by (simp add: crc_bit_def low_bit_iff)

lemma crc_bit_even: "\<not> bit c 0 \<Longrightarrow> crc_bit c = drop_bit 1 c"
  by (simp add: crc_bit_def low_bit_iff)

lemma drop_bit_top: "\<not> bit (drop_bit 1 (c :: u32)) 31"
  using bit_imp_le_length [of c 32] by (auto simp: bit_simps)

lemma crc_unbit_crc_bit: "crc_unbit (crc_bit c) = c"
proof (cases "bit c 0")
  case True
  have "bit (drop_bit 1 c XOR 0xEDB88320) 31"
    using drop_bit_top [of c] by (simp add: bit_xor_iff)
  then have "crc_unbit (crc_bit c) = push_bit 1 (drop_bit 1 c XOR 0xEDB88320 XOR 0xEDB88320) OR 1"
    by (simp only: crc_bit_odd [OF True] crc_unbit_def if_True xor.assoc)
  also have "\<dots> = push_bit 1 (drop_bit 1 c) OR 1"
    by (simp only: xor.assoc xor_self_eq xor.right_neutral)
  also have "\<dots> = c"
    using push_drop_bit_odd [OF True] by simp
  finally show ?thesis .
next
  case False
  then have "crc_unbit (crc_bit c) = push_bit 1 (drop_bit 1 c)"
    using drop_bit_top [of c] by (simp only: crc_bit_even [OF False] crc_unbit_def if_False)
  also have "\<dots> = c"
    using push_drop_bit_even [OF False] by simp
  finally show ?thesis .
qed

lemma inj_crc_bit: "inj crc_bit"
  by (rule inj_on_inverseI [of _ crc_unbit]) (rule crc_unbit_crc_bit)

lemma inj_crc_bits: "inj (crc_bit ^^ n)"
proof (induction n)
  case (Suc n)
  then show ?case
    by (simp only: funpow.simps) (rule inj_compose [OF inj_crc_bit])
qed (simp add: inj_def)

lemma crc_bit_xor: "crc_bit (a XOR b) = crc_bit a XOR crc_bit b"
  by (rule bit_eqI) (auto simp: crc_bit_def low_bit_iff bit_simps)

lemma crc_bits_xor: "(crc_bit ^^ n) (a XOR b) = (crc_bit ^^ n) a XOR (crc_bit ^^ n) b"
  by (induction n) (simp_all add: crc_bit_xor)

lemma crc_bits_shift: "(\<And>i. i < n \<Longrightarrow> \<not> bit x i) \<Longrightarrow> (crc_bit ^^ n) x = drop_bit n x"
proof (induction n)
  case (Suc n)
  then have "\<not> bit (drop_bit n x) 0" by (simp add: bit_simps)
  with Suc show ?case by (simp add: crc_bit_def low_bit_iff drop_bit_drop_bit)
qed simp

lemma mask8: "(0xFF :: u32) = mask 8"
  by (simp add: mask_eq_exp_minus_1)

lemma byte_index_bound: "unat ((crc AND 0xFF) XOR ucast (b::byte) :: u32) < 256"
proof -
  have "take_bit 8 ((crc AND 0xFF) XOR ucast b :: u32) = (crc AND 0xFF) XOR ucast b"
    unfolding mask8 by (rule bit_eqI) (auto simp: bit_simps dest: bit_imp_le_length)
  from unat_less_of_take_bit [OF this] show ?thesis by simp
qed

lemma crc_step_table:
  "crc_step (map (\<lambda>i. table_entry (word_of_nat i)) [0..<256]) crc b = crc_byte crc b"
proof -
  let ?i = "(crc AND 0xFF) XOR ucast b :: u32" and ?h = "push_bit 8 (drop_bit 8 crc)"
  have split: "crc XOR ucast b = ?h XOR ?i"
    unfolding mask8 by (rule bit_eqI) (auto simp: bit_simps)
  have "(crc_bit ^^ 8) ?h = drop_bit 8 ?h"
    by (rule crc_bits_shift) (simp add: bit_simps)
  also have "\<dots> = drop_bit 8 crc"
    by (rule bit_eqI) (auto simp: bit_simps dest: bit_imp_le_length)
  finally have "crc_byte crc b = drop_bit 8 crc XOR table_entry ?i"
    by (simp add: crc_byte_def split crc_bits_xor table_entry_def)
  then show ?thesis
    by (simp add: crc_step_def byte_index_bound)
qed

lemma foldl_crc_step:
  "foldl (crc_step (map (\<lambda>i. table_entry (word_of_nat i)) [0..<256])) crc data = foldl crc_byte crc data"
  by (induction data arbitrary: crc) (simp_all add: crc_step_table)

lemma crc_ok_start: "crc_ok crc_start"
  by (simp add: crc_ok_def crc_start_def)

lemma crc_ok_initialize: "crc_ok g \<Longrightarrow> crc_ok (initialize_crc32_table g)"
  by (simp add: crc_ok_def initialize_crc32_table_def init_table_def)

lemma calculate_crc32_fst: "crc_ok g \<Longrightarrow> fst (calculate_crc32 g data) = crc32_ref data"
  by (auto simp: calculate_crc32_def crc32_ref_def Let_def foldl_crc_step init_table_def crc_ok_def)

lemma crc32_eq_ref: "crc32 data = crc32_ref data"
  by (simp add: crc32_def calculate_crc32_fst crc_ok_initialize crc_ok_start)

lemma calculate_crc32_snd: "crc_ok g \<Longrightarrow> crc_ok (snd (calculate_crc32 g data))"
  by (auto simp: calculate_crc32_def Let_def init_table_def crc_ok_def)

lemma crc_byte_inj: "crc_byte c b = crc_byte c' b \<Longrightarrow> c = c'"
  unfolding crc_byte_def by (drule injD [OF inj_crc_bits]) simp

lemma foldl_crc_byte_inj: "foldl crc_byte c data = foldl crc_byte c' data \<Longrightarrow> c = c'"
  by (induction data arbitrary: c c') (auto dest: crc_byte_inj)

lemma le_word_xor: "le_word (b # bs) = (ucast b XOR push_bit 8 (le_word bs) :: u32)"
  by (rule bit_eqI) (auto simp: bit_simps dest: bit_imp_le_length)

lemma foldl_crc_window:
  "length ws \<le> 4 \<Longrightarrow> foldl crc_byte c ws = (crc_bit ^^ (8 * length ws)) (c XOR le_word ws)"
proof (induction ws arbitrary: c)
  case (Cons b bs)
  let ?w = "le_word bs :: u32"
  have "(crc_bit ^^ 8) (push_bit 8 ?w) = drop_bit 8 (push_bit 8 ?w)"
    by (rule crc_bits_shift) (simp add: bit_simps)
  also have "\<dots> = ?w"
    using Cons.prems by (intro bit_eqI) (auto simp: bit_simps dest: bit_le_word)
  finally have w: "(crc_bit ^^ 8) (push_bit 8 ?w) = ?w" .
  have "foldl crc_byte c (b # bs) = (crc_bit ^^ (8 * length bs)) (crc_byte c b XOR ?w)"
    using Cons by simp
  also have "crc_byte c b XOR ?w = (crc_bit ^^ 8) (c XOR le_word (b # bs))"
    by (subst w [symmetric]) (simp only: crc_byte_def le_word_xor crc_bits_xor xor.assoc)
  finally show ?case
    by (simp only: funpow_add [symmetric, THEN fun_cong, unfolded comp_def] length_Cons mult_Suc_right add.commute)
qed simp

lemma crc32_ref_window:
  assumes "length ws \<le> 4" "length ws' = length ws" "ws \<noteq> ws'"
  shows "crc32_ref (pre @ ws @ post) \<noteq> crc32_ref (pre @ ws' @ post)"
proof
  assume "crc32_ref (pre @ ws @ post) = crc32_ref (pre @ ws' @ post)"
  then have "foldl crc_byte (foldl crc_byte 0xFFFFFFFF pre) ws = foldl crc_byte (foldl crc_byte 0xFFFFFFFF pre) ws'"
    by (auto simp: crc32_ref_def dest: foldl_crc_byte_inj)
  then have "(le_word ws :: u32) = le_word ws'"
    using assms(1,2) by (simp add: foldl_crc_window inj_eq [OF inj_crc_bits])
  then show False
    using assms le_bytes_le_word [of ws, where 'a = 32] le_bytes_le_word [of ws', where 'a = 32] by simp
qed

text \<open>The published check value of this CRC (the bytes of ``123456789'').\<close>

lemma funpow8: "(f ^^ 8) x = f (f (f (f (f (f (f (f x)))))))"
  by (simp add: numeral_eq_Suc)

lemma crc_check: "crc32_ref [0x31,0x32,0x33,0x34,0x35,0x36,0x37,0x38,0x39] = 0xCBF43926"
  by (simp add: crc32_ref_def crc_byte_def crc_bit_def funpow8)

section \<open>The contract of a checksum\<close>

text \<open>
  What the frame codec relies on: two bodies that agree outside a window of at most
  \<open>window\<close> bytes, and differ inside it, never have the same checksum.
\<close>

locale burst_checksum =
  fixes sum :: "byte list \<Rightarrow> u32" and window :: nat
  assumes detects: "length ws \<le> window \<Longrightarrow> length ws' = length ws \<Longrightarrow> ws \<noteq> ws'
    \<Longrightarrow> sum (pre @ ws @ post) \<noteq> sum (pre @ ws' @ post)"
begin

text \<open>Stated on whole inputs: equal lengths, equal outside the window.\<close>

lemma detects_at:
  assumes len: "length xs = length ys"
    and pre: "take i xs = take i ys" and post: "drop (i + window) xs = drop (i + window) ys"
    and neq: "xs \<noteq> ys"
  shows "sum xs \<noteq> sum ys"
proof -
  let ?w = "\<lambda>zs. take window (drop i zs)"
  have split: "zs = take i zs @ ?w zs @ drop (i + window) zs" for zs :: "byte list"
    by (metis append_take_drop_id drop_drop add.commute)
  have "?w xs \<noteq> ?w ys"
    using neq pre post split [of xs] split [of ys] by metis
  moreover have "length (?w ys) = length (?w xs)" "length (?w xs) \<le> window"
    using len by simp_all
  ultimately have "sum (take i xs @ ?w xs @ drop (i + window) xs)
      \<noteq> sum (take i xs @ ?w ys @ drop (i + window) xs)"
    by (intro detects) simp_all
  then show ?thesis
    using split [of xs] split [of ys] pre post by simp
qed

end

interpretation crc: burst_checksum crc32 4
  by unfold_locales (simp add: crc32_eq_ref crc32_ref_window)

section \<open>Properties\<close>

text \<open>
  C14: the table-driven loop of \<open>calculate_crc32\<close>, with its lazily built table, computes the
  bit-serial CRC-32 of the data, from any state in which an initialised table is the one
  \<open>init_table\<close> builds, and leaves such a state.
\<close>

theorem calculate_crc32_correct:
  "crc_ok g \<Longrightarrow> fst (calculate_crc32 g data) = crc32_ref data \<and> crc_ok (snd (calculate_crc32 g data))"
  by (simp add: calculate_crc32_fst calculate_crc32_snd)

theorem calculate_crc32_correct_witness:
  "crc_ok crc_start
   \<and> fst (calculate_crc32 crc_start [0x31,0x32,0x33,0x34,0x35,0x36,0x37,0x38,0x39]) = 0xCBF43926"
  using calculate_crc32_correct [OF crc_ok_start, of "[0x31,0x32,0x33,0x34,0x35,0x36,0x37,0x38,0x39]"]
  by (simp add: crc_ok_start crc_check)

text \<open>
  C15: the checksum detects every error confined to four consecutive bytes: if two inputs have
  the same length, agree outside a four-byte window and differ, \<open>calculate_crc32\<close> returns
  different values for them.
\<close>

theorem calculate_crc32_detects_burst:
  assumes "crc_ok g" and "length xs = length ys"
    and "take i xs = take i ys" and "drop (i + 4) xs = drop (i + 4) ys" and "xs \<noteq> ys"
  shows "fst (calculate_crc32 g xs) \<noteq> fst (calculate_crc32 g ys)"
  using crc.detects_at [OF assms(2-5)] by (simp add: calculate_crc32_fst [OF assms(1)] crc32_eq_ref)

theorem calculate_crc32_detects_burst_witness:
  "fst (calculate_crc32 crc_start [1, 2, 3, 4, 5, 6]) \<noteq> fst (calculate_crc32 crc_start [1, 9, 9, 9, 9, 6])"
  by (rule calculate_crc32_detects_burst [OF crc_ok_start, where i = 1]) simp_all

end
