(* ===== verification/Frame.thy ===== *)
theory Frame
  imports Crc32
begin

text \<open>
  The wire and file format of \<open>src/common/frame.hpp\<close> and \<open>src/common/frame.cpp\<close>: the packed
  structs as records, the \<open>std::variant\<close> of bodies as a datatype, the five constructors,
  \<open>encode_frame\<close> on the caller's buffer and \<open>decode_frame\<close> on a span. A struct is copied by
  \<open>memcpy\<close>, so its bytes are its fields in declaration order, little-endian and without padding
  (\<open>#pragma pack(1)\<close>). The constructors leave \<open>header.crc32\<close> uninitialised: that value is
  the argument \<open>ind\<close>.
\<close>

section \<open>Data\<close>

record FrameHeader =
  fh_magic :: u32
  fh_version :: u16
  fh_msg_type :: u16
  fh_body_len :: u32
  fh_crc32 :: u32

record L1Body =
  l1_ts_ns :: u64
  l1_symbol_id :: u32
  l1_bid_px :: i64
  l1_bid_sz :: u64
  l1_ask_px :: i64
  l1_ask_sz :: u64
  l1_seq :: u64

datatype BookAction = Insert | Update | Delete
datatype Side = Bid | Ask

record L2Body =
  l2_ts_ns :: u64
  l2_symbol_id :: u32
  l2_side :: u8
  l2_action :: u8
  l2_level :: u16
  l2_price :: i64
  l2_size :: u64
  l2_seq :: u64

record TradeBody =
  tr_ts_ns :: u64
  tr_symbol_id :: u32
  tr_price :: i64
  tr_size :: u64
  tr_aggressor_side :: u8
  tr_seq :: u64

record HbBody =
  hb_ts_ns :: u64

record ControlAckBody =
  ack_code :: u32
  ack_reserved :: u32

datatype MessageType = MtL1 | MtL2 | MtTrade | MtHeartbeat | MtControlAck

fun MessageType_value :: "MessageType \<Rightarrow> u16" where
  "MessageType_value MtL1 = 1"
| "MessageType_value MtL2 = 2"
| "MessageType_value MtTrade = 3"
| "MessageType_value MtHeartbeat = 4"
| "MessageType_value MtControlAck = 5"

datatype FrameBody =
    BL1 L1Body
  | BL2 L2Body
  | BTrade TradeBody
  | BHb HbBody
  | BAck ControlAckBody

record Frame =
  header :: FrameHeader
  body :: FrameBody

record MdfHeader =
  mdf_magic :: u32
  mdf_version :: u16
  mdf_reserved :: u16
  mdf_start_ts_ns :: u64
  mdf_end_ts_ns :: u64
  mdf_symbol_count :: u32
  mdf_frame_count :: u32

record IndexEntry =
  ts_ns_first :: u64
  file_offset :: u64

abbreviation (input) sizeof_FrameHeader :: nat where "sizeof_FrameHeader \<equiv> 16"
abbreviation (input) sizeof_L1Body :: nat where "sizeof_L1Body \<equiv> 52"
abbreviation (input) sizeof_L2Body :: nat where "sizeof_L2Body \<equiv> 40"
abbreviation (input) sizeof_TradeBody :: nat where "sizeof_TradeBody \<equiv> 37"
abbreviation (input) sizeof_HbBody :: nat where "sizeof_HbBody \<equiv> 8"
abbreviation (input) sizeof_ControlAckBody :: nat where "sizeof_ControlAckBody \<equiv> 8"
abbreviation (input) sizeof_MdfHeader :: nat where "sizeof_MdfHeader \<equiv> 32"
abbreviation (input) sizeof_IndexEntry :: nat where "sizeof_IndexEntry \<equiv> 16"

section \<open>Structs as bytes\<close>

definition FrameHeader_bytes :: "FrameHeader \<Rightarrow> byte list" where
  "FrameHeader_bytes h = le_bytes 4 (fh_magic h) @ le_bytes 2 (fh_version h)
     @ le_bytes 2 (fh_msg_type h) @ le_bytes 4 (fh_body_len h) @ le_bytes 4 (fh_crc32 h)"

definition FrameHeader_of :: "byte list \<Rightarrow> FrameHeader" where
  "FrameHeader_of bs =
     \<lparr>fh_magic = le_word (take 4 bs), fh_version = le_word (take 2 (drop 4 bs)),
      fh_msg_type = le_word (take 2 (drop 6 bs)), fh_body_len = le_word (take 4 (drop 8 bs)),
      fh_crc32 = le_word (take 4 (drop 12 bs))\<rparr>"

definition L1Body_bytes :: "L1Body \<Rightarrow> byte list" where
  "L1Body_bytes b = le_bytes 8 (l1_ts_ns b) @ le_bytes 4 (l1_symbol_id b) @ le_bytes 8 (l1_bid_px b)
     @ le_bytes 8 (l1_bid_sz b) @ le_bytes 8 (l1_ask_px b) @ le_bytes 8 (l1_ask_sz b)
     @ le_bytes 8 (l1_seq b)"

definition L1Body_of :: "byte list \<Rightarrow> L1Body" where
  "L1Body_of bs =
     \<lparr>l1_ts_ns = le_word (take 8 bs), l1_symbol_id = le_word (take 4 (drop 8 bs)),
      l1_bid_px = le_word (take 8 (drop 12 bs)), l1_bid_sz = le_word (take 8 (drop 20 bs)),
      l1_ask_px = le_word (take 8 (drop 28 bs)), l1_ask_sz = le_word (take 8 (drop 36 bs)),
      l1_seq = le_word (take 8 (drop 44 bs))\<rparr>"

definition L2Body_bytes :: "L2Body \<Rightarrow> byte list" where
  "L2Body_bytes b = le_bytes 8 (l2_ts_ns b) @ le_bytes 4 (l2_symbol_id b) @ le_bytes 1 (l2_side b)
     @ le_bytes 1 (l2_action b) @ le_bytes 2 (l2_level b) @ le_bytes 8 (l2_price b)
     @ le_bytes 8 (l2_size b) @ le_bytes 8 (l2_seq b)"

definition L2Body_of :: "byte list \<Rightarrow> L2Body" where
  "L2Body_of bs =
     \<lparr>l2_ts_ns = le_word (take 8 bs), l2_symbol_id = le_word (take 4 (drop 8 bs)),
      l2_side = le_word (take 1 (drop 12 bs)), l2_action = le_word (take 1 (drop 13 bs)),
      l2_level = le_word (take 2 (drop 14 bs)), l2_price = le_word (take 8 (drop 16 bs)),
      l2_size = le_word (take 8 (drop 24 bs)), l2_seq = le_word (take 8 (drop 32 bs))\<rparr>"

definition TradeBody_bytes :: "TradeBody \<Rightarrow> byte list" where
  "TradeBody_bytes b = le_bytes 8 (tr_ts_ns b) @ le_bytes 4 (tr_symbol_id b) @ le_bytes 8 (tr_price b)
     @ le_bytes 8 (tr_size b) @ le_bytes 1 (tr_aggressor_side b) @ le_bytes 8 (tr_seq b)"

definition TradeBody_of :: "byte list \<Rightarrow> TradeBody" where
  "TradeBody_of bs =
     \<lparr>tr_ts_ns = le_word (take 8 bs), tr_symbol_id = le_word (take 4 (drop 8 bs)),
      tr_price = le_word (take 8 (drop 12 bs)), tr_size = le_word (take 8 (drop 20 bs)),
      tr_aggressor_side = le_word (take 1 (drop 28 bs)), tr_seq = le_word (take 8 (drop 29 bs))\<rparr>"

definition HbBody_bytes :: "HbBody \<Rightarrow> byte list" where
  "HbBody_bytes b = le_bytes 8 (hb_ts_ns b)"

definition HbBody_of :: "byte list \<Rightarrow> HbBody" where
  "HbBody_of bs = \<lparr>hb_ts_ns = le_word (take 8 bs)\<rparr>"

definition ControlAckBody_bytes :: "ControlAckBody \<Rightarrow> byte list" where
  "ControlAckBody_bytes b = le_bytes 4 (ack_code b) @ le_bytes 4 (ack_reserved b)"

definition ControlAckBody_of :: "byte list \<Rightarrow> ControlAckBody" where
  "ControlAckBody_of bs =
     \<lparr>ack_code = le_word (take 4 bs), ack_reserved = le_word (take 4 (drop 4 bs))\<rparr>"

definition MdfHeader_bytes :: "MdfHeader \<Rightarrow> byte list" where
  "MdfHeader_bytes h = le_bytes 4 (mdf_magic h) @ le_bytes 2 (mdf_version h) @ le_bytes 2 (mdf_reserved h)
     @ le_bytes 8 (mdf_start_ts_ns h) @ le_bytes 8 (mdf_end_ts_ns h)
     @ le_bytes 4 (mdf_symbol_count h) @ le_bytes 4 (mdf_frame_count h)"

definition MdfHeader_of :: "byte list \<Rightarrow> MdfHeader" where
  "MdfHeader_of bs =
     \<lparr>mdf_magic = le_word (take 4 bs), mdf_version = le_word (take 2 (drop 4 bs)),
      mdf_reserved = le_word (take 2 (drop 6 bs)), mdf_start_ts_ns = le_word (take 8 (drop 8 bs)),
      mdf_end_ts_ns = le_word (take 8 (drop 16 bs)), mdf_symbol_count = le_word (take 4 (drop 24 bs)),
      mdf_frame_count = le_word (take 4 (drop 28 bs))\<rparr>"

definition IndexEntry_bytes :: "IndexEntry \<Rightarrow> byte list" where
  "IndexEntry_bytes e = le_bytes 8 (ts_ns_first e) @ le_bytes 8 (file_offset e)"

definition IndexEntry_of :: "byte list \<Rightarrow> IndexEntry" where
  "IndexEntry_of bs = \<lparr>ts_ns_first = le_word (take 8 bs), file_offset = le_word (take 8 (drop 8 bs))\<rparr>"

section \<open>Construction, encoding, decoding\<close>

definition default_header :: "u32 \<Rightarrow> MessageType \<Rightarrow> nat \<Rightarrow> FrameHeader" where
  "default_header ind ty len =
     \<lparr>fh_magic = 0x4D444146, fh_version = 1, fh_msg_type = MessageType_value ty,
      fh_body_len = word_of_nat len, fh_crc32 = ind\<rparr>"

fun mk_frame :: "u32 \<Rightarrow> FrameBody \<Rightarrow> Frame" where
  "mk_frame ind (BL1 l1) = \<lparr>header = default_header ind MtL1 sizeof_L1Body, body = BL1 l1\<rparr>"
| "mk_frame ind (BL2 l2) = \<lparr>header = default_header ind MtL2 sizeof_L2Body, body = BL2 l2\<rparr>"
| "mk_frame ind (BTrade t) = \<lparr>header = default_header ind MtTrade sizeof_TradeBody, body = BTrade t\<rparr>"
| "mk_frame ind (BHb hb) = \<lparr>header = default_header ind MtHeartbeat sizeof_HbBody, body = BHb hb\<rparr>"
| "mk_frame ind (BAck a) = \<lparr>header = default_header ind MtControlAck sizeof_ControlAckBody, body = BAck a\<rparr>"

fun body_bytes :: "FrameBody \<Rightarrow> byte list" where
  "body_bytes (BL1 b) = L1Body_bytes b"
| "body_bytes (BL2 b) = L2Body_bytes b"
| "body_bytes (BTrade b) = TradeBody_bytes b"
| "body_bytes (BHb b) = HbBody_bytes b"
| "body_bytes (BAck b) = ControlAckBody_bytes b"

text \<open>
  \<open>encode_frame\<close> works on the caller's buffer: \<open>resize\<close>, copy the body behind the header,
  checksum \<open>body_len\<close> bytes of the buffer, copy the header. A body longer than \<open>body_len\<close>
  overruns the buffer (\<open>None\<close>).
\<close>

definition encode_frame :: "Frame \<Rightarrow> byte list \<Rightarrow> byte list option" where
  "encode_frame frame buffer =
     (let body_len = unat (fh_body_len (header frame));
          total_size = sizeof_FrameHeader + body_len;
          buf = resize total_size buffer
      in case memcpy_at buf sizeof_FrameHeader (body_bytes (body frame)) of
           None \<Rightarrow> None
         | Some buf1 \<Rightarrow>
             memcpy_at buf1 0
               (FrameHeader_bytes
                 ((header frame)\<lparr>fh_crc32 := crc32 (take body_len (drop sizeof_FrameHeader buf1))\<rparr>)))"

fun decode_body :: "u16 \<Rightarrow> nat \<Rightarrow> byte list \<Rightarrow> FrameBody option" where
  "decode_body msg_type body_len bs =
     (if msg_type = MessageType_value MtL1 then
        (if body_len \<noteq> sizeof_L1Body then None else Some (BL1 (L1Body_of bs)))
      else if msg_type = MessageType_value MtL2 then
        (if body_len \<noteq> sizeof_L2Body then None else Some (BL2 (L2Body_of bs)))
      else if msg_type = MessageType_value MtTrade then
        (if body_len \<noteq> sizeof_TradeBody then None else Some (BTrade (TradeBody_of bs)))
      else if msg_type = MessageType_value MtHeartbeat then
        (if body_len \<noteq> sizeof_HbBody then None else Some (BHb (HbBody_of bs)))
      else if msg_type = MessageType_value MtControlAck then
        (if body_len \<noteq> sizeof_ControlAckBody then None else Some (BAck (ControlAckBody_of bs)))
      else None)"

definition decode_frame :: "byte list \<Rightarrow> Frame option" where
  "decode_frame data =
     (if length data < sizeof_FrameHeader then None
      else let hdr = FrameHeader_of (take sizeof_FrameHeader data);
               body_len = unat (fh_body_len hdr)
      in if fh_magic hdr \<noteq> 0x4D444146 \<or> fh_version hdr \<noteq> 1 then None
         else if length data < sizeof_FrameHeader + body_len then None
         else let bs = take body_len (drop sizeof_FrameHeader data)
         in if crc32 bs \<noteq> fh_crc32 hdr then None
            else case decode_body (fh_msg_type hdr) body_len bs of
                   None \<Rightarrow> None
                 | Some b \<Rightarrow> Some \<lparr>header = hdr, body = b\<rparr>)"

text \<open>A frame whose header describes its body: what the five constructors establish.\<close>

fun body_type :: "FrameBody \<Rightarrow> MessageType" where
  "body_type (BL1 _) = MtL1"
| "body_type (BL2 _) = MtL2"
| "body_type (BTrade _) = MtTrade"
| "body_type (BHb _) = MtHeartbeat"
| "body_type (BAck _) = MtControlAck"

definition wf_frame :: "Frame \<Rightarrow> bool" where
  "wf_frame f \<longleftrightarrow> fh_magic (header f) = 0x4D444146 \<and> fh_version (header f) = 1
     \<and> fh_msg_type (header f) = MessageType_value (body_type (body f))
     \<and> unat (fh_body_len (header f)) = length (body_bytes (body f))"

definition sealed :: "Frame \<Rightarrow> Frame" where
  "sealed f = f\<lparr>header := (header f)\<lparr>fh_crc32 := crc32 (body_bytes (body f))\<rparr>\<rparr>"

definition frame_bytes :: "Frame \<Rightarrow> byte list" where
  "frame_bytes f = FrameHeader_bytes (header (sealed f)) @ body_bytes (body f)"

section \<open>Layout lemmas\<close>

lemma length_struct_bytes [simp]:
  "length (FrameHeader_bytes h) = sizeof_FrameHeader" "length (L1Body_bytes l1) = sizeof_L1Body"
  "length (L2Body_bytes l2) = sizeof_L2Body" "length (TradeBody_bytes t) = sizeof_TradeBody"
  "length (HbBody_bytes hb) = sizeof_HbBody" "length (ControlAckBody_bytes a) = sizeof_ControlAckBody"
  "length (MdfHeader_bytes m) = sizeof_MdfHeader" "length (IndexEntry_bytes e) = sizeof_IndexEntry"
  by (simp_all add: FrameHeader_bytes_def L1Body_bytes_def L2Body_bytes_def TradeBody_bytes_def
      HbBody_bytes_def ControlAckBody_bytes_def MdfHeader_bytes_def IndexEntry_bytes_def)

lemma FrameHeader_roundtrip [simp]: "FrameHeader_of (FrameHeader_bytes h) = h"
  by (simp add: FrameHeader_of_def FrameHeader_bytes_def)

lemma L1Body_roundtrip [simp]: "L1Body_of (L1Body_bytes b) = b"
  by (simp add: L1Body_of_def L1Body_bytes_def)

lemma L2Body_roundtrip [simp]: "L2Body_of (L2Body_bytes b) = b"
  by (simp add: L2Body_of_def L2Body_bytes_def)

lemma TradeBody_roundtrip [simp]: "TradeBody_of (TradeBody_bytes b) = b"
  by (simp add: TradeBody_of_def TradeBody_bytes_def)

lemma HbBody_roundtrip [simp]: "HbBody_of (HbBody_bytes b) = b"
  by (simp add: HbBody_of_def HbBody_bytes_def)

lemma ControlAckBody_roundtrip [simp]: "ControlAckBody_of (ControlAckBody_bytes b) = b"
  by (simp add: ControlAckBody_of_def ControlAckBody_bytes_def)

lemma MdfHeader_roundtrip [simp]: "MdfHeader_of (MdfHeader_bytes h) = h"
  by (simp add: MdfHeader_of_def MdfHeader_bytes_def)

lemma IndexEntry_roundtrip [simp]: "IndexEntry_of (IndexEntry_bytes e) = e"
  by (simp add: IndexEntry_of_def IndexEntry_bytes_def)

text \<open>The other direction: a struct read from bytes of its size writes back the same bytes.\<close>

lemma FrameHeader_bytes_of: "length bs = 16 \<Longrightarrow> FrameHeader_bytes (FrameHeader_of bs) = bs"
  by (simp add: FrameHeader_of_def FrameHeader_bytes_def le_bytes_of_word layout_simps)

lemma L1Body_bytes_of: "length bs = 52 \<Longrightarrow> L1Body_bytes (L1Body_of bs) = bs"
  by (simp add: L1Body_of_def L1Body_bytes_def le_bytes_of_word layout_simps)

lemma L2Body_bytes_of: "length bs = 40 \<Longrightarrow> L2Body_bytes (L2Body_of bs) = bs"
  by (simp add: L2Body_of_def L2Body_bytes_def le_bytes_of_word layout_simps)

lemma TradeBody_bytes_of: "length bs = 37 \<Longrightarrow> TradeBody_bytes (TradeBody_of bs) = bs"
  by (simp add: TradeBody_of_def TradeBody_bytes_def le_bytes_of_word layout_simps)

lemma HbBody_bytes_of: "length bs = 8 \<Longrightarrow> HbBody_bytes (HbBody_of bs) = bs"
  by (simp add: HbBody_of_def HbBody_bytes_def le_bytes_of_word layout_simps)

lemma ControlAckBody_bytes_of: "length bs = 8 \<Longrightarrow> ControlAckBody_bytes (ControlAckBody_of bs) = bs"
  by (simp add: ControlAckBody_of_def ControlAckBody_bytes_def le_bytes_of_word layout_simps)

lemmas struct_bytes_of = L1Body_bytes_of L2Body_bytes_of TradeBody_bytes_of HbBody_bytes_of
  ControlAckBody_bytes_of

section \<open>Codec lemmas\<close>

lemma wf_mk_frame [simp, intro]: "wf_frame (mk_frame ind b)"
  by (cases b) (simp_all add: wf_frame_def default_header_def)

lemma body_mk_frame [simp]: "body (mk_frame ind b) = b"
  by (cases b) simp_all

lemma body_sealed [simp]: "body (sealed f) = body f"
  by (simp add: sealed_def)

lemma body_len_sealed [simp]: "fh_body_len (header (sealed f)) = fh_body_len (header f)"
  by (simp add: sealed_def)

lemma wf_sealed [simp]: "wf_frame (sealed f) = wf_frame f"
  by (simp add: wf_frame_def sealed_def)

lemma sealed_sealed [simp]: "sealed (sealed f) = sealed f"
  by (simp add: sealed_def)

lemma length_frame_bytes: "length (frame_bytes f) = 16 + length (body_bytes (body f))"
  by (simp add: frame_bytes_def)

lemma frame_bytes_sealed [simp]: "frame_bytes (sealed f) = frame_bytes f"
  by (simp add: frame_bytes_def)

lemma encode_frame_wf: "wf_frame f \<Longrightarrow> encode_frame f buffer = Some (frame_bytes f)"
  by (simp add: encode_frame_def Let_def wf_frame_def memcpy_at_whole_tail memcpy_at_prefix
      frame_bytes_def sealed_def)

lemma encode_frame_overrun:
  "unat (fh_body_len (header f)) < length (body_bytes (body f)) \<Longrightarrow> encode_frame f buffer = None"
  by (simp add: encode_frame_def Let_def memcpy_at_def)

lemma decode_body_roundtrip:
  "decode_body (MessageType_value (body_type b)) (length (body_bytes b)) (body_bytes b) = Some b"
  by (cases b) simp_all

lemma decode_body_Some:
  assumes "decode_body ty n bs = Some b" "length bs = n"
  shows "ty = MessageType_value (body_type b) \<and> body_bytes b = bs"
  using assms by (auto simp: struct_bytes_of split: if_splits)

lemma take_header_frame_bytes: "take 16 (frame_bytes f @ rest) = FrameHeader_bytes (header (sealed f))"
  by (simp add: frame_bytes_def)

lemma decode_frame_bytes: "wf_frame f \<Longrightarrow> decode_frame (frame_bytes f @ rest) = Some (sealed f)"
  using decode_body_roundtrip [of "body f"]
  by (simp add: decode_frame_def Let_def take_header_frame_bytes length_frame_bytes wf_frame_def
      frame_bytes_def sealed_def del: decode_body.simps)

text \<open>Inversion of \<open>decode_frame\<close>: every check of the code, in one place.\<close>

lemma decode_frame_SomeD:
  assumes "decode_frame data = Some f"
  shows "wf_frame f" "sealed f = f" "take (length (frame_bytes f)) data = frame_bytes f"
    "header f = FrameHeader_of (take 16 data)" "fh_crc32 (header f) = crc32 (body_bytes (body f))"
proof -
  let ?h = "FrameHeader_of (take 16 data)" and ?n = "unat (fh_body_len (header f))"
  let ?bs = "take ?n (drop 16 data)"
  from assms have hd: "header f = ?h" and len: "16 + ?n \<le> length data"
    and mv: "fh_magic ?h = 0x4D444146" "fh_version ?h = 1" and crc: "crc32 ?bs = fh_crc32 ?h"
    and db: "decode_body (fh_msg_type ?h) ?n ?bs = Some (body f)"
    by (auto simp: decode_frame_def Let_def split: if_splits option.splits simp del: decode_body.simps)
  have bb: "body_bytes (body f) = ?bs" "fh_msg_type ?h = MessageType_value (body_type (body f))"
    using decode_body_Some [OF db] len by auto
  then show "wf_frame f" using hd mv len by (simp add: wf_frame_def)
  show sf: "sealed f = f" using crc bb hd by (simp add: sealed_def)
  have "FrameHeader_bytes (header f) = take 16 data"
    using hd len by (simp add: FrameHeader_bytes_of)
  then have "frame_bytes f = take 16 data @ ?bs"
    by (simp add: frame_bytes_def sf bb)
  also have "\<dots> = take (16 + ?n) data"
    by (simp add: take_add)
  finally show "take (length (frame_bytes f)) data = frame_bytes f"
    using len by simp
  show "header f = ?h" by (rule hd)
  show "fh_crc32 (header f) = crc32 (body_bytes (body f))" using crc bb hd by simp
qed

text \<open>Two accepted inputs with the same header cannot differ in four consecutive bytes only.\<close>

lemma decode_frame_window:
  assumes f: "decode_frame xs = Some f" and g: "decode_frame ys = Some g"
    and lx: "length xs = length (frame_bytes f)" and ly: "length ys = length (frame_bytes g)"
    and len: "length xs = length ys" and hd: "take 16 xs = take 16 ys"
    and pre: "take i (drop 16 xs) = take i (drop 16 ys)"
    and post: "drop (i + 4) (drop 16 xs) = drop (i + 4) (drop 16 ys)"
  shows "xs = ys"
proof (rule ccontr)
  assume "xs \<noteq> ys"
  then have "drop 16 xs \<noteq> drop 16 ys" using hd by (metis append_take_drop_id)
  then have "crc32 (drop 16 xs) \<noteq> crc32 (drop 16 ys)"
    using crc.detects_at [OF _ pre post] len by simp
  moreover have "drop 16 xs = body_bytes (body f)" "drop 16 ys = body_bytes (body g)"
    using decode_frame_SomeD(3) [OF f] decode_frame_SomeD(3) [OF g] lx ly
    by (simp_all add: frame_bytes_def)
  moreover have "fh_crc32 (header f) = fh_crc32 (header g)"
    using decode_frame_SomeD(4) [OF f] decode_frame_SomeD(4) [OF g] hd by simp
  ultimately show False
    using decode_frame_SomeD(5) [OF f] decode_frame_SomeD(5) [OF g] by simp
qed

section \<open>The contract of a stream of frames\<close>

text \<open>
  The recorder appends encodings back to back and the replayer takes them apart again. What both
  need of a codec: decoding the front of a stream returns the encoded value (in the canonical
  form \<open>canon\<close> that carries the checksum) whatever follows it.
\<close>

locale stream_codec =
  fixes enc :: "'f \<Rightarrow> byte list" and dec :: "byte list \<Rightarrow> 'f option"
    and ok :: "'f \<Rightarrow> bool" and canon :: "'f \<Rightarrow> 'f"
  assumes dec_enc: "ok f \<Longrightarrow> dec (enc f @ rest) = Some (canon f)"
    and enc_canon: "enc (canon f) = enc f"
    and enc_nonempty: "ok f \<Longrightarrow> enc f \<noteq> []"
begin

lemma prefix_free:
  assumes "ok f" "ok g" "enc f @ r = enc g @ s"
  shows "canon f = canon g \<and> r = s"
proof -
  have cc: "canon f = canon g"
    using dec_enc [OF assms(1), of r] dec_enc [OF assms(2), of s] assms(3) by simp
  then have "enc f = enc g" by (metis enc_canon)
  with cc assms(3) show ?thesis by simp
qed

lemma stream_unique:
  "\<lbrakk>\<forall>f \<in> set fs. ok f; \<forall>g \<in> set gs. ok g; concat (map enc fs) = concat (map enc gs)\<rbrakk>
   \<Longrightarrow> map canon fs = map canon gs"
proof (induction fs arbitrary: gs)
  case Nil
  then have "concat (map enc gs) = []" by simp
  then show ?case using Nil.prems(2) enc_nonempty by (cases gs) auto
next
  case (Cons f fs)
  then obtain g gs' where gs: "gs = g # gs'" using enc_nonempty by (cases gs) auto
  with Cons.prems have "canon f = canon g \<and> concat (map enc fs) = concat (map enc gs')"
    by (intro prefix_free) simp_all
  with Cons gs show ?case by simp
qed

end

interpretation codec: stream_codec frame_bytes decode_frame wf_frame sealed
  by unfold_locales (simp_all add: decode_frame_bytes, auto simp: frame_bytes_def dest: arg_cong [where f = length])

section \<open>Properties\<close>

definition example_trade :: TradeBody where
  "example_trade = \<lparr>tr_ts_ns = 1700000000000000000, tr_symbol_id = 3, tr_price = -5,
     tr_size = 1250000000, tr_aggressor_side = 255, tr_seq = 42\<rparr>"

text \<open>
  C1: encoding a frame whose header describes its body, into any buffer, succeeds, and decoding
  the bytes, whatever follows them in the input, gives the frame back with its checksum filled in.
\<close>

theorem encode_decode_roundtrip:
  "wf_frame f \<Longrightarrow> \<exists>bytes. encode_frame f buffer = Some bytes
     \<and> length bytes = 16 + unat (fh_body_len (header f))
     \<and> decode_frame (bytes @ rest) = Some (f\<lparr>header := (header f)\<lparr>fh_crc32 := crc32 (body_bytes (body f))\<rparr>\<rparr>)"
  using decode_frame_bytes [of f rest]
  by (simp add: encode_frame_wf length_frame_bytes wf_frame_def sealed_def)

theorem encode_decode_roundtrip_witness:
  "\<exists>bytes. encode_frame (mk_frame 0 (BTrade example_trade)) [1, 2, 3] = Some bytes \<and> length bytes = 53
     \<and> map_option body (decode_frame (bytes @ [7, 7])) = Some (BTrade example_trade)"
  using encode_decode_roundtrip [OF wf_mk_frame [of 0 "BTrade example_trade"], of "[1, 2, 3]" "[7, 7]"]
  by (auto simp: default_header_def)

text \<open>
  C16: decoding is exact. Whatever \<open>decode_frame\<close> accepts is a frame whose header describes its
  body, and encoding that frame again, into any buffer, reproduces the accepted bytes of the input.
\<close>

theorem decode_encode_exact:
  assumes "decode_frame data = Some f"
  shows "wf_frame f \<and> encode_frame f buffer = Some (take (16 + unat (fh_body_len (header f))) data)"
proof -
  have wf: "wf_frame f" using assms by (rule decode_frame_SomeD)
  then have "length (frame_bytes f) = 16 + unat (fh_body_len (header f))"
    by (simp add: length_frame_bytes wf_frame_def)
  with wf decode_frame_SomeD(3) [OF assms] show ?thesis by (simp add: encode_frame_wf)
qed

theorem decode_encode_exact_witness:
  "\<exists>f. decode_frame (frame_bytes (mk_frame 9 (BTrade example_trade)) @ [1]) = Some f
     \<and> encode_frame f [] = Some (frame_bytes (mk_frame 9 (BTrade example_trade)))"
proof -
  let ?f = "mk_frame 9 (BTrade example_trade)"
  have d: "decode_frame (frame_bytes ?f @ [1]) = Some (sealed ?f)"
    by (rule decode_frame_bytes) (rule wf_mk_frame)
  then show ?thesis
    using decode_encode_exact [OF d, of "[]"]
    by (auto simp: length_frame_bytes default_header_def sealed_def)
qed

text \<open>
  C8: corruption of a frame's body is detected. If the bytes of an encoded frame are damaged inside
  a window of four consecutive bytes behind the header, \<open>decode_frame\<close> rejects the result.
\<close>

theorem decode_rejects_corrupted_body:
  assumes "wf_frame f" and enc: "encode_frame f buffer = Some bytes"
    and len: "length data = length bytes" and "16 \<le> i"
    and pre: "take i data = take i bytes" and post: "drop (i + 4) data = drop (i + 4) bytes"
    and "data \<noteq> bytes"
  shows "decode_frame data = None"
proof (rule ccontr)
  assume "decode_frame data \<noteq> None"
  then obtain g where g: "decode_frame data = Some g" by blast
  have bytes: "bytes = frame_bytes f" using assms(1) enc by (simp add: encode_frame_wf)
  have fd: "decode_frame bytes = Some (sealed f)"
    using decode_frame_bytes [OF assms(1), of "[]"] by (simp add: bytes)
  have th: "take 16 data = take 16 bytes"
    using pre \<open>16 \<le> i\<close> by (metis min.absorb1 take_take)
  then have hd: "header g = header (sealed f)"
    using decode_frame_SomeD(4) [OF g] decode_frame_SomeD(4) [OF fd] by simp
  then have n: "length data = length (frame_bytes g)"
    using len decode_frame_SomeD(1) [OF g] assms(1) by (simp add: bytes length_frame_bytes wf_frame_def)
  have "data = bytes"
  proof (rule decode_frame_window [OF g fd n _ len th])
    show "take (i - 16) (drop 16 data) = take (i - 16) (drop 16 bytes)"
      using pre by (simp add: take_drop \<open>16 \<le> i\<close>)
    show "drop (i - 16 + 4) (drop 16 data) = drop (i - 16 + 4) (drop 16 bytes)"
      using post \<open>16 \<le> i\<close> by (simp add: add.commute add.left_commute)
  qed (simp add: bytes)
  with \<open>data \<noteq> bytes\<close> show False ..
qed

theorem decode_rejects_corrupted_body_witness:
  "decode_frame ((frame_bytes (mk_frame 0 (BHb \<lparr>hb_ts_ns = 7\<rparr>)))[17 := 1]) = None"
proof (rule decode_rejects_corrupted_body [where i = 17])
  show "wf_frame (mk_frame 0 (BHb \<lparr>hb_ts_ns = 7\<rparr>))" by (rule wf_mk_frame)
  then show "encode_frame (mk_frame 0 (BHb \<lparr>hb_ts_ns = 7\<rparr>)) []
      = Some (frame_bytes (mk_frame 0 (BHb \<lparr>hb_ts_ns = 7\<rparr>)))" by (rule encode_frame_wf)
  show "(frame_bytes (mk_frame 0 (BHb \<lparr>hb_ts_ns = 7\<rparr>)))[17 := 1]
      \<noteq> frame_bytes (mk_frame 0 (BHb \<lparr>hb_ts_ns = 7\<rparr>))"
    by (simp add: frame_bytes_def list_update_append HbBody_bytes_def le_bytes_8_eval)
qed simp_all

text \<open>
  A stream of encoded frames is unambiguous: two sequences of frames with the same
  concatenated encodings are the same sequence, up to the value of the checksum fields.
\<close>

theorem frame_stream_unique:
  assumes "\<forall>f \<in> set fs. wf_frame f" "\<forall>g \<in> set gs. wf_frame g"
    and "concat (map (\<lambda>f. the (encode_frame f [])) fs) = concat (map (\<lambda>g. the (encode_frame g [])) gs)"
  shows "map body fs = map body gs"
proof -
  have "concat (map frame_bytes fs) = concat (map frame_bytes gs)"
    using assms by (simp add: encode_frame_wf cong: map_cong)
  then have "map sealed fs = map sealed gs"
    by (rule codec.stream_unique [OF assms(1,2)])
  then have "map (body \<circ> sealed) fs = map (body \<circ> sealed) gs" by (metis map_map)
  then show ?thesis by (simp add: comp_def)
qed

theorem frame_stream_unique_witness:
  "map body [mk_frame 1 (BTrade example_trade)] = map body [mk_frame 2 (BTrade example_trade)]"
proof (rule frame_stream_unique)
  have "sealed (mk_frame 1 (BTrade example_trade)) = sealed (mk_frame 2 (BTrade example_trade))"
    by (simp add: sealed_def default_header_def)
  then have "frame_bytes (mk_frame 1 (BTrade example_trade)) = frame_bytes (mk_frame 2 (BTrade example_trade))"
    by (metis frame_bytes_sealed)
  then show "concat (map (\<lambda>f. the (encode_frame f [])) [mk_frame 1 (BTrade example_trade)])
      = concat (map (\<lambda>g. the (encode_frame g [])) [mk_frame 2 (BTrade example_trade)])"
    by (simp add: encode_frame_wf [OF wf_mk_frame] del: mk_frame.simps)
qed (simp_all del: mk_frame.simps)

end
