(* ===== verification/Float64.thy ===== *)
theory Float64
  imports Complex_Main Prelude "HOL-Library.Log_Nat"
begin

text \<open>
  The part of IEEE-754 \<open>double\<close> arithmetic the sources use. A finite double is the rational number
  it denotes; every arithmetic operation is the exact rational operation followed by \<open>rnd\<close>,
  rounding to 53 significant bits, ties to even, with the subnormal spacing \<open>2^-1074\<close> (NaN and the
  infinities do not occur in the modelled data: a result beyond the largest double would be an
  infinity, and every use of such a result is a conversion that is undefined on both).
  Conversions from double to an integer truncate; out of range they are undefined behaviour,
  the value \<open>None\<close>.
\<close>

section \<open>Rounding\<close>

type_synonym double = rat

definition round_even :: "rat \<Rightarrow> int" where
  "round_even x = (let f = \<lfloor>x\<rfloor>; d = x - of_int f
     in if d < 1/2 then f else if d > 1/2 then f + 1 else if even f then f else f + 1)"

text \<open>\<open>expo x\<close> is the exponent of the leading bit of \<open>x\<close>.\<close>

definition expo :: "rat \<Rightarrow> int" where
  "expo x = (case quotient_of \<bar>x\<bar> of (p, q) \<Rightarrow>
     let e = int (floorlog 2 (nat p)) - int (floorlog 2 (nat q))
     in if 2 powi e \<le> \<bar>x\<bar> then e else e - 1)"

definition ulp_exp :: "rat \<Rightarrow> int" where
  "ulp_exp x = max (expo x - 52) (-1074)"

definition rnd :: "rat \<Rightarrow> double" where
  "rnd x = (if x = 0 then 0 else of_int (round_even (x / 2 powi ulp_exp x)) * 2 powi ulp_exp x)"

definition dadd :: "double \<Rightarrow> double \<Rightarrow> double" where "dadd x y = rnd (x + y)"
definition dsub :: "double \<Rightarrow> double \<Rightarrow> double" where "dsub x y = rnd (x - y)"
definition dmul :: "double \<Rightarrow> double \<Rightarrow> double" where "dmul x y = rnd (x * y)"
definition ddiv :: "double \<Rightarrow> double \<Rightarrow> double" where "ddiv x y = rnd (x / y)"
definition double_of_nat :: "nat \<Rightarrow> double" where "double_of_nat n = rnd (of_nat n)"

definition trunc :: "double \<Rightarrow> int" where
  "trunc x = (if 0 \<le> x then \<lfloor>x\<rfloor> else \<lceil>x\<rceil>)"

definition double_to_i64 :: "double \<Rightarrow> i64 option" where
  "double_to_i64 x = (if - (2 ^ 63) \<le> trunc x \<and> trunc x < 2 ^ 63 then Some (word_of_int (trunc x)) else None)"

definition double_to_u64 :: "double \<Rightarrow> u64 option" where
  "double_to_u64 x = (if 0 \<le> trunc x \<and> trunc x < 2 ^ 64 then Some (word_of_int (trunc x)) else None)"

definition double_to_u32 :: "double \<Rightarrow> u32 option" where
  "double_to_u32 x = (if 0 \<le> trunc x \<and> trunc x < 2 ^ 32 then Some (word_of_int (trunc x)) else None)"

section \<open>Rounding to an integer\<close>

lemma round_even_bounds: "\<bar>of_int (round_even x) - x\<bar> \<le> 1/2"
proof -
  have "of_int \<lfloor>x\<rfloor> \<le> x" "x < of_int \<lfloor>x\<rfloor> + 1" by linarith+
  then show ?thesis by (auto simp: round_even_def Let_def abs_le_iff)
qed

lemma round_even_of_int [simp]: "round_even (of_int k) = k"
  by (simp add: round_even_def)

lemma round_even_mono: "x \<le> y \<Longrightarrow> round_even x \<le> round_even y"
proof (cases "\<lfloor>x\<rfloor> = \<lfloor>y\<rfloor>")
  case True
  moreover assume "x \<le> y"
  ultimately show ?thesis by (auto simp: round_even_def Let_def)
next
  case False
  moreover assume "x \<le> y"
  ultimately have "\<lfloor>x\<rfloor> + 1 \<le> \<lfloor>y\<rfloor>" by (metis floor_mono order_le_imp_less_or_eq zless_imp_add1_zle)
  moreover have "round_even x \<le> \<lfloor>x\<rfloor> + 1" "\<lfloor>y\<rfloor> \<le> round_even y"
    by (auto simp: round_even_def Let_def)
  ultimately show ?thesis by linarith
qed

lemma round_even_minus: "round_even (- x) = - round_even x"
proof (cases "x = of_int \<lfloor>x\<rfloor>")
  case True
  then show ?thesis by (metis of_int_minus round_even_of_int)
next
  case False
  then have "\<lfloor>- x\<rfloor> = - \<lfloor>x\<rfloor> - 1" by linarith
  then show ?thesis by (auto simp: round_even_def Let_def field_simps) (metis even_add even_minus odd_one)+
qed

section \<open>The exponent\<close>

lemma powi_less_iff [simp]: "(2::rat) powi a < 2 powi b \<longleftrightarrow> a < b"
proof
  show "(2::rat) powi a < 2 powi b \<Longrightarrow> a < b"
    using power_int_increasing [of b a "2::rat"] by (cases "a < b") auto
qed (rule power_int_strict_increasing, simp_all)

lemma powi_pos [simp]: "0 < (2::rat) powi a"
  by (simp add: zero_less_power_int)

lemma powi_nat: "0 \<le> a \<Longrightarrow> (2::rat) ^ nat a = 2 powi a"
  by (simp add: power_int_def)

lemma floorlog_powi:
  "0 < p \<Longrightarrow> (2::rat) powi (int (floorlog 2 (nat p)) - 1) \<le> of_int p \<and> (of_int p :: rat) < 2 powi int (floorlog 2 (nat p))"
proof -
  assume "0 < p"
  then have b: "2 ^ (floorlog 2 (nat p) - 1) \<le> nat p" "nat p < 2 ^ floorlog 2 (nat p)" "0 < floorlog 2 (nat p)"
    using floorlog_bounds [of "nat p" 2] floorlog_eq_zero_iff [of 2 "nat p"] by auto
  then have "int (2 ^ (floorlog 2 (nat p) - 1)) \<le> int (nat p)" "int (nat p) < int (2 ^ floorlog 2 (nat p))"
    by (simp_all only: of_nat_le_iff of_nat_less_iff)
  then have "(2::int) ^ (floorlog 2 (nat p) - 1) \<le> p" "p < 2 ^ floorlog 2 (nat p)"
    using \<open>0 < p\<close> by simp_all
  then have "(of_int (2 ^ (floorlog 2 (nat p) - 1)) :: rat) \<le> of_int p" "(of_int p :: rat) < of_int (2 ^ floorlog 2 (nat p))"
    by (simp_all only: of_int_le_iff of_int_less_iff)
  then show ?thesis using b(3) by (simp add: power_int_def nat_diff_distrib)
qed

lemma expo_bounds:
  assumes "x \<noteq> 0"
  shows "2 powi expo x \<le> \<bar>x\<bar> \<and> \<bar>x\<bar> < 2 powi (expo x + 1)"
proof -
  obtain p q where pq: "quotient_of \<bar>x\<bar> = (p, q)" by (cases "quotient_of \<bar>x\<bar>")
  have q: "0 < q" and x: "\<bar>x\<bar> = of_int p / of_int q"
    using quotient_of_denom_pos [OF pq] quotient_of_div [OF pq] by auto
  have p: "0 < p" using assms q x by (metis divide_pos_pos of_int_0_less_iff zero_less_abs_iff
      divide_nonpos_pos linorder_not_less of_int_0 of_int_le_iff)
  let ?a = "int (floorlog 2 (nat p))" and ?b = "int (floorlog 2 (nat q))"
  let ?p = "of_int p :: rat" and ?q = "of_int q :: rat"
  have P: "2 powi (?a - 1) \<le> ?p" "?p < 2 powi ?a" and Q: "2 powi (?b - 1) \<le> ?q" "?q < 2 powi ?b"
    using floorlog_powi [OF p] floorlog_powi [OF q] by auto
  have "?p / ?q < 2 powi ?a / 2 powi (?b - 1)"
    using P(2) Q(1) q p by (intro frac_less) auto
  also have "\<dots> = 2 powi (?a - ?b + 1)"
    by (subst power_int_diff [symmetric]) (simp_all add: algebra_simps)
  finally have upper: "\<bar>x\<bar> < 2 powi (?a - ?b + 1)" by (simp add: x)
  have "2 powi (?a - ?b - 1) = (2 powi (?a - 1) / 2 powi ?b :: rat)"
    by (subst power_int_diff [symmetric]) (simp_all add: algebra_simps)
  also have "\<dots> \<le> ?p / ?q"
    using P(1) Q(2) q p by (intro frac_le) auto
  finally have lower: "2 powi (?a - ?b - 1) \<le> \<bar>x\<bar>" by (simp add: x)
  show ?thesis using upper lower by (auto simp: expo_def pq Let_def not_le)
qed

lemma expo_unique: "2 powi e \<le> \<bar>x\<bar> \<Longrightarrow> \<bar>x\<bar> < 2 powi (e + 1) \<Longrightarrow> expo x = e"
proof -
  assume e: "2 powi e \<le> \<bar>x\<bar>" "\<bar>x\<bar> < 2 powi (e + 1)"
  then have "x \<noteq> 0" by (metis abs_zero not_le zero_less_power_int zero_less_numeral)
  note b = expo_bounds [OF this]
  have "(2::rat) powi e < 2 powi (expo x + 1)" "(2::rat) powi expo x < 2 powi (e + 1)" using e b by linarith+
  then show ?thesis by simp
qed

lemma expo_mono: "x \<noteq> 0 \<Longrightarrow> \<bar>x\<bar> \<le> \<bar>y\<bar> \<Longrightarrow> expo x \<le> expo y"
proof -
  assume a: "x \<noteq> 0" "\<bar>x\<bar> \<le> \<bar>y\<bar>"
  then have "y \<noteq> 0" by auto
  have "(2::rat) powi expo x < 2 powi (expo y + 1)"
    using expo_bounds [OF a(1)] expo_bounds [OF \<open>y \<noteq> 0\<close>] a(2) by linarith
  then show ?thesis by simp
qed

section \<open>Rounding a rational\<close>

lemma rnd_minus: "rnd (- x) = - rnd x"
  by (simp add: rnd_def ulp_exp_def expo_def round_even_minus)

text \<open>The rounding error is at most half a unit in the last place.\<close>

lemma rnd_error: "\<bar>rnd x - x\<bar> \<le> 2 powi ulp_exp x / 2"
proof (cases "x = 0")
  case False
  let ?u = "2 powi ulp_exp x :: rat"
  have u: "0 < ?u" by (simp add: zero_less_power_int)
  have "rnd x - x = (of_int (round_even (x / ?u)) - x / ?u) * ?u"
    using u False by (simp add: rnd_def field_simps)
  then have "\<bar>rnd x - x\<bar> = \<bar>of_int (round_even (x / ?u)) - x / ?u\<bar> * ?u"
    using u by (simp add: abs_mult)
  also have "\<dots> \<le> 1/2 * ?u" using u round_even_bounds [of "x / ?u"] by (intro mult_right_mono) auto
  finally show ?thesis by simp
qed (simp add: rnd_def)

text \<open>A number with at most 53 significant bits is a double and is not rounded.\<close>

lemma rnd_exact:
  assumes "\<bar>m\<bar> \<le> 2 ^ 53" "-1074 \<le> k"
  shows "rnd (of_int m * 2 powi k) = of_int m * 2 powi k"
proof (cases "m = 0")
  case False
  let ?x = "of_int m * 2 powi k :: rat"
  have x0: "?x \<noteq> 0" using False by (simp add: power_int_eq_0_iff)
  have "ulp_exp ?x \<le> k \<or> (\<exists>j::int. ?x / 2 powi ulp_exp ?x = of_int j)"
  proof (cases "\<bar>m\<bar> = 2 ^ 53")
    case True
    then have "?x / 2 powi ulp_exp ?x = (if 0 < m then 1 else -1) * 2 powi (53 + k - ulp_exp ?x)"
      by (auto simp: power_int_diff power_int_add abs_if split: if_splits)
    moreover have "expo ?x = 53 + k"
    proof (rule expo_unique)
      have "\<bar>?x\<bar> = 2 powi (53 + k)"
        using True by (simp add: abs_mult power_int_add zero_less_power_int flip: of_int_abs)
      then show "2 powi (53 + k) \<le> \<bar>?x\<bar>" "\<bar>?x\<bar> < 2 powi (53 + k + 1)"
        by (simp_all add: power_int_add)
    qed
    then have "0 \<le> 53 + k - ulp_exp ?x" using assms(2) by (simp add: ulp_exp_def)
    then have "(2::rat) powi (53 + k - ulp_exp ?x) = of_int (2 ^ nat (53 + k - ulp_exp ?x))"
      by (simp add: power_int_def)
    ultimately show ?thesis by (auto intro!: disjI2 exI [of _ "(if 0 < m then 1 else -1) * 2 ^ nat (53 + k - ulp_exp ?x)"])
  next
    case F: False
    then have "\<bar>m\<bar> < 2 ^ 53" using assms(1) by simp
    then have "\<bar>of_int m :: rat\<bar> < 2 ^ 53" by (metis of_int_abs of_int_less_iff of_int_numeral of_int_power)
    then have "\<bar>?x\<bar> < 2 ^ 53 * 2 powi k" by (simp add: abs_mult zero_less_power_int)
    also have "\<dots> = 2 powi (53 + k)" by (simp add: power_int_add)
    finally have "(2::rat) powi expo ?x < 2 powi (53 + k)" using expo_bounds [OF x0] by linarith
    then have "expo ?x < 53 + k" by simp
    then show ?thesis using assms(2) by (simp add: ulp_exp_def)
  qed
  then obtain j :: int where j: "?x / 2 powi ulp_exp ?x = of_int j"
  proof
    assume "ulp_exp ?x \<le> k"
    then have "?x / 2 powi ulp_exp ?x = of_int (m * 2 ^ nat (k - ulp_exp ?x))"
      by (simp add: powi_nat power_int_diff flip: times_divide_eq_right)
    then show ?thesis by (rule that)
  qed (auto intro: that)
  then have "rnd ?x = of_int j * 2 powi ulp_exp ?x" using x0 by (simp add: rnd_def)
  also have "\<dots> = ?x" using j by (simp add: field_simps)
  finally show ?thesis .
qed (simp add: rnd_def)

text \<open>Rounding never crosses a multiple of the unit in the last place.\<close>

lemma rnd_ge: "of_int j * 2 powi ulp_exp x \<le> x \<Longrightarrow> of_int j * 2 powi ulp_exp x \<le> rnd x"
proof (cases "x = 0")
  case False
  let ?u = "2 powi ulp_exp x :: rat"
  assume "of_int j * ?u \<le> x"
  then have "of_int j \<le> x / ?u" by (simp add: pos_le_divide_eq)
  then have "j \<le> round_even (x / ?u)" using round_even_mono [of "of_int j" "x / ?u"] by simp
  then show ?thesis using False by (simp add: rnd_def)
qed (simp add: rnd_def)

lemma rnd_le: "x \<le> of_int j * 2 powi ulp_exp x \<Longrightarrow> rnd x \<le> of_int j * 2 powi ulp_exp x"
proof (cases "x = 0")
  case False
  let ?u = "2 powi ulp_exp x :: rat"
  assume "x \<le> of_int j * ?u"
  then have "x / ?u \<le> of_int j" by (simp add: pos_divide_le_eq)
  then have "round_even (x / ?u) \<le> j" using round_even_mono [of "x / ?u" "of_int j"] by simp
  then show ?thesis using False by (simp add: rnd_def)
qed (simp add: rnd_def)

lemma rnd_nonneg: "0 \<le> x \<Longrightarrow> 0 \<le> rnd x"
  using rnd_ge [of 0 x] by simp

lemma rnd_mono_pos:
  assumes "0 < x" "x \<le> y"
  shows "rnd x \<le> rnd y"
proof -
  have e: "expo x \<le> expo y" using assms by (intro expo_mono) auto
  show ?thesis
  proof (cases "ulp_exp x = ulp_exp y")
    case True
    have "x / 2 powi ulp_exp x \<le> y / 2 powi ulp_exp x" using assms by (simp add: divide_right_mono)
    then show ?thesis
      using True assms round_even_mono [of "x / 2 powi ulp_exp x" "y / 2 powi ulp_exp y"] by (simp add: rnd_def)
  next
    case False
    let ?E = "expo y"
    have uy: "ulp_exp y = ?E - 52" "ulp_exp x < ulp_exp y" "expo x < ?E"
      using False e by (auto simp: ulp_exp_def max_def split: if_splits)
    have "x < 2 powi (expo x + 1)" "(2::rat) powi (expo x + 1) \<le> 2 powi ?E"
      using expo_bounds [of x] assms(1) uy(3) by (auto intro!: power_int_increasing)
    then have "x \<le> 2 powi ?E" by linarith
    also have "\<dots> = of_int (2 ^ nat (?E - ulp_exp x)) * 2 powi ulp_exp x"
      using uy by (simp add: powi_nat flip: power_int_add)
    finally have "rnd x \<le> of_int (2 ^ nat (?E - ulp_exp x)) * 2 powi ulp_exp x" by (rule rnd_le)
    also have "\<dots> = of_int (2 ^ 52) * 2 powi ulp_exp y"
      using uy by (simp add: powi_nat flip: power_int_add) (simp add: power_int_diff)
    also have "\<dots> \<le> rnd y"
    proof (rule rnd_ge)
      have "of_int (2 ^ 52) * (2::rat) powi ulp_exp y = 2 powi ?E" by (simp add: uy(1) power_int_diff)
      then show "of_int (2 ^ 52) * 2 powi ulp_exp y \<le> y" using expo_bounds [of y] assms by simp
    qed
    finally show ?thesis .
  qed
qed

lemma rnd_mono: "x \<le> y \<Longrightarrow> rnd x \<le> rnd y"
proof -
  assume xy: "x \<le> y"
  consider "0 < x" | "x \<le> 0" "0 \<le> y" | "y < 0" by linarith
  then show ?thesis
  proof cases
    case 1
    then show ?thesis using xy by (rule rnd_mono_pos)
  next
    case 2
    then show ?thesis using rnd_nonneg [of y] rnd_nonneg [of "- x"] by (simp add: rnd_minus)
  next
    case 3
    then show ?thesis using rnd_mono_pos [of "- y" "- x"] xy by (simp add: rnd_minus)
  qed
qed

lemma rnd_of_int: "\<bar>m\<bar> \<le> 2 ^ 53 \<Longrightarrow> rnd (of_int m) = of_int m"
  using rnd_exact [of m 0] by simp

lemma double_of_nat_exact: "n \<le> 2 ^ 53 \<Longrightarrow> double_of_nat n = of_nat n"
  using rnd_of_int [of "int n"] by (simp add: double_of_nat_def)

lemma trunc_mono: "x \<le> y \<Longrightarrow> trunc x \<le> trunc y"
proof (cases "x < 0 \<and> 0 \<le> y")
  case True
  then have "\<lceil>x\<rceil> \<le> 0" "0 \<le> \<lfloor>y\<rfloor>" by (simp_all add: ceiling_le_iff)
  then have "\<lceil>x\<rceil> \<le> \<lfloor>y\<rfloor>" by linarith
  with True show ?thesis by (simp add: trunc_def)
qed (auto simp: trunc_def floor_mono ceiling_mono)

lemma trunc_of_int [simp]: "trunc (of_int k) = k"
  by (simp add: trunc_def)

lemma sint_i64: "- (2 ^ 63) \<le> k \<Longrightarrow> k < 2 ^ 63 \<Longrightarrow> sint (word_of_int k :: i64) = k"
  by (simp add: int_word_sint)

lemma double_to_i64_SomeD: "double_to_i64 x = Some w \<Longrightarrow> sint w = trunc x"
  using sint_i64 [of "trunc x"] by (auto simp: double_to_i64_def split: if_splits)

lemma double_to_i64_mono:
  "double_to_i64 x = Some a \<Longrightarrow> double_to_i64 y = Some b \<Longrightarrow> x \<le> y \<Longrightarrow> sint a \<le> sint b"
  by (simp add: double_to_i64_SomeD trunc_mono)

text \<open>The relative error of a result that is not subnormal.\<close>

lemma rnd_relative: "1 \<le> y \<Longrightarrow> rnd y \<le> y * (1 + 1 / 2 ^ 53)"
proof -
  assume y: "1 \<le> y"
  then have b: "2 powi expo y \<le> y" "y < 2 powi (expo y + 1)" using expo_bounds [of y] by auto
  have "(2::rat) powi 0 < 2 powi (expo y + 1)" using y b(2) by simp
  then have "0 < expo y + 1" unfolding powi_less_iff .
  then have "2 powi ulp_exp y / 2 = (2 powi expo y / 2 ^ 53 :: rat)"
    by (simp add: ulp_exp_def power_int_diff)
  also have "\<dots> \<le> y / 2 ^ 53" using b(1) by (intro divide_right_mono) auto
  finally have "\<bar>rnd y - y\<bar> \<le> y / 2 ^ 53" using rnd_error [of y] by linarith
  then have "rnd y \<le> y + y / 2 ^ 53" by linarith
  then show ?thesis by (simp add: ring_distribs)
qed

end
