(* ===== verification/Metrics.thy ===== *)
theory Metrics
  imports Float64
begin

text \<open>
  \<open>LatencyHistogram\<close> and \<open>MetricsCollector\<close> of \<open>src/common/metrics.cpp\<close>. All access to a histogram
  goes through the collector's mutex, so its operations are sequential and the
  compare-and-exchange loop on the maximum is one update. Counters and bucket counts are 64-bit
  and wrap; gauges are doubles. An empty bucket vector makes \<open>buckets_.back()\<close> undefined
  behaviour, the value \<open>None\<close>.
\<close>

section \<open>Histogram\<close>

record LatencyHistogram =
  buckets :: "u64 list"
  counts :: "u64 list"
  total_count :: u64
  max_value :: u64

definition new_histogram :: "u64 list \<Rightarrow> LatencyHistogram" where
  "new_histogram bs = \<lparr>buckets = bs, counts = replicate (length bs + 1) 0, total_count = 0, max_value = 0\<rparr>"

text \<open>The search loop of \<open>record\<close>: the first index whose bound is not exceeded.\<close>

fun find_bucket :: "u64 \<Rightarrow> u64 list \<Rightarrow> nat \<Rightarrow> nat option" where
  "find_bucket latency [] i = None"
| "find_bucket latency (b # bs) i = (if latency \<le> b then Some i else find_bucket latency bs (Suc i))"

definition bucket_index :: "u64 list \<Rightarrow> u64 \<Rightarrow> nat option" where
  "bucket_index bs latency =
     (let idx = (case find_bucket latency bs 0 of None \<Rightarrow> 0 | Some i \<Rightarrow> i)
      in if idx = 0
         then (if bs = [] then None
               else if latency > last bs then Some (length bs) else Some idx)
         else Some idx)"

definition hist_record :: "LatencyHistogram \<Rightarrow> u64 \<Rightarrow> LatencyHistogram option" where
  "hist_record h latency =
     (let h1 = h\<lparr>total_count := total_count h + 1,
                 max_value := (if latency > max_value h then latency else max_value h)\<rparr>
      in case bucket_index (buckets h) latency of
           None \<Rightarrow> None
         | Some i \<Rightarrow> Some (h1\<lparr>counts := (counts h)[i := counts h ! i + 1]\<rparr>))"

definition hist_reset :: "LatencyHistogram \<Rightarrow> LatencyHistogram" where
  "hist_reset h = h\<lparr>total_count := 0, max_value := 0, counts := replicate (length (counts h)) 0\<rparr>"

record Percentiles =
  p50 :: u64
  p95 :: u64
  p99 :: u64
  p999 :: u64
  pmax :: u64
  pcount :: u64

fun cumulate :: "u64 \<Rightarrow> u64 list \<Rightarrow> u64 list" where
  "cumulate acc [] = []"
| "cumulate acc (c # cs) = (acc + c) # cumulate (acc + c) cs"

definition percentile_target :: "u64 \<Rightarrow> double \<Rightarrow> u64 option" where
  "percentile_target tot p = double_to_u64 (ddiv (dmul (double_of_nat (unat tot)) p) 100)"

fun percentile_scan :: "u64 list \<Rightarrow> u64 \<Rightarrow> u64 \<Rightarrow> u64 list \<Rightarrow> nat \<Rightarrow> u64" where
  "percentile_scan bs mx target [] i = mx"
| "percentile_scan bs mx target (c # cs) i =
     (if target \<le> c then (if i < length bs then bs ! i else mx)
      else percentile_scan bs mx target cs (Suc i))"

definition find_percentile :: "LatencyHistogram \<Rightarrow> double \<Rightarrow> u64 option" where
  "find_percentile h p =
     map_option (\<lambda>t. percentile_scan (buckets h) (max_value h) t (cumulate 0 (counts h)) 0)
       (percentile_target (total_count h) p)"

definition get_percentiles :: "LatencyHistogram \<Rightarrow> Percentiles option" where
  "get_percentiles h =
     (if total_count h = 0
      then Some \<lparr>p50 = 0, p95 = 0, p99 = 0, p999 = 0, pmax = 0, pcount = 0\<rparr>
      else case (find_percentile h 50, find_percentile h 95, find_percentile h 99,
                 find_percentile h (rnd (999/10))) of
             (Some a, Some b, Some c, Some d) \<Rightarrow>
               Some \<lparr>p50 = a, p95 = b, p99 = c, p999 = d, pmax = max_value h, pcount = total_count h\<rparr>
           | _ \<Rightarrow> None)"

section \<open>Collector\<close>

record MetricsCollector =
  counters :: "string \<rightharpoonup> u64"
  gauges :: "string \<rightharpoonup> double"
  histograms :: "string \<rightharpoonup> LatencyHistogram"

definition no_metrics :: MetricsCollector where
  "no_metrics = \<lparr>counters = Map.empty, gauges = Map.empty, histograms = Map.empty\<rparr>"

definition default_buckets :: "u64 list" where
  "default_buckets = [100000, 500000, 1000000, 2000000, 5000000, 10000000, 50000000]"

definition get_counter :: "MetricsCollector \<Rightarrow> string \<Rightarrow> u64" where
  "get_counter m name = (case counters m name of None \<Rightarrow> 0 | Some c \<Rightarrow> c)"

definition increment_counter :: "string \<Rightarrow> u64 \<Rightarrow> MetricsCollector \<Rightarrow> MetricsCollector" where
  "increment_counter name delta m =
     m\<lparr>counters := (counters m)(name \<mapsto> (case counters m name of None \<Rightarrow> 0 | Some c \<Rightarrow> c) + delta)\<rparr>"

definition set_gauge :: "string \<Rightarrow> double \<Rightarrow> MetricsCollector \<Rightarrow> MetricsCollector" where
  "set_gauge name v m = m\<lparr>gauges := (gauges m)(name \<mapsto> v)\<rparr>"

definition get_gauge :: "MetricsCollector \<Rightarrow> string \<Rightarrow> double" where
  "get_gauge m name = (case gauges m name of None \<Rightarrow> 0 | Some v \<Rightarrow> v)"

definition record_latency :: "string \<Rightarrow> u64 \<Rightarrow> MetricsCollector \<Rightarrow> MetricsCollector option" where
  "record_latency name latency m =
     (let h = (case histograms m name of None \<Rightarrow> new_histogram default_buckets | Some h \<Rightarrow> h)
      in map_option (\<lambda>h'. m\<lparr>histograms := (histograms m)(name \<mapsto> h')\<rparr>) (hist_record h latency))"

definition get_latency_percentiles :: "MetricsCollector \<Rightarrow> string \<Rightarrow> Percentiles option" where
  "get_latency_percentiles m name =
     (case histograms m name of
        Some h \<Rightarrow> get_percentiles h
      | None \<Rightarrow> Some \<lparr>p50 = 0, p95 = 0, p99 = 0, p999 = 0, pmax = 0, pcount = 0\<rparr>)"

text \<open>The destructor of \<open>LatencyTimer\<close>: nothing when cancelled, otherwise the elapsed time.\<close>

record LatencyTimer =
  metric_name :: string
  start_ns :: u64
  cancelled :: bool

definition timer_destroy :: "LatencyTimer \<Rightarrow> u64 \<Rightarrow> MetricsCollector \<Rightarrow> MetricsCollector option" where
  "timer_destroy t now m = (if cancelled t then Some m else record_latency (metric_name t) (now - start_ns t) m)"

section \<open>Reference: a histogram of a list of samples\<close>

definition ref_bucket :: "u64 list \<Rightarrow> u64 \<Rightarrow> nat" where
  "ref_bucket bs x = length (takeWhile (\<lambda>b. b < x) bs)"

definition hist_abs :: "u64 list \<Rightarrow> u64 list \<Rightarrow> LatencyHistogram" where
  "hist_abs bs xs = \<lparr>buckets = bs,
     counts = map (\<lambda>i. word_of_nat (length (filter (\<lambda>x. ref_bucket bs x = i) xs))) [0..<length bs + 1],
     total_count = word_of_nat (length xs), max_value = fold max xs 0\<rparr>"

fun record_all :: "LatencyHistogram \<Rightarrow> u64 list \<Rightarrow> LatencyHistogram option" where
  "record_all h [] = Some h"
| "record_all h (x # xs) = (case hist_record h x of None \<Rightarrow> None | Some h' \<Rightarrow> record_all h' xs)"

section \<open>Lemmas\<close>

lemma find_bucket_eq:
  "find_bucket x bs i = (if ref_bucket bs x < length bs then Some (i + ref_bucket bs x) else None)"
  by (induction bs arbitrary: i) (auto simp: ref_bucket_def not_le)

lemma ref_bucket_le: "ref_bucket bs x \<le> length bs"
  by (simp add: ref_bucket_def length_takeWhile_le)

lemma ref_bucket_full: "ref_bucket bs x = length bs \<longleftrightarrow> (\<forall>b \<in> set bs. b < x)"
  by (metis ref_bucket_def takeWhile_eq_all_conv length_takeWhile_le takeWhile_eq_take take_all order_refl)

lemma bucket_index_sorted:
  assumes "sorted bs" "bs \<noteq> []"
  shows "bucket_index bs x = Some (ref_bucket bs x)"
proof -
  have last: "ref_bucket bs x = length bs \<longleftrightarrow> last bs < x"
    using assms(2) sorted_le_last [OF assms(1)] unfolding ref_bucket_full
    by (blast intro: order_le_less_trans last_in_set)
  show ?thesis
  proof (cases "last bs < x")
    case True
    with last have "ref_bucket bs x = length bs" by simp
    with True assms(2) show ?thesis by (simp add: bucket_index_def find_bucket_eq Let_def)
  next
    case False
    with last ref_bucket_le [of bs x] have "ref_bucket bs x < length bs" by simp
    with False assms(2) show ?thesis by (simp add: bucket_index_def find_bucket_eq Let_def)
  qed
qed

lemma fold_max_snoc: "fold max (xs @ [x]) m = max x (fold max xs m)"
  by simp

lemma hist_record_abs:
  assumes "sorted bs" "bs \<noteq> []"
  shows "hist_record (hist_abs bs xs) x = Some (hist_abs bs (xs @ [x]))"
proof -
  let ?c = "\<lambda>xs i. word_of_nat (length (filter (\<lambda>x. ref_bucket bs x = i) xs)) :: u64"
  let ?k = "ref_bucket bs x" and ?n = "length bs + 1"
  have k: "?k < ?n" using ref_bucket_le [of bs x] by simp
  have "(map (?c xs) [0..<?n])[?k := map (?c xs) [0..<?n] ! ?k + 1] = map (?c (xs @ [x])) [0..<?n]"
    using k by (intro nth_equalityI) (auto simp: nth_list_update simp del: upt_Suc)
  then show ?thesis
    by (auto simp: hist_record_def hist_abs_def bucket_index_sorted [OF assms] Let_def max_def
        simp del: upt_Suc)
qed

lemma record_all_abs:
  "sorted bs \<Longrightarrow> bs \<noteq> [] \<Longrightarrow> record_all (hist_abs bs xs) ys = Some (hist_abs bs (xs @ ys))"
  by (induction ys arbitrary: xs) (simp_all add: hist_record_abs)

lemma new_histogram_abs: "new_histogram bs = hist_abs bs []"
  by (simp add: new_histogram_def hist_abs_def map_replicate_const del: upt_Suc)

subsection \<open>Percentile targets are always defined\<close>

lemma dmul_le: "0 \<le> x \<Longrightarrow> x * y \<le> z \<Longrightarrow> rnd z = z \<Longrightarrow> dmul x y \<le> z"
  using rnd_mono [of "x * y" z] by (simp add: dmul_def)

lemma double_of_nat_bounds: "n < 18446744073709551616 \<Longrightarrow> 0 \<le> double_of_nat n \<and> double_of_nat n \<le> 2 ^ 64"
proof -
  assume "n < 18446744073709551616"
  then have "of_nat n \<le> (2 ^ 64 :: rat)" by simp
  moreover have "rnd (2 ^ 64) = 2 ^ 64" using rnd_exact [of 1 64] by simp
  ultimately have "double_of_nat n \<le> 2 ^ 64"
    using rnd_mono [of "of_nat n" "2 ^ 64"] by (simp add: double_of_nat_def)
  then show ?thesis by (simp add: double_of_nat_def rnd_nonneg)
qed

lemma percentile_product_bound:
  assumes "0 \<le> p" "p \<le> 25575/256"
  shows "0 \<le> ddiv (dmul (double_of_nat (unat w)) p) 100 \<and> ddiv (dmul (double_of_nat (unat (w :: u64))) p) 100 \<le> 1023 * 2 ^ 54"
proof -
  let ?t = "double_of_nat (unat w)"
  have t: "0 \<le> ?t" "?t \<le> 2 ^ 64" using double_of_nat_bounds [OF unat_u64_less] by blast+
  have e: "rnd (25575 * 2 ^ 56) = 25575 * 2 ^ 56" "rnd (1023 * 2 ^ 54) = 1023 * 2 ^ 54"
    using rnd_exact [of 25575 56] rnd_exact [of 1023 54] by simp_all
  have "?t * p \<le> 2 ^ 64 * (25575/256)" using t assms by (intro mult_mono) auto
  then have "dmul ?t p \<le> 25575 * 2 ^ 56" using t e(1) by (intro dmul_le) simp_all
  then have "dmul ?t p / 100 \<le> 1023 * 2 ^ 54" by simp
  then have "ddiv (dmul ?t p) 100 \<le> 1023 * 2 ^ 54" using rnd_mono e(2) unfolding ddiv_def by metis
  moreover have "0 \<le> dmul ?t p" using t assms rnd_nonneg by (simp add: dmul_def)
  then have "0 \<le> ddiv (dmul ?t p) 100" by (simp add: ddiv_def rnd_nonneg)
  ultimately show ?thesis by blast
qed

lemma percentile_target_Some:
  assumes "0 \<le> p" "p \<le> 25575/256"
  shows "\<exists>t. percentile_target w p = Some t \<and> int (unat t) = trunc (ddiv (dmul (double_of_nat (unat w)) p) 100)"
proof -
  let ?d = "ddiv (dmul (double_of_nat (unat w)) p) 100"
  have "trunc 0 \<le> trunc ?d" "trunc ?d \<le> trunc (of_int (1023 * 2 ^ 54))"
    using percentile_product_bound [OF assms, of w] by (auto intro!: trunc_mono)
  then have "0 \<le> trunc ?d" "trunc ?d < 2 ^ 64" by (simp_all only: trunc_of_int) (simp_all add: trunc_def)
  then show ?thesis
    by (simp add: percentile_target_def double_to_u64_def unsigned_of_int take_bit_int_eq_self)
qed

lemma p999_literal: "99 \<le> rnd (999/10) \<and> rnd (999/10) \<le> 25575/256"
proof -
  have "rnd (25575/256) = 25575/256" "rnd 99 = 99"
    using rnd_exact [of 25575 "-8"] rnd_of_int [of 99] by (simp_all add: power_int_def power_divide)
  then show ?thesis using rnd_mono [of "999/10" "25575/256"] rnd_mono [of 99 "999/10"] by simp
qed

lemma percentile_target_mono:
  assumes "0 \<le> p" "p \<le> q" "q \<le> 25575/256" "percentile_target w p = Some t" "percentile_target w q = Some u"
  shows "t \<le> u"
proof -
  let ?w = "double_of_nat (unat w)"
  have "?w * p \<le> ?w * q"
    using assms(2) double_of_nat_bounds [OF unat_u64_less] by (intro mult_left_mono) blast+
  then have "ddiv (dmul ?w p) 100 \<le> ddiv (dmul ?w q) 100"
    unfolding ddiv_def dmul_def by (intro rnd_mono divide_right_mono) (simp_all add: rnd_mono)
  then have "trunc (ddiv (dmul ?w p) 100) \<le> trunc (ddiv (dmul ?w q) 100)" by (rule trunc_mono)
  moreover have "int (unat t) = trunc (ddiv (dmul ?w p) 100)" "int (unat u) = trunc (ddiv (dmul ?w q) 100)"
    using percentile_target_Some [of p w] percentile_target_Some [of q w] assms by auto
  ultimately have "unat t \<le> unat u" by linarith
  then show ?thesis by (simp add: word_le_nat_alt)
qed

subsection \<open>The scan over the cumulative counts\<close>

lemma percentile_scan_eq:
  "percentile_scan bs mx t cs i =
     (let k = length (takeWhile (\<lambda>c. c < t) cs)
      in if k < length cs \<and> i + k < length bs then bs ! (i + k) else mx)"
  by (induction cs arbitrary: i) (auto simp: Let_def not_le)

lemma cumulate_nth: "i < length cs \<Longrightarrow> cumulate acc cs ! i = acc + sum_list (take (Suc i) cs)"
  by (induction cs arbitrary: acc i) (auto simp: nth_Cons add.assoc split: nat.split)

lemma length_cumulate [simp]: "length (cumulate acc cs) = length cs"
  by (induction cs arbitrary: acc) auto

lemma sum_list_counts:
  "sum_list (map (\<lambda>i. word_of_nat (length (filter (\<lambda>x. f x = i) xs)) :: u64) [0..<n])
   = word_of_nat (length (filter (\<lambda>x. f x < n) xs))"
proof (induction n)
  case (Suc n)
  have "length (filter (\<lambda>x. f x < Suc n) xs) = length (filter (\<lambda>x. f x < n) xs) + length (filter (\<lambda>x. f x = n) xs)"
    by (induction xs) (auto simp: less_Suc_eq)
  then show ?case using Suc by simp
qed simp

lemma cumulate_hist_abs:
  assumes "i \<le> length bs"
  shows "cumulate 0 (counts (hist_abs bs xs)) ! i = word_of_nat (length (filter (\<lambda>x. ref_bucket bs x \<le> i) xs))"
proof -
  have "take (Suc i) [0..<length bs + 1] = [0..<Suc i]" using assms by (simp add: take_upt del: upt_Suc)
  then show ?thesis
    using assms sum_list_counts [of "ref_bucket bs" xs "Suc i"]
    by (simp add: hist_abs_def cumulate_nth take_map less_Suc_eq_le del: upt_Suc)
qed

text \<open>Up to \<open>2^53\<close> samples the target never exceeds the number of samples.\<close>

lemma percentile_target_le:
  assumes n: "unat w = n" "0 < n" "n \<le> 2 ^ 53" and p: "1 \<le> p" "p \<le> 25575/256"
    and t: "percentile_target w p = Some t"
  shows "unat t \<le> n"
proof -
  let ?n = "of_nat n :: rat"
  have n1: "1 \<le> ?n" using n(2) by simp
  have dn: "double_of_nat (unat w) = ?n" using n by (simp add: double_of_nat_exact)
  have "1 * 1 \<le> ?n * p" using n1 p by (intro mult_mono) auto
  moreover have "?n * p \<le> ?n * (25575/256)" using n1 p by (intro mult_left_mono) auto
  ultimately have np: "1 \<le> ?n * p" "?n * p \<le> ?n * (25575/256)" by simp_all
  have "dmul ?n p \<le> ?n * p * (1 + 1 / 2 ^ 53)" using rnd_relative [OF np(1)] by (simp add: dmul_def)
  also have "\<dots> \<le> ?n * (25575/256) * (1 + 1 / 2 ^ 53)" using np(2) by (intro mult_right_mono) auto
  also have "\<dots> \<le> ?n * 100" using n1 by simp
  finally have "dmul ?n p / 100 \<le> ?n" by simp
  then have "ddiv (dmul ?n p) 100 \<le> rnd ?n" unfolding ddiv_def by (rule rnd_mono)
  also have "\<dots> = of_int (int n)" using dn n by (simp add: double_of_nat_def)
  finally have "trunc (ddiv (dmul ?n p) 100) \<le> int n" using trunc_mono by (metis trunc_of_int)
  moreover have "int (unat t) = trunc (ddiv (dmul ?n p) 100)"
    using percentile_target_Some [of p w] p t dn by auto
  ultimately show ?thesis by linarith
qed

lemma fold_max_ge: "x \<in> set xs \<or> x \<le> m \<Longrightarrow> x \<le> fold max xs (m :: u64)"
proof (induction xs arbitrary: m)
  case (Cons y ys)
  then have "x \<in> set ys \<or> x \<le> max y m" by (auto simp: le_max_iff_disj)
  then show ?case using Cons.IH by simp
qed simp

lemma ref_bucket_bound: "sorted bs \<Longrightarrow> ref_bucket bs x \<le> i \<Longrightarrow> i < length bs \<Longrightarrow> x \<le> bs ! i"
proof -
  assume a: "sorted bs" "ref_bucket bs x \<le> i" "i < length bs"
  then have k: "ref_bucket bs x < length bs" by simp
  then have "\<not> bs ! ref_bucket bs x < x"
    using nth_length_takeWhile [of "\<lambda>b. b < x" bs] by (simp add: ref_bucket_def)
  then show ?thesis using sorted_nth_mono [OF a(1,2,3)] by simp
qed

text \<open>The index at which the scan stops, and what the samples below it are.\<close>

definition scan_stop :: "u64 list \<Rightarrow> u64 list \<Rightarrow> u64 \<Rightarrow> nat" where
  "scan_stop bs xs t = length (takeWhile (\<lambda>c. c < t) (cumulate 0 (counts (hist_abs bs xs))))"

lemma length_counts_abs [simp]: "length (counts (hist_abs bs xs)) = length bs + 1"
  by (simp add: hist_abs_def del: upt_Suc)

lemma scan_below:
  assumes "i < scan_stop bs xs t" "length xs < 2 ^ 64" "i \<le> length bs"
  shows "length (filter (\<lambda>x. ref_bucket bs x \<le> i) xs) < unat t"
proof -
  let ?c = "cumulate 0 (counts (hist_abs bs xs))"
  have "takeWhile (\<lambda>c. c < t) ?c ! i = ?c ! i"
    using assms(1) by (simp add: scan_stop_def takeWhile_nth)
  moreover have "takeWhile (\<lambda>c. c < t) ?c ! i \<in> set (takeWhile (\<lambda>c. c < t) ?c)"
    using assms(1) by (intro nth_mem) (simp add: scan_stop_def)
  ultimately have "?c ! i < t" using set_takeWhileD by metis
  then have "unat (word_of_nat (length (filter (\<lambda>x. ref_bucket bs x \<le> i) xs)) :: u64) < unat t"
    using assms(3) by (simp add: cumulate_hist_abs word_less_nat_alt)
  moreover have "length (filter (\<lambda>x. ref_bucket bs x \<le> i) xs) < 2 ^ 64"
    using assms(2) by (rule order_le_less_trans [OF length_filter_le])
  ultimately show ?thesis by (simp add: unat_of_nat)
qed

lemma scan_overflow:
  assumes "length bs \<le> scan_stop bs xs t" "bs \<noteq> []" "length xs < 2 ^ 64" "unat t \<le> length xs"
  shows "last bs \<le> fold max xs 0"
proof -
  let ?i = "length bs - 1"
  have "length (filter (\<lambda>x. ref_bucket bs x \<le> ?i) xs) < length xs"
    using scan_below [of ?i bs xs t] assms by (cases bs) auto
  then obtain x where x: "x \<in> set xs" "\<not> ref_bucket bs x \<le> ?i"
    by (metis filter_True less_irrefl)
  then have "ref_bucket bs x = length bs" using ref_bucket_le [of bs x] by simp
  then have "last bs < x" using assms(2) by (simp add: ref_bucket_full)
  moreover have "x \<le> fold max xs 0" using x(1) by (intro fold_max_ge) simp
  ultimately show ?thesis by simp
qed

lemma percentile_scan_mono:
  assumes s: "sorted bs" "bs \<noteq> []" and len: "length xs < 2 ^ 64" and tu: "t \<le> u" "unat u \<le> length xs"
  shows "percentile_scan bs (fold max xs 0) t (cumulate 0 (counts (hist_abs bs xs))) 0
    \<le> percentile_scan bs (fold max xs 0) u (cumulate 0 (counts (hist_abs bs xs))) 0"
proof -
  let ?mx = "fold max xs 0" and ?k = "scan_stop bs xs t" and ?l = "scan_stop bs xs u"
  have scan: "percentile_scan bs ?mx v (cumulate 0 (counts (hist_abs bs xs))) 0
      = (if scan_stop bs xs v < length bs then bs ! scan_stop bs xs v else ?mx)" for v
    by (auto simp: percentile_scan_eq Let_def scan_stop_def)
  have kl: "?k \<le> ?l" unfolding scan_stop_def
    by (rule length_takeWhile_mono) (use tu(1) in simp)
  have "bs ! ?k \<le> last bs" if "?k < length bs" using that by (intro sorted_le_last [OF s(1)]) simp
  then show ?thesis
    using kl s sorted_nth_mono [OF s(1) kl] scan_overflow [OF _ s(2) len tu(2)]
    by (auto simp: scan not_less intro: order_trans)
qed

text \<open>The samples at or below the reported value are at least as many as the target asks for.\<close>

lemma percentile_scan_sound:
  assumes s: "sorted bs" "bs \<noteq> []" and len: "length xs < 2 ^ 64" and t: "unat t \<le> length xs"
  shows "unat t \<le> length (filter (\<lambda>x. x \<le> percentile_scan bs (fold max xs 0) t (cumulate 0 (counts (hist_abs bs xs))) 0) xs)"
proof (cases "scan_stop bs xs t < length bs")
  case True
  let ?k = "scan_stop bs xs t" and ?c = "cumulate 0 (counts (hist_abs bs xs))"
  have "\<not> ?c ! ?k < t"
    using True nth_length_takeWhile [of "\<lambda>c. c < t" ?c] by (simp add: scan_stop_def)
  then have "unat t \<le> unat (word_of_nat (length (filter (\<lambda>x. ref_bucket bs x \<le> ?k) xs)) :: u64)"
    using True by (simp add: cumulate_hist_abs word_le_nat_alt not_less)
  also have "\<dots> \<le> length (filter (\<lambda>x. ref_bucket bs x \<le> ?k) xs)" by (simp add: unat_of_nat)
  also have "\<dots> \<le> length (filter (\<lambda>x. x \<le> bs ! ?k) xs)"
    by (rule length_filter_mono) (rule ref_bucket_bound [OF s(1) _ True])
  finally show ?thesis using True by (simp add: percentile_scan_eq scan_stop_def Let_def)
next
  case False
  then have "percentile_scan bs (fold max xs 0) t (cumulate 0 (counts (hist_abs bs xs))) 0 = fold max xs 0"
    by (simp add: percentile_scan_eq scan_stop_def Let_def)
  moreover have "filter (\<lambda>x. x \<le> fold max xs 0) xs = xs"
    by (rule filter_True) (simp add: fold_max_ge)
  ultimately show ?thesis using t by simp
qed

lemma get_percentiles_abs:
  assumes "xs \<noteq> []" "length xs \<le> 2 ^ 53"
  obtains a b c d where
    "percentile_target (total_count (hist_abs bs xs)) 50 = Some a" "percentile_target (total_count (hist_abs bs xs)) 95 = Some b"
    "percentile_target (total_count (hist_abs bs xs)) 99 = Some c" "percentile_target (total_count (hist_abs bs xs)) (rnd (999/10)) = Some d"
    "a \<le> b" "b \<le> c" "c \<le> d" "unat d \<le> length xs" "unat (total_count (hist_abs bs xs)) = length xs"
proof -
  let ?w = "total_count (hist_abs bs xs)"
  have w: "unat ?w = length xs" using assms(2) by (simp add: hist_abs_def unat_of_nat)
  note T = percentile_target_Some [of 50 ?w] percentile_target_Some [of 95 ?w] percentile_target_Some [of 99 ?w]
    percentile_target_Some [of "rnd (999/10)" ?w]
  obtain a b c d where e: "percentile_target ?w 50 = Some a" "percentile_target ?w 95 = Some b"
    "percentile_target ?w 99 = Some c" "percentile_target ?w (rnd (999/10)) = Some d"
    using T p999_literal by auto
  have "a \<le> b" "b \<le> c" "c \<le> d"
    using percentile_target_mono [of 50 95 ?w a b] percentile_target_mono [of 95 99 ?w b c]
      percentile_target_mono [of 99 "rnd (999/10)" ?w c d] e p999_literal by auto
  moreover have "unat d \<le> length xs"
    using percentile_target_le [OF w _ assms(2) _ _ e(4)] assms(1) p999_literal by auto
  ultimately show ?thesis using that e w by blast
qed

lemma percentiles_ordered:
  assumes "sorted bs" "bs \<noteq> []" "xs \<noteq> []" "length xs \<le> 2 ^ 53"
  shows "\<exists>P t. get_percentiles (hist_abs bs xs) = Some P \<and> p50 P \<le> p95 P \<and> p95 P \<le> p99 P \<and> p99 P \<le> p999 P
    \<and> pmax P = fold max xs 0 \<and> unat (pcount P) = length xs
    \<and> percentile_target (pcount P) (rnd (999/10)) = Some t
    \<and> unat t \<le> length (filter (\<lambda>x. x \<le> p999 P) xs)"
proof -
  let ?h = "hist_abs bs xs"
  let ?scan = "\<lambda>t. percentile_scan bs (fold max xs 0) t (cumulate 0 (counts ?h)) 0"
  obtain a b c d where T: "percentile_target (total_count ?h) 50 = Some a" "percentile_target (total_count ?h) 95 = Some b"
    "percentile_target (total_count ?h) 99 = Some c" "percentile_target (total_count ?h) (rnd (999/10)) = Some d"
    and o: "a \<le> b" "b \<le> c" "c \<le> d" "unat d \<le> length xs" and w: "unat (total_count ?h) = length xs"
    by (rule get_percentiles_abs [OF assms(3,4)])
  have len: "length xs < 2 ^ 64" using assms(4) by simp
  have cs: "unat b \<le> length xs" "unat c \<le> length xs" using o by (auto simp: word_le_nat_alt)
  have nz: "total_count ?h \<noteq> 0" using w assms(3) by auto
  have sel: "buckets ?h = bs" "max_value ?h = fold max xs 0" by (simp_all add: hist_abs_def)
  have "get_percentiles ?h = Some \<lparr>p50 = ?scan a, p95 = ?scan b, p99 = ?scan c, p999 = ?scan d,
      pmax = fold max xs 0, pcount = total_count ?h\<rparr>"
    using nz by (simp add: get_percentiles_def find_percentile_def T sel)
  moreover have "?scan a \<le> ?scan b" "?scan b \<le> ?scan c" "?scan c \<le> ?scan d"
    using percentile_scan_mono [OF assms(1,2) len] o cs by auto
  moreover note percentile_scan_sound [OF assms(1,2) len o(4)] T(4) w
  ultimately show ?thesis by auto
qed

text \<open>With one sample every target below 100% is truncated to 0.\<close>

lemma percentile_target_one:
  assumes "0 \<le> p" "p \<le> 25575/256"
  shows "percentile_target 1 p = Some 0"
proof -
  have e: "rnd (25575/256) = 25575/256" "rnd (1023/1024) = 1023/1024" "double_of_nat 1 = 1"
    using rnd_exact [of 25575 "-8"] rnd_exact [of 1023 "-10"] double_of_nat_exact [of 1]
    by (simp_all add: power_int_def power_divide)
  have "dmul 1 p \<le> 25575/256" using rnd_mono [OF assms(2)] e(1) by (simp add: dmul_def)
  then have "dmul 1 p / 100 \<le> 1023/1024" by simp
  then have "ddiv (dmul 1 p) 100 \<le> 1023/1024" using rnd_mono e(2) unfolding ddiv_def by metis
  moreover have "0 \<le> ddiv (dmul 1 p) 100" using assms(1) by (simp add: ddiv_def dmul_def rnd_nonneg)
  ultimately have "trunc (ddiv (dmul 1 p) 100) = 0" by (simp add: trunc_def floor_eq_iff)
  then show ?thesis by (simp add: percentile_target_def double_to_u64_def e(3) [simplified])
qed

section \<open>Metrics never block\<close>

definition metrics_ok :: "MetricsCollector \<Rightarrow> bool" where
  "metrics_ok m \<longleftrightarrow> (\<forall>n h. histograms m n = Some h \<longrightarrow> buckets h \<noteq> [])"

lemma metrics_ok_helpers [simp]:
  "metrics_ok (increment_counter n d m) = metrics_ok m" "metrics_ok (set_gauge n v m) = metrics_ok m"
  by (simp_all add: metrics_ok_def increment_counter_def set_gauge_def)

lemma metrics_ok_none: "metrics_ok no_metrics"
  by (simp add: metrics_ok_def no_metrics_def)

lemma hist_record_returns: "buckets h \<noteq> [] \<Longrightarrow> \<exists>h'. hist_record h x = Some h' \<and> buckets h' = buckets h"
  by (auto simp: hist_record_def bucket_index_def Let_def split: option.splits)

lemma record_latency_returns: "metrics_ok m \<Longrightarrow> \<exists>m'. record_latency n x m = Some m' \<and> metrics_ok m'"
proof -
  assume m: "metrics_ok m"
  let ?h = "case histograms m n of None \<Rightarrow> new_histogram default_buckets | Some h \<Rightarrow> h"
  have "buckets ?h \<noteq> []"
    using m by (cases "histograms m n") (auto simp: metrics_ok_def new_histogram_def default_buckets_def)
  from hist_record_returns [OF this, of x] show ?thesis
    using m \<open>buckets ?h \<noteq> []\<close> by (auto simp: record_latency_def Let_def metrics_ok_def)
qed

section \<open>Properties\<close>

text \<open>
  C19: recording a sequence of latencies into a fresh histogram with sorted, non-empty bounds
  gives exactly the histogram of the sequence: every latency is counted in the first bucket whose
  bound is not below it (the overflow bucket when there is none), with the number of samples and
  the largest sample.
\<close>

theorem histogram_refines:
  "sorted bs \<Longrightarrow> bs \<noteq> [] \<Longrightarrow> record_all (new_histogram bs) xs = Some (hist_abs bs xs)"
  using record_all_abs [of bs "[]" xs] by (simp add: new_histogram_abs)

theorem histogram_refines_witness:
  "map_option counts (record_all (new_histogram [10, 20]) [5, 10, 15, 99]) = Some [2, 1, 1]"
  using histogram_refines [of "[10, 20]" "[5, 10, 15, 99]"]
  by (simp add: hist_abs_def ref_bucket_def upt_rec)



text \<open>
  With few samples the reported percentiles fall below every sample. One latency of 40 ms in a
  histogram with the default bounds gives a \<open>p50\<close>, \<open>p95\<close>, \<open>p99\<close> and \<open>p999\<close> of 0.1 ms: each target
  is truncated to 0 and the scan stops at the first, empty bucket.
\<close>

theorem percentile_underreports:
  "\<exists>P. map_option get_percentiles (record_all (new_histogram default_buckets) [40000000]) = Some (Some P)
     \<and> p50 P = 100000 \<and> p95 P = 100000 \<and> p99 P = 100000 \<and> p999 P = 100000 \<and> pmax P = 40000000"
proof -
  let ?h = "hist_abs default_buckets [40000000]"
  have r: "record_all (new_histogram default_buckets) [40000000] = Some ?h"
    by (rule record_all_abs [of default_buckets "[]", folded new_histogram_abs, simplified])
      (simp_all add: default_buckets_def)
  have t: "percentile_target (total_count ?h) p = Some 0" if "0 \<le> p" "p \<le> 25575/256" for p
    using percentile_target_one [OF that] by (simp add: hist_abs_def)
  have s: "find_percentile ?h p = Some 100000" if "0 \<le> p" "p \<le> 25575/256" for p
    using t [OF that] by (simp add: find_percentile_def hist_abs_def default_buckets_def upt_rec)
  have "total_count ?h = 1" "max_value ?h = 40000000" by (simp_all add: hist_abs_def)
  then show ?thesis
    using p999_literal unfolding r by (simp add: get_percentiles_def s)
qed

end
