(* ===== verification/Backpressure.thy ===== *)
theory Backpressure
  imports Metrics
begin

text \<open>
  \<open>QueueBackpressureController\<close> of \<open>src/common/backpressure.hpp\<close>, the hysteresis gate every
  producer passes before it enqueues. The controller is a record; the process-wide state it
  touches is the metrics collector and the counter of active queues (\<open>bp_env\<close>). The depth of the
  queue changes under the waiting producer, so each call of \<open>queue_depth_fn\<close> and each load of
  \<open>running\<close> is an input: \<open>wait_for_capacity\<close> takes the first depth and, for every round of the
  waiting loop, the value of \<open>running\<close> and the depth sampled after the sleep. A call that is still
  waiting when these inputs end has the value \<open>None\<close>.
\<close>

section \<open>The code\<close>

record QueueBackpressureController =
  queue_name :: string
  high_watermark :: u32
  low_watermark :: u32
  active :: bool

record bp_env =
  metrics :: MetricsCollector
  active_queue_count :: u64

definition bp_metric_name :: "QueueBackpressureController \<Rightarrow> string \<Rightarrow> string" where
  "bp_metric_name c suffix = ''queue_'' @ queue_name c @ ''_'' @ suffix"

definition bp_gauge :: "string \<Rightarrow> double \<Rightarrow> bp_env \<Rightarrow> bp_env" where
  "bp_gauge name v env = env\<lparr>metrics := set_gauge name v (metrics env)\<rparr>"

definition bp_count :: "string \<Rightarrow> bp_env \<Rightarrow> bp_env" where
  "bp_count name env = env\<lparr>metrics := increment_counter name 1 (metrics env)\<rparr>"

definition new_controller :: "string \<Rightarrow> u32 \<Rightarrow> u32 \<Rightarrow> bp_env \<Rightarrow> QueueBackpressureController \<times> bp_env" where
  "new_controller name high low env =
     (let high' = (if high = 0 then 1 else high);
          low' = (if low \<ge> high' then high' - 1 else low);
          c = \<lparr>queue_name = name, high_watermark = high', low_watermark = low', active = False\<rparr>
      in (c, bp_gauge (bp_metric_name c ''backpressure_active'') 0
               (bp_gauge (bp_metric_name c ''queue_depth'') 0 env)))"

text \<open>The comparisons of a \<open>size_t\<close> depth with the 32-bit watermarks.\<close>

definition below_high :: "QueueBackpressureController \<Rightarrow> nat \<Rightarrow> bool" where
  "below_high c depth \<longleftrightarrow> depth < unat (high_watermark c)"

definition above_low :: "QueueBackpressureController \<Rightarrow> nat \<Rightarrow> bool" where
  "above_low c depth \<longleftrightarrow> depth > unat (low_watermark c)"

text \<open>The first critical section and the effects of an activation.\<close>

definition bp_activate ::
  "QueueBackpressureController \<times> bp_env \<Rightarrow> QueueBackpressureController \<times> bp_env" where
  "bp_activate = (\<lambda>(c, env).
     if \<not> active c
     then (c\<lparr>active := True\<rparr>,
           bp_gauge ''backpressure_active'' 1
             (bp_gauge (bp_metric_name c ''backpressure_active'') 1
               ((bp_count ''producer_pauses'' (bp_count (bp_metric_name c ''producer_pauses'') env))
                  \<lparr>active_queue_count := active_queue_count env + 1\<rparr>)))
     else (c, env))"

text \<open>The waiting loop: the depth at which it ends.\<close>

fun wait_loop ::
  "QueueBackpressureController \<Rightarrow> nat \<Rightarrow> (bool \<times> nat) list \<Rightarrow> bp_env \<Rightarrow> (nat \<times> bp_env) option" where
  "wait_loop c depth [] env = (if above_low c depth then None else Some (depth, env))"
| "wait_loop c depth ((running, depth') # rest) env =
     (if above_low c depth
      then (if \<not> running then Some (depth, env)
            else wait_loop c depth' rest
                   (bp_gauge (bp_metric_name c ''queue_depth'') (double_of_nat depth') env))
      else Some (depth, env))"

text \<open>The second critical section and the effects of a release.\<close>

definition bp_release ::
  "nat \<Rightarrow> QueueBackpressureController \<times> bp_env \<Rightarrow> QueueBackpressureController \<times> bp_env" where
  "bp_release depth = (\<lambda>(c, env).
     if active c \<and> \<not> above_low c depth
     then let remaining_active = active_queue_count env
          in (c\<lparr>active := False\<rparr>,
              bp_gauge ''backpressure_active'' (if remaining_active > 1 then 1 else 0)
                (bp_gauge (bp_metric_name c ''backpressure_active'') 0
                  ((bp_count ''producer_resume_count''
                     (bp_count (bp_metric_name c ''producer_resume_count'') env))
                     \<lparr>active_queue_count := remaining_active - 1\<rparr>)))
     else (c, env))"

definition wait_for_capacity ::
  "nat \<Rightarrow> (bool \<times> nat) list \<Rightarrow> QueueBackpressureController \<times> bp_env
   \<Rightarrow> (nat \<times> QueueBackpressureController \<times> bp_env) option" where
  "wait_for_capacity depth rounds = (\<lambda>(c, env).
     let env1 = bp_gauge ''queue_depth'' (double_of_nat depth)
                  (bp_gauge (bp_metric_name c ''queue_depth'') (double_of_nat depth) env)
     in if below_high c depth then Some (depth, c, env1)
        else let (c2, env2) = bp_activate (c, env1)
        in case wait_loop c2 depth rounds env2 of
             None \<Rightarrow> None
           | Some (d, env3) \<Rightarrow> Some (d, bp_release d (c2, env3)))"

section \<open>Producers and a consumer around one queue\<close>

text \<open>
  Any number of producers share a controller and a queue: a producer samples the depth, is
  \<open>Cleared\<close> to enqueue or \<open>Waiting\<close>, and enqueues one element when cleared; the consumer dequeues at
  any time. The stop flag lets waiting producers through (\<open>running\<close> false).
\<close>

datatype phase = Outside | Waiting | Cleared

record gate_sys =
  depth :: nat
  phase_of :: "nat \<Rightarrow> phase"
  gate_running :: bool

inductive gate_step :: "QueueBackpressureController \<Rightarrow> nat \<Rightarrow> gate_sys \<Rightarrow> gate_sys \<Rightarrow> bool"
  for c :: QueueBackpressureController and n :: nat where
  pass: "p < n \<Longrightarrow> phase_of s p = Outside \<Longrightarrow> below_high c (depth s) \<Longrightarrow>
     gate_step c n s (s\<lparr>phase_of := (phase_of s)(p := Cleared)\<rparr>)"
| block: "p < n \<Longrightarrow> phase_of s p = Outside \<Longrightarrow> \<not> below_high c (depth s) \<Longrightarrow>
     gate_step c n s (s\<lparr>phase_of := (phase_of s)(p := Waiting)\<rparr>)"
| resume: "p < n \<Longrightarrow> phase_of s p = Waiting \<Longrightarrow> \<not> above_low c (depth s) \<Longrightarrow>
     gate_step c n s (s\<lparr>phase_of := (phase_of s)(p := Cleared)\<rparr>)"
| abandon: "p < n \<Longrightarrow> phase_of s p = Waiting \<Longrightarrow> \<not> gate_running s \<Longrightarrow>
     gate_step c n s (s\<lparr>phase_of := (phase_of s)(p := Cleared)\<rparr>)"
| enqueue: "p < n \<Longrightarrow> phase_of s p = Cleared \<Longrightarrow>
     gate_step c n s (s\<lparr>depth := depth s + 1, phase_of := (phase_of s)(p := Outside)\<rparr>)"
| dequeue: "0 < depth s \<Longrightarrow> gate_step c n s (s\<lparr>depth := depth s - 1\<rparr>)"
| stop: "gate_step c n s (s\<lparr>gate_running := False\<rparr>)"

inductive gate_reachable :: "QueueBackpressureController \<Rightarrow> nat \<Rightarrow> gate_sys \<Rightarrow> bool"
  for c :: QueueBackpressureController and n :: nat where
  start: "gate_reachable c n \<lparr>depth = 0, phase_of = (\<lambda>_. Outside), gate_running = True\<rparr>"
| step: "gate_reachable c n s \<Longrightarrow> gate_step c n s t \<Longrightarrow> gate_reachable c n t"

definition cleared :: "nat \<Rightarrow> gate_sys \<Rightarrow> nat set" where
  "cleared n s = {p. p < n \<and> phase_of s p = Cleared}"

definition gate_inv :: "QueueBackpressureController \<Rightarrow> nat \<Rightarrow> gate_sys \<Rightarrow> bool" where
  "gate_inv c n s \<longleftrightarrow> (gate_running s \<longrightarrow> depth s + card (cleared n s) < unat (high_watermark c) + n)"

section \<open>Controller lemmas\<close>

definition bp_ok :: "QueueBackpressureController \<Rightarrow> bool" where
  "bp_ok c \<longleftrightarrow> 0 < high_watermark c \<and> low_watermark c < high_watermark c"

text \<open>The pause counter is ahead of the resume counter by one exactly while the gate is active.\<close>

definition bp_balanced :: "QueueBackpressureController \<Rightarrow> bp_env \<Rightarrow> bool" where
  "bp_balanced c env \<longleftrightarrow>
     get_counter (metrics env) (bp_metric_name c ''producer_pauses'')
     = get_counter (metrics env) (bp_metric_name c ''producer_resume_count'') + (if active c then 1 else 0)"

lemma get_counter_gauge [simp]: "get_counter (metrics (bp_gauge g v env)) name = get_counter (metrics env) name"
  by (simp add: bp_gauge_def set_gauge_def get_counter_def)

lemma get_counter_count:
  "get_counter (metrics (bp_count n env)) name = get_counter (metrics env) name + (if name = n then 1 else 0)"
  by (simp add: bp_count_def increment_counter_def get_counter_def)

lemma bp_gauge_active_count [simp]: "active_queue_count (bp_gauge g v env) = active_queue_count env"
  by (simp add: bp_gauge_def)

lemma bp_count_active_count [simp]: "active_queue_count (bp_count n env) = active_queue_count env"
  by (simp add: bp_count_def)

lemma metrics_active_count [simp]: "metrics (env\<lparr>active_queue_count := k\<rparr>) = metrics env"
  by simp

lemma bp_metric_name_update [simp]: "bp_metric_name (c\<lparr>active := b\<rparr>) s = bp_metric_name c s"
  by (simp add: bp_metric_name_def)

lemma bp_metric_name_inj [simp]: "bp_metric_name c s = bp_metric_name c s' \<longleftrightarrow> s = s'"
  by (simp add: bp_metric_name_def)

lemma bp_metric_name_global [simp]:
  "bp_metric_name c s \<noteq> ''producer_pauses''" "bp_metric_name c s \<noteq> ''producer_resume_count''"
  by (simp_all add: bp_metric_name_def)

lemma watermarks_update [simp]:
  "below_high (c\<lparr>active := b\<rparr>) = below_high c" "above_low (c\<lparr>active := b\<rparr>) = above_low c"
  by (auto simp: below_high_def above_low_def fun_eq_iff)

lemma new_controller_ok: "bp_ok (fst (new_controller name high low env))"
proof -
  have "high \<noteq> 0 \<Longrightarrow> high - 1 < high" by (simp add: word_less_nat_alt unat_minus_one unat_gt_0)
  then show ?thesis by (auto simp: new_controller_def bp_ok_def Let_def word_gt_0 not_le)
qed

lemma below_high_if_not_above_low: "bp_ok c \<Longrightarrow> \<not> above_low c d \<Longrightarrow> below_high c d"
  by (auto simp: bp_ok_def above_low_def below_high_def word_less_nat_alt)

lemma wait_loop_result:
  "wait_loop c d rounds env = Some (d', env') \<Longrightarrow> \<not> above_low c d' \<or> (\<exists>(r, _) \<in> set rounds. \<not> r)"
  by (induction c d rounds env rule: wait_loop.induct) (auto split: if_splits)

lemma wait_loop_env:
  "wait_loop c d rounds env = Some (d', env') \<Longrightarrow>
     active_queue_count env' = active_queue_count env
     \<and> (\<forall>name. get_counter (metrics env') name = get_counter (metrics env) name)"
  by (induction c d rounds env rule: wait_loop.induct) (auto split: if_splits)

text \<open>The loop ends as soon as a sampled depth reaches the low watermark or the stop flag is seen.\<close>

lemma wait_loop_returns:
  "\<not> above_low c d \<or> (\<exists>(r, d') \<in> set rounds. \<not> r \<or> \<not> above_low c d') \<Longrightarrow> \<exists>x. wait_loop c d rounds env = Some x"
  by (induction c d rounds env rule: wait_loop.induct) auto

lemma bp_activate_balanced:
  "bp_balanced c env \<Longrightarrow> bp_activate (c, env) = (c', env') \<Longrightarrow> bp_balanced c' env' \<and> active c'"
  by (auto simp: bp_activate_def bp_balanced_def get_counter_count split: if_splits)

lemma bp_release_balanced:
  "bp_balanced c env \<Longrightarrow> bp_release d (c, env) = (c', env') \<Longrightarrow> bp_balanced c' env'"
  by (auto simp: bp_release_def bp_balanced_def get_counter_count Let_def split: if_splits)

lemma cleared_update:
  "p < n \<Longrightarrow> cleared n (s\<lparr>phase_of := (phase_of s)(p := Cleared)\<rparr>) = insert p (cleared n s)"
  by (auto simp: cleared_def)

lemma finite_cleared [simp]: "finite (cleared n s)"
  by (simp add: cleared_def)

lemma card_cleared: "card (cleared n s) \<le> n"
  using card_mono [of "{..<n}" "cleared n s"] by (auto simp: cleared_def)

section \<open>The contract of the gate\<close>

text \<open>
  What a stage of the pipeline relies on when it calls \<open>wait_for_capacity\<close> before each enqueue:
  the watermarks of its controller are in order. Everything else about the queue follows.
\<close>

locale watermark_gate =
  fixes c :: QueueBackpressureController
  assumes ok: "bp_ok c"
begin

lemma wait_returns_low:
  assumes "wait_for_capacity d rounds (c, env) = Some (d', c', env')" "\<forall>(r, _) \<in> set rounds. r"
  shows "below_high c d'"
proof (cases "below_high c d")
  case False
  then obtain c2 env2 env3 where "wait_loop c2 d rounds env2 = Some (d', env3)" "above_low c2 = above_low c"
    using assms(1) by (auto simp: wait_for_capacity_def bp_activate_def Let_def split: if_splits option.splits)
  then have "\<not> above_low c d'" using wait_loop_result [of c2 d rounds env2] assms(2) by auto
  then show ?thesis using ok by (simp add: below_high_if_not_above_low)
qed (use assms in \<open>auto simp: wait_for_capacity_def Let_def\<close>)

lemma gate_inv_step: "gate_step c n s t \<Longrightarrow> gate_inv c n s \<Longrightarrow> gate_inv c n t"
proof (induction rule: gate_step.induct)
  case (pass p s)
  then have "depth s < unat (high_watermark c)" by (simp add: below_high_def)
  then show ?case using card_cleared [of n "s\<lparr>phase_of := (phase_of s)(p := Cleared)\<rparr>"] by (simp add: gate_inv_def)
next
  case (resume p s)
  then have "depth s < unat (high_watermark c)"
    using below_high_if_not_above_low [OF ok] by (simp add: below_high_def)
  then show ?case using card_cleared [of n "s\<lparr>phase_of := (phase_of s)(p := Cleared)\<rparr>"] by (simp add: gate_inv_def)
next
  case (enqueue p s)
  have "cleared n (s\<lparr>depth := depth s + 1, phase_of := (phase_of s)(p := Outside)\<rparr>) = cleared n s - {p}"
    by (auto simp: cleared_def)
  moreover have "p \<in> cleared n s" using enqueue by (simp add: cleared_def)
  then have "0 < card (cleared n s)" by (auto simp: card_gt_0_iff)
  ultimately show ?case using enqueue \<open>p \<in> cleared n s\<close> by (auto simp: gate_inv_def)
next
  case (block p s)
  have "cleared n (s\<lparr>phase_of := (phase_of s)(p := Waiting)\<rparr>) \<subseteq> cleared n s"
    by (auto simp: cleared_def split: if_splits)
  then have "card (cleared n (s\<lparr>phase_of := (phase_of s)(p := Waiting)\<rparr>)) \<le> card (cleared n s)"
    by (rule card_mono [OF finite_cleared])
  then show ?case using block by (auto simp: gate_inv_def)
next
  case (dequeue s)
  have "cleared n (s\<lparr>depth := depth s - 1\<rparr>) = cleared n s" by (simp add: cleared_def)
  then show ?case using dequeue by (auto simp: gate_inv_def)
qed (auto simp: gate_inv_def cleared_def)

lemma gate_reachable_inv: "gate_reachable c n s \<Longrightarrow> gate_inv c n s"
proof (induction rule: gate_reachable.induct)
  case start
  have "0 < unat (high_watermark c)" using ok by (simp add: bp_ok_def word_less_nat_alt)
  then show ?case by (simp add: gate_inv_def cleared_def)
next
  case (step s t)
  then show ?case by (blast intro: gate_inv_step)
qed

lemma gate_bound: "gate_reachable c n s \<Longrightarrow> gate_running s \<Longrightarrow> depth s < unat (high_watermark c) + n"
  using gate_reachable_inv [of n s] by (simp add: gate_inv_def)

end

text \<open>Every controller the program builds, whatever its configuration, satisfies the contract.\<close>

interpretation built: watermark_gate "fst (new_controller name high low env)" for name high low env
  by unfold_locales (rule new_controller_ok)

section \<open>Properties\<close>

definition bp_env0 :: bp_env where
  "bp_env0 = \<lparr>metrics = no_metrics, active_queue_count = 0\<rparr>"

text \<open>
  Whatever watermarks are configured, the constructed controller has a positive high watermark
  and a low watermark strictly below it, and it keeps configured values that already satisfy this.
\<close>

theorem new_controller_watermarks:
  assumes "new_controller name high low env = (c, env')"
  shows "0 < high_watermark c \<and> low_watermark c < high_watermark c \<and> \<not> active c
    \<and> (high \<noteq> 0 \<longrightarrow> high_watermark c = high) \<and> (low < high \<longrightarrow> low_watermark c = low)"
  using assms new_controller_ok [of name high low env]
  by (auto simp: new_controller_def bp_ok_def Let_def word_gt_0)

theorem new_controller_watermarks_witness:
  "high_watermark (fst (new_controller ''q'' 0 60000 bp_env0)) = 1 \<and> low_watermark (fst (new_controller ''q'' 0 60000 bp_env0)) = 0
   \<and> 0 < high_watermark (fst (new_controller ''q'' 0 60000 bp_env0))"
  using new_controller_watermarks [of "''q''" 0 60000 bp_env0] by (simp add: new_controller_def Let_def)





text \<open>
  C22: \<open>wait_for_capacity\<close> returns as soon as the consumer has drained the queue to the low watermark
  at one of the samples, or the stop flag is seen: no such call waits for ever.
\<close>

theorem wait_for_capacity_returns:
  assumes "\<exists>(r, d') \<in> set rounds. \<not> r \<or> \<not> above_low c d'"
  shows "\<exists>d' c' env'. wait_for_capacity d rounds (c, env) = Some (d', c', env')"
proof -
  obtain c2 env2 where a: "bp_activate (c, bp_gauge ''queue_depth'' (double_of_nat d)
      (bp_gauge (bp_metric_name c ''queue_depth'') (double_of_nat d) env)) = (c2, env2)" by fastforce
  then have "above_low c2 = above_low c" by (auto simp: bp_activate_def split: if_splits)
  then obtain x where "wait_loop c2 d rounds env2 = Some x" using wait_loop_returns [of c2 d rounds env2] assms by auto
  then show ?thesis using a by (cases x) (auto simp: wait_for_capacity_def Let_def)
qed

theorem wait_for_capacity_returns_witness:
  "\<exists>d' c' env'. wait_for_capacity 100 [(True, 90), (True, 3)] (fst (new_controller ''q'' 8 3 bp_env0), bp_env0) = Some (d', c', env')"
  by (rule wait_for_capacity_returns) (simp add: above_low_def new_controller_def Let_def)

text \<open>
  A wait that the stop flag ends leaves the gate active: the controller still counts as an active
  queue, its gauge still reads 1, and a later call that finds room does not clear it.
\<close>

theorem stopped_wait_stays_active:
  assumes "\<not> below_high c d" "above_low c d" "below_high c d2"
    and "wait_for_capacity d ((False, d1) # rounds) (c, env) = Some (d', c', env')"
    and "wait_for_capacity d2 rounds2 (c', env') = Some (d3, c'', env'')"
  shows "active c'' \<and> active_queue_count env'' = active_queue_count env + (if active c then 0 else 1)"
  using assms by (auto simp: wait_for_capacity_def Let_def bp_activate_def bp_release_def split: if_splits)

theorem stopped_wait_stays_active_witness:
  "\<exists>c'' env'' d3. active c'' \<and> active_queue_count env'' = 1
     \<and> (\<exists>d' c' env'. wait_for_capacity 9 [(False, 0)] (fst (new_controller ''q'' 8 3 bp_env0), bp_env0) = Some (d', c', env')
          \<and> wait_for_capacity 0 [] (c', env') = Some (d3, c'', env''))"
proof -
  let ?c = "fst (new_controller ''q'' 8 3 bp_env0)"
  have wm: "\<not> below_high ?c 9" "above_low ?c 9" "below_high ?c 0"
    by (simp_all add: below_high_def above_low_def new_controller_def Let_def)
  obtain d' c' env' where w: "wait_for_capacity 9 [(False, 0)] (?c, bp_env0) = Some (d', c', env')"
    and low: "below_high c' 0"
    by (simp add: wait_for_capacity_def new_controller_def Let_def below_high_def above_low_def bp_activate_def bp_release_def)
  obtain d3 c'' env'' where w2: "wait_for_capacity 0 [] (c', env') = Some (d3, c'', env'')"
    using low by (simp add: wait_for_capacity_def Let_def)
  have "active c'' \<and> active_queue_count env'' = active_queue_count bp_env0 + (if active ?c then 0 else 1)"
    by (rule stopped_wait_stays_active [OF wm w w2])
  then show ?thesis using w w2 by (fastforce simp: bp_env0_def new_controller_def Let_def)
qed

end
