(* ===== verification/Json.thy ===== *)
theory Json
  imports Float64 "HOL-Library.List_Lexorder" "HOL-Library.Char_ord"
begin

text \<open>
  JSON values as the sources use them through \<open>nlohmann::json\<close>. Parser and serialiser have theories of
  their own; the components that use them take them as arguments. Here are the accessors: \<open>contains\<close>, \<open>operator[]\<close>,
  \<open>value(key, default)\<close> and the implicit conversions. \<open>None\<close> is a thrown exception (a \<open>type_error\<close>),
  and the conversion of a float that the target integer type cannot represent, which C++ leaves
  undefined.
\<close>

datatype Json =
  JNull
| JBool bool
| JInt int
| JFloat double
| JString string
| JArray "Json list"
| JObject "(string \<times> Json) list"

text \<open>What the parser throws: \<open>parse_error\<close>, or \<open>out_of_range\<close> for a number that is too large.\<close>

datatype json_error = ParseError | OutOfRange

definition parsed :: "json_error + Json \<Rightarrow> Json option" where
  "parsed r = (case r of Inl e \<Rightarrow> None | Inr j \<Rightarrow> Some j)"

text \<open>An object is a \<open>std::map\<close>: \<open>operator[]\<close> and an assignment keep the members in the order of their keys.\<close>

fun map_insert :: "string \<Rightarrow> Json \<Rightarrow> (string \<times> Json) list \<Rightarrow> (string \<times> Json) list" where
  "map_insert k v [] = [(k, v)]"
| "map_insert k v ((k1, v1) # m) =
     (if k < k1 then (k, v) # (k1, v1) # m else if k = k1 then (k, v) # m else (k1, v1) # map_insert k v m)"

fun json_find :: "Json \<Rightarrow> string \<Rightarrow> Json option" where
  "json_find (JObject m) k = map_of m k"
| "json_find _ k = None"

definition json_contains :: "Json \<Rightarrow> string \<Rightarrow> bool" where
  "json_contains j k \<longleftrightarrow> json_find j k \<noteq> None"

fun is_object :: "Json \<Rightarrow> bool" where
  "is_object (JObject m) = True"
| "is_object _ = False"

fun is_number :: "Json \<Rightarrow> bool" where
  "is_number (JInt i) = True"
| "is_number (JFloat x) = True"
| "is_number _ = False"

text \<open>The parser stores a number without sign and fraction as unsigned.\<close>

fun is_number_unsigned :: "Json \<Rightarrow> bool" where
  "is_number_unsigned (JInt i) = (0 \<le> i)"
| "is_number_unsigned _ = False"

text \<open>\<open>operator[](key) = v\<close>: null becomes an object, other values throw.\<close>

fun json_set :: "string \<Rightarrow> Json \<Rightarrow> Json \<Rightarrow> Json option" where
  "json_set k v (JObject m) = Some (JObject (map_insert k v m))"
| "json_set k v JNull = Some (JObject [(k, v)])"
| "json_set k v _ = None"

section \<open>Conversions\<close>

fun get_string :: "Json \<Rightarrow> string option" where
  "get_string (JString s) = Some s"
| "get_string _ = None"

fun get_bool :: "Json \<Rightarrow> bool option" where
  "get_bool (JBool b) = Some b"
| "get_bool _ = None"

text \<open>
  \<open>uint16_t\<close> and \<open>uint32_t\<close> are converted from any number and from booleans, \<open>uint64_t\<close> and \<open>double\<close>
  (types the library stores itself) from numbers only; integers are reduced modulo the width.
\<close>

definition float_to_word :: "double \<Rightarrow> 'a::len word option" where
  "float_to_word x = (if 0 \<le> trunc x \<and> trunc x < 2 ^ LENGTH('a) then Some (word_of_int (trunc x)) else None)"

fun get_small_uint :: "Json \<Rightarrow> 'a::len word option" where
  "get_small_uint (JInt i) = Some (word_of_int i)"
| "get_small_uint (JFloat x) = float_to_word x"
| "get_small_uint (JBool b) = Some (if b then 1 else 0)"
| "get_small_uint _ = None"

fun get_u64 :: "Json \<Rightarrow> u64 option" where
  "get_u64 (JInt i) = Some (word_of_int i)"
| "get_u64 (JFloat x) = float_to_word x"
| "get_u64 _ = None"

fun get_double :: "Json \<Rightarrow> double option" where
  "get_double (JInt i) = Some (rnd (of_int i))"
| "get_double (JFloat x) = Some x"
| "get_double _ = None"

fun option_list :: "'a option list \<Rightarrow> 'a list option" where
  "option_list [] = Some []"
| "option_list (x # xs) = (case x of None \<Rightarrow> None | Some y \<Rightarrow> map_option ((#) y) (option_list xs))"

fun get_strings :: "Json \<Rightarrow> string list option" where
  "get_strings (JArray xs) = option_list (map get_string xs)"
| "get_strings _ = None"

text \<open>\<open>value(key, default)\<close> with the conversion \<open>get\<close>: the receiver has to be an object.\<close>

definition json_value :: "(Json \<Rightarrow> 'v option) \<Rightarrow> Json \<Rightarrow> string \<Rightarrow> 'v \<Rightarrow> 'v option" where
  "json_value get j k def_val =
     (if \<not> is_object j then None else (case json_find j k of None \<Rightarrow> Some def_val | Some v \<Rightarrow> get v))"

lemma option_list_map_Some [simp]: "option_list (map Some xs) = Some xs"
  by (induction xs) simp_all

lemma get_strings_strings [simp]: "get_strings (JArray (map JString xs)) = Some xs"
  by (simp add: comp_def)

end
