(* ===== verification/Topic_Match.thy ===== *)
theory Topic_Match
  imports Prelude
begin

text \<open>
  \<open>TopicSubscription\<close> and \<open>PubServer::matches_topic\<close>: a pattern with a \<open>*\<close> is turned into an
  ECMAScript regular expression by replacing each \<open>*\<close> by \<open>.*\<close> and matched as a whole. The
  expressions that arise from literals, dots and stars are interpreted here; what \<open>std::regex\<close> does
  with a pattern that contains other special characters (including throwing \<open>regex_error\<close>) is the
  argument \<open>rx\<close>.
\<close>

section \<open>The code\<close>

fun star_to_regex :: "string \<Rightarrow> string" where
  "star_to_regex [] = []"
| "star_to_regex (c # cs) = (if c = CHR ''*'' then ''.*'' @ star_to_regex cs else c # star_to_regex cs)"

datatype rtok = Lit char | Any | AnyStar

definition special :: "char \<Rightarrow> bool" where
  "special c \<longleftrightarrow> c \<in> set ''^$+?()[]{}|*'' \<or> c = CHR 0x5C"

fun tokenize :: "string \<Rightarrow> rtok list option" where
  "tokenize [] = Some []"
| "tokenize [c] = (if c = CHR ''.'' then Some [Any] else if special c then None else Some [Lit c])"
| "tokenize (c # d # cs) =
     (if c = CHR ''.'' then
        (if d = CHR ''*'' then map_option ((#) AnyStar) (tokenize cs) else map_option ((#) Any) (tokenize (d # cs)))
      else if special c then None else map_option ((#) (Lit c)) (tokenize (d # cs)))"

text \<open>The dot of ECMAScript matches every character but line terminators.\<close>

definition any_char :: "char \<Rightarrow> bool" where
  "any_char c \<longleftrightarrow> c \<noteq> CHR 0x0A \<and> c \<noteq> CHR 0x0D"

function tok_match :: "rtok list \<Rightarrow> string \<Rightarrow> bool" where
  "tok_match [] s = (s = [])"
| "tok_match (Lit c # r) s = (case s of [] \<Rightarrow> False | d # t \<Rightarrow> c = d \<and> tok_match r t)"
| "tok_match (Any # r) s = (case s of [] \<Rightarrow> False | d # t \<Rightarrow> any_char d \<and> tok_match r t)"
| "tok_match (AnyStar # r) s = (tok_match r s \<or> (case s of [] \<Rightarrow> False | d # t \<Rightarrow> any_char d \<and> tok_match (AnyStar # r) t))"
  by pat_completeness auto
termination
  by (relation "measure (\<lambda>(r, s). length r + length s)") auto

type_synonym regex_engine = "string \<Rightarrow> (string \<Rightarrow> bool) option"

text \<open>\<open>std::regex(re)\<close>; \<open>None\<close> is a thrown \<open>regex_error\<close>.\<close>

definition compile_regex :: "regex_engine \<Rightarrow> string \<Rightarrow> (string \<Rightarrow> bool) option" where
  "compile_regex rx re = (case tokenize re of Some toks \<Rightarrow> Some (tok_match toks) | None \<Rightarrow> rx re)"

record TopicSubscription =
  pattern :: string
  is_wildcard :: bool
  compiled_regex :: "string \<Rightarrow> bool"
  lossless :: bool

definition new_subscription :: "regex_engine \<Rightarrow> string \<Rightarrow> bool \<Rightarrow> TopicSubscription option" where
  "new_subscription rx p is_lossless =
     (if CHR ''*'' \<in> set p
      then map_option (\<lambda>m. \<lparr>pattern = p, is_wildcard = True, compiled_regex = m, lossless = is_lossless\<rparr>)
             (compile_regex rx (star_to_regex p))
      else Some \<lparr>pattern = p, is_wildcard = False, compiled_regex = (\<lambda>_. False), lossless = is_lossless\<rparr>)"

definition matches_topic :: "string \<Rightarrow> TopicSubscription \<Rightarrow> bool" where
  "matches_topic topic sub = (if is_wildcard sub then compiled_regex sub topic else topic = pattern sub)"

section \<open>Reference: glob patterns\<close>

text \<open>\<open>glob dot p t\<close>: \<open>*\<close> stands for any sequence, every other character for those \<open>dot\<close> allows.\<close>

function glob :: "(char \<Rightarrow> char \<Rightarrow> bool) \<Rightarrow> string \<Rightarrow> string \<Rightarrow> bool" where
  "glob eq [] t = (t = [])"
| "glob eq (c # p) t =
     (if c = CHR ''*'' then glob eq p t \<or> (case t of [] \<Rightarrow> False | d # u \<Rightarrow> glob eq (c # p) u)
      else (case t of [] \<Rightarrow> False | d # u \<Rightarrow> eq c d \<and> glob eq p u))"
  by pat_completeness auto
termination
  by (relation "measure (\<lambda>(_, p, t). length p + length t)") auto

text \<open>Characters that are matched literally, and the reading in which a dot stands for any character.\<close>

definition dot_eq :: "char \<Rightarrow> char \<Rightarrow> bool" where
  "dot_eq c d \<longleftrightarrow> c = d \<or> c = CHR ''.''"

definition plain_pattern :: "string \<Rightarrow> bool" where
  "plain_pattern p \<longleftrightarrow> (\<forall>c \<in> set p. special c \<longrightarrow> c = CHR ''*'')"

definition one_line :: "string \<Rightarrow> bool" where
  "one_line t \<longleftrightarrow> (\<forall>c \<in> set t. any_char c)"

text \<open>The tokens of a translated pattern.\<close>

definition char_tok :: "char \<Rightarrow> rtok" where
  "char_tok c = (if c = CHR ''*'' then AnyStar else if c = CHR ''.'' then Any else Lit c)"

section \<open>Lemmas\<close>

lemma tokenize_dot:
  "tokenize (CHR ''.'' # cs) = (case cs of [] \<Rightarrow> Some [Any]
     | d # ds \<Rightarrow> if d = CHR ''*'' then map_option ((#) AnyStar) (tokenize ds) else map_option ((#) Any) (tokenize cs))"
  by (cases cs) simp_all

lemma tokenize_lit: "c \<noteq> CHR ''.'' \<Longrightarrow> \<not> special c \<Longrightarrow> tokenize (c # cs) = map_option ((#) (Lit c)) (tokenize cs)"
  by (cases cs) simp_all

lemma hd_star_to_regex: "star_to_regex p = d # ds \<Longrightarrow> d \<noteq> CHR ''*''"
  by (cases p) (auto split: if_splits)

lemma tokenize_star_to_regex: "plain_pattern p \<Longrightarrow> tokenize (star_to_regex p) = Some (map char_tok p)"
proof (induction p)
  case (Cons c p)
  then have IH: "tokenize (star_to_regex p) = Some (map char_tok p)" by (simp add: plain_pattern_def)
  consider "c = CHR ''*''" | "c = CHR ''.''" | "c \<noteq> CHR ''*''" "c \<noteq> CHR ''.''" by blast
  then show ?case
  proof cases
    case 2
    then show ?thesis using IH hd_star_to_regex [of p]
      by (cases "star_to_regex p") (auto simp: tokenize_dot char_tok_def)
  next
    case 3
    then have "\<not> special c" using Cons.prems by (simp add: plain_pattern_def)
    then show ?thesis using 3 IH by (simp add: tokenize_lit char_tok_def)
  qed (simp add: IH char_tok_def)
qed simp

lemma tok_match_glob: "one_line t \<Longrightarrow> tok_match (map char_tok p) t = glob dot_eq p t"
proof (induction dot_eq p t rule: glob.induct)
  case (2 c p t)
  then show ?case
    by (cases t) (auto simp: char_tok_def dot_eq_def one_line_def)
qed simp

lemma glob_mono: "(\<And>c d. eq c d \<Longrightarrow> eq' c d) \<Longrightarrow> glob eq p t \<Longrightarrow> glob eq' p t"
proof (induction eq p t rule: glob.induct)
  case (2 eq c p t)
  then show ?case by (cases t) (auto split: if_splits)
qed simp

section \<open>Properties\<close>

text \<open>
  C30: a wildcard subscription without other special characters can always be created, and on topics
  of one line it matches exactly the glob pattern in which a dot stands for any character; in
  particular it matches every topic of the plain glob reading. Without a \<open>*\<close> it is string equality.
\<close>

theorem subscription_is_glob:
  assumes "plain_pattern p" "one_line topic"
  shows "\<exists>sub. new_subscription rx p l = Some sub \<and>
    (matches_topic topic sub \<longleftrightarrow> (if CHR ''*'' \<in> set p then glob dot_eq p topic else topic = p))
    \<and> (glob (=) p topic \<and> CHR ''*'' \<in> set p \<longrightarrow> matches_topic topic sub)"
  using assms tok_match_glob [of topic p] glob_mono [of "(=)" dot_eq p topic]
  by (auto simp: new_subscription_def compile_regex_def tokenize_star_to_regex matches_topic_def dot_eq_def)

theorem subscription_is_glob_witness:
  "\<exists>sub. new_subscription (\<lambda>_. None) ''l1.*'' False = Some sub \<and> matches_topic ''l1.BTCUSDT'' sub
     \<and> matches_topic ''l1xBTCUSDT'' sub \<and> \<not> matches_topic ''l2.BTCUSDT'' sub"
proof -
  have p: "plain_pattern ''l1.*''" by (simp add: plain_pattern_def special_def)
  have t: "one_line ''l1.BTCUSDT''" "one_line ''l1xBTCUSDT''" "one_line ''l2.BTCUSDT''" by (simp_all add: one_line_def any_char_def)
  show ?thesis
    using subscription_is_glob [OF p t(1), of "\<lambda>_. None" False] subscription_is_glob [OF p t(2), of "\<lambda>_. None" False]
      subscription_is_glob [OF p t(3), of "\<lambda>_. None" False]
    by (auto simp: dot_eq_def)
qed

end
