(* ===== verification/Publisher.thy ===== *)
theory Publisher
  imports Frame Backpressure Json Topic_Match "HOL-Library.AList"
begin

text \<open>
  The TCP publisher of \<open>src/publisher\<close>: client connections with their control protocol, send queue
  and write loop, and the server that fans frames out to subscribers, caches the latest frame per
  topic and sends heartbeats. Sockets are reduced to the text that arrives and the outcome of each
  write; the JSON parser and the regular-expression engine are arguments. The send queue is a list in
  the order in which the enqueues took effect (the queue keeps the order of each producing thread).
\<close>

section \<open>Client connections\<close>

type_synonym QueuedFrame = "string \<times> byte list"

record ClientConnection =
  c_auth_token :: string
  c_running :: bool
  authenticated :: bool
  subscriptions :: "TopicSubscription list"
  send_queue :: "QueuedFrame list"
  frames_batch :: "QueuedFrame list"  \<comment> \<open>dequeued by the write thread, not yet written\<close>
  dequeued :: nat  \<comment> \<open>the size of the batch\<close>
  read_buffer :: string
  write_failures :: nat  \<comment> \<open>\<open>consecutive_failures\<close> of \<open>write_loop\<close>\<close>
  frames_sent :: u64
  wire :: "byte list"  \<comment> \<open>what has been written to the socket\<close>

definition new_client :: "string \<Rightarrow> ClientConnection" where
  "new_client token = \<lparr>c_auth_token = token, c_running = False, authenticated = False, subscriptions = [], send_queue = [],
     frames_batch = [], dequeued = 0, read_buffer = [], write_failures = 0, frames_sent = 0, wire = []\<rparr>"

definition client_start :: "ClientConnection \<Rightarrow> ClientConnection" where
  "client_start c = (if c_running c then c else c\<lparr>c_running := True\<rparr>)"

definition client_stop :: "ClientConnection \<Rightarrow> ClientConnection" where
  "client_stop c = (if \<not> c_running c then c else c\<lparr>c_running := False\<rparr>)"

definition send_frame :: "string \<Rightarrow> Frame \<Rightarrow> ClientConnection \<Rightarrow> ClientConnection option" where
  "send_frame topic frame c =
     (if \<not> c_running c \<or> \<not> authenticated c then Some c
      else map_option (\<lambda>encoded. c\<lparr>send_queue := send_queue c @ [(topic, encoded)]\<rparr>) (encode_frame frame []))"

text \<open>
  Heartbeats and acknowledgements are built by the frame constructors, so they always encode; the
  uninitialised checksum field is overwritten by the encoder and taken as 0 here.
\<close>

definition heartbeat_frame :: "u64 \<Rightarrow> Frame" where
  "heartbeat_frame ts = mk_frame 0 (BHb \<lparr>hb_ts_ns = ts\<rparr>)"

definition ack_frame :: "u32 \<Rightarrow> Frame" where
  "ack_frame code = mk_frame 0 (BAck \<lparr>ack_code = code, ack_reserved = 0\<rparr>)"

definition send_heartbeat :: "u64 \<Rightarrow> ClientConnection \<Rightarrow> ClientConnection" where
  "send_heartbeat ts c = (case send_frame ''heartbeat'' (heartbeat_frame ts) c of None \<Rightarrow> c | Some c' \<Rightarrow> c')"

definition send_control_ack :: "u32 \<Rightarrow> ClientConnection \<Rightarrow> ClientConnection" where
  "send_control_ack code c = (case send_frame ''control'' (ack_frame code) c of None \<Rightarrow> c | Some c' \<Rightarrow> c')"

definition get_queue_depth :: "ClientConnection \<Rightarrow> u32" where
  "get_queue_depth c = of_nat (length (send_queue c))"

section \<open>Control messages\<close>

type_synonym json_parser = "string \<Rightarrow> Json option"
type_synonym client_state = "ClientConnection \<times> MetricsCollector"

text \<open>The loop of \<open>subscribe\<close>: a pattern whose expression is refused ends it with an exception.\<close>

fun add_subscriptions :: "regex_engine \<Rightarrow> bool \<Rightarrow> string list \<Rightarrow> TopicSubscription list \<Rightarrow> bool \<times> TopicSubscription list" where
  "add_subscriptions rx l [] subs = (True, subs)"
| "add_subscriptions rx l (t # ts) subs =
     (case new_subscription rx t l of None \<Rightarrow> (False, subs) | Some sub \<Rightarrow> add_subscriptions rx l ts (subs @ [sub]))"

definition handle_auth :: "Json \<Rightarrow> client_state \<Rightarrow> client_state option" where
  "handle_auth json = (\<lambda>(c, m). case json_value get_string json ''token'' '''' of
     None \<Rightarrow> None
   | Some token \<Rightarrow>
       if token = c_auth_token c then Some (send_control_ack 200 (c\<lparr>authenticated := True\<rparr>), m)
       else Some (client_stop (send_control_ack 401 c), increment_counter ''publisher_auth_failures_total'' 1 m))"

text \<open>In the handlers below \<open>Inl\<close> is the state in which an exception left the connection.\<close>

definition handle_subscribe :: "regex_engine \<Rightarrow> Json \<Rightarrow> client_state \<Rightarrow> client_state + client_state" where
  "handle_subscribe rx json = (\<lambda>(c, m).
     if \<not> authenticated c then Inr (send_control_ack 401 c, m)
     else (case (json_value get_strings json ''topics'' [], json_value get_bool json ''lossless'' False) of
       (Some topics, Some l) \<Rightarrow>
         (case add_subscriptions rx l topics (subscriptions c) of
            (False, subs) \<Rightarrow> Inl (c\<lparr>subscriptions := subs\<rparr>, m)
          | (True, subs) \<Rightarrow> Inr (send_control_ack 200 (c\<lparr>subscriptions := subs\<rparr>),
              increment_counter ''publisher_subscriptions_total'' (of_nat (length topics)) m))
     | _ \<Rightarrow> Inl (c, m)))"

definition handle_unsubscribe :: "Json \<Rightarrow> client_state \<Rightarrow> client_state option" where
  "handle_unsubscribe json = (\<lambda>(c, m). case json_value get_strings json ''topics'' [] of
     None \<Rightarrow> None
   | Some topics \<Rightarrow> Some (send_control_ack 200 (c\<lparr>subscriptions := filter (\<lambda>sub. pattern sub \<notin> set topics) (subscriptions c)\<rparr>),
       increment_counter ''publisher_unsubscriptions_total'' (of_nat (length topics)) m))"

definition process_control_message :: "regex_engine \<Rightarrow> json_parser \<Rightarrow> string \<Rightarrow> client_state \<Rightarrow> client_state" where
  "process_control_message rx parse message = (\<lambda>(c, m).
     let bad = (\<lambda>(c, m). (send_control_ack 400 c, m)) in
     case parse message of
       None \<Rightarrow> bad (c, m)
     | Some json \<Rightarrow> (case json_value get_string json ''op'' '''' of
         None \<Rightarrow> bad (c, m)
       | Some op \<Rightarrow>
           if op = ''auth'' then (case handle_auth json (c, m) of None \<Rightarrow> bad (c, m) | Some st \<Rightarrow> st)
           else if op = ''subscribe'' then (case handle_subscribe rx json (c, m) of Inl st \<Rightarrow> bad st | Inr st \<Rightarrow> st)
           else if op = ''unsubscribe'' then (case handle_unsubscribe json (c, m) of None \<Rightarrow> bad (c, m) | Some st \<Rightarrow> st)
           else bad (c, m)))"

text \<open>The read loop: a message is the text up to the next newline; reading ends when the client stops.\<close>

definition newline :: char where
  "newline = CHR 0x0A"

lemma send_control_ack_read_buffer [simp]: "read_buffer (send_control_ack code c) = read_buffer c"
  by (auto simp: send_control_ack_def send_frame_def split: option.splits)

lemma process_read_buffer [simp]: "read_buffer (fst (process_control_message rx parse msg st)) = read_buffer (fst st)"
  by (cases st) (auto simp: process_control_message_def handle_auth_def handle_subscribe_def handle_unsubscribe_def client_stop_def Let_def
      split: option.splits sum.splits prod.splits bool.splits)

definition take_message :: "regex_engine \<Rightarrow> json_parser \<Rightarrow> client_state \<Rightarrow> client_state" where
  "take_message rx parse st =
     (let message = takeWhile (\<lambda>ch. ch \<noteq> newline) (read_buffer (fst st));
          rest = drop (length message + 1) (read_buffer (fst st))
      in process_control_message rx parse message ((fst st)\<lparr>read_buffer := rest\<rparr>, snd st))"

lemma take_message_buffer:
  "read_buffer (fst (take_message rx parse st)) = drop (length (takeWhile (\<lambda>ch. ch \<noteq> newline) (read_buffer (fst st))) + 1) (read_buffer (fst st))"
  by (simp add: take_message_def Let_def)

function read_messages :: "regex_engine \<Rightarrow> json_parser \<Rightarrow> client_state \<Rightarrow> client_state" where
  "read_messages rx parse st =
     (if newline \<in> set (read_buffer (fst st)) then
        (if c_running (fst (take_message rx parse st)) then read_messages rx parse (take_message rx parse st)
         else take_message rx parse st)
      else st)"
  by pat_completeness auto
termination
  by (relation "measure (\<lambda>(rx, parse, st). length (read_buffer (fst st)))")
    (auto simp: take_message_buffer neq_Nil_conv dest: split_list)

declare read_messages.simps [simp del]

definition on_data :: "regex_engine \<Rightarrow> json_parser \<Rightarrow> string \<Rightarrow> client_state \<Rightarrow> client_state" where
  "on_data rx parse chunk st =
     (if c_running (fst st) then read_messages rx parse ((fst st)\<lparr>read_buffer := read_buffer (fst st) @ chunk\<rparr>, snd st) else st)"

datatype read_error = Aborted | Eof | OtherError

definition on_read_error :: "read_error \<Rightarrow> client_state \<Rightarrow> client_state" where
  "on_read_error ec = (\<lambda>(c, m). (client_stop c, if ec = OtherError then increment_counter ''publisher_read_errors_total'' 1 m else m))"

section \<open>The write loop\<close>

text \<open>
  \<open>dequeue_batch\<close> fills \<open>frames_batch\<close> with up to 100 frames; \<open>write_next\<close> writes its first frame:
  \<open>None\<close> is success, \<open>Some k\<close> an error after \<open>k\<close> bytes. The fifth consecutive error of a running
  connection calls \<open>stop()\<close> on the write thread itself, whose \<open>join\<close> throws out of the thread
  function: the process terminates, the result \<open>None\<close>.
\<close>

definition dequeue_batch :: "client_state \<Rightarrow> client_state" where
  "dequeue_batch = (\<lambda>(c, m).
     if c_running c \<and> frames_batch c = []
     then (c\<lparr>frames_batch := take 100 (send_queue c), dequeued := min 100 (length (send_queue c)),
             send_queue := drop 100 (send_queue c)\<rparr>, m)
     else (c, m))"

definition batch_done :: "client_state \<Rightarrow> client_state" where
  "batch_done = (\<lambda>(c, m).
     (c, if frames_batch c = [] then increment_counter ''publisher_frames_sent_total'' (of_nat (dequeued c)) m else m))"

definition write_next :: "nat option \<Rightarrow> client_state \<Rightarrow> client_state option" where
  "write_next result = (\<lambda>(c, m). case frames_batch c of
     [] \<Rightarrow> Some (c, m)
   | (topic, data) # rest \<Rightarrow>
       (case result of
          None \<Rightarrow> Some (batch_done
            (c\<lparr>frames_batch := rest, wire := wire c @ data, write_failures := 0, frames_sent := frames_sent c + 1\<rparr>, m))
        | Some k \<Rightarrow>
            let c1 = c\<lparr>frames_batch := rest, wire := wire c @ take k data, write_failures := write_failures c + 1\<rparr>;
                m1 = increment_counter ''publisher_write_errors_total'' 1 m
            in if 5 \<le> write_failures c1
               then (if c_running c then None else Some (c1\<lparr>frames_batch := []\<rparr>, m1))
               else Some (batch_done (c1, m1))))"

section \<open>Sending\<close>

lemma wf_control_frames [simp, intro]: "wf_frame (heartbeat_frame ts)" "wf_frame (ack_frame code)"
  unfolding heartbeat_frame_def ack_frame_def by (rule wf_mk_frame)+

lemma send_frame_wf:
  "wf_frame f \<Longrightarrow> send_frame topic f c =
     Some (if c_running c \<and> authenticated c then c\<lparr>send_queue := send_queue c @ [(topic, frame_bytes f)]\<rparr> else c)"
  by (simp add: send_frame_def encode_frame_wf)

lemma send_control_ack_eq:
  "send_control_ack code c = (if c_running c \<and> authenticated c
     then c\<lparr>send_queue := send_queue c @ [(''control'', frame_bytes (ack_frame code))]\<rparr> else c)"
  by (simp add: send_control_ack_def send_frame_wf)

lemma send_heartbeat_eq:
  "send_heartbeat ts c = (if c_running c \<and> authenticated c
     then c\<lparr>send_queue := send_queue c @ [(''heartbeat'', frame_bytes (heartbeat_frame ts))]\<rparr> else c)"
  by (simp add: send_heartbeat_def send_frame_wf)

section \<open>Invariants of connections\<close>

text \<open>
  What every handler of a connection has to keep: \<open>okf\<close> restricts the frames that are sent and \<open>okw\<close>
  the outcomes of writes. A predicate with these laws holds of every connection of every reachable
  server (\<open>Pub_Server\<close>).
\<close>

locale conn_invariant =
  fixes I :: "ClientConnection \<Rightarrow> bool" and okf :: "Frame \<Rightarrow> bool" and okw :: "nat option \<Rightarrow> bool"
  assumes fresh: "I (client_start (new_client token))"
    and stop: "I c \<Longrightarrow> I (client_stop c)"
    and send: "I c \<Longrightarrow> okf f \<Longrightarrow> send_frame topic f c = Some c' \<Longrightarrow> I c'"
    and okf_control: "okf (heartbeat_frame ts)" "okf (ack_frame code)"
    and auth: "I c \<Longrightarrow> I (c\<lparr>authenticated := True\<rparr>)"
    and subscribe: "I c \<Longrightarrow> authenticated c \<Longrightarrow> I (c\<lparr>subscriptions := subs\<rparr>)"
    and unsubscribe: "I c \<Longrightarrow> I (c\<lparr>subscriptions := filter P (subscriptions c)\<rparr>)"
    and buffer: "I c \<Longrightarrow> I (c\<lparr>read_buffer := b\<rparr>)"
    and dequeue: "I c \<Longrightarrow> I (fst (dequeue_batch (c, m)))"
    and written: "I c \<Longrightarrow> okw res \<Longrightarrow> write_next res (c, m) = Some (c', m') \<Longrightarrow> I c'"
begin

lemma ack: "I c \<Longrightarrow> I (send_control_ack code c)"
  using send [of c "ack_frame code" "''control''"] okf_control(2) [of code]
  by (auto simp: send_control_ack_def split: option.splits)

lemma heartbeat: "I c \<Longrightarrow> I (send_heartbeat ts c)"
  using send [of c "heartbeat_frame ts" "''heartbeat''"] okf_control(1) [of ts]
  by (auto simp: send_heartbeat_def split: option.splits)

lemma handled: "I c \<Longrightarrow> I (fst (process_control_message rx parse msg (c, m)))"
  by (auto simp: process_control_message_def handle_auth_def handle_subscribe_def handle_unsubscribe_def Let_def
      split: option.splits sum.splits prod.splits bool.splits intro!: ack stop auth subscribe unsubscribe)

lemma message_taken: "I (fst st) \<Longrightarrow> I (fst (take_message rx parse st))"
  by (simp add: take_message_def Let_def handled buffer)

lemma messages_read: "I (fst st) \<Longrightarrow> I (fst (read_messages rx parse st))"
  by (induction rx parse st rule: read_messages.induct) (subst read_messages.simps, simp add: message_taken)

lemma received: "I c \<Longrightarrow> I (fst (on_data rx parse chunk (c, m)))"
  by (auto simp: on_data_def intro!: messages_read buffer)

lemma read_failed: "I c \<Longrightarrow> I (fst (on_read_error ec (c, m)))"
  by (simp add: on_read_error_def stop)

end

text \<open>Before authentication a connection has nothing queued, written or subscribed.\<close>

definition conn_ok :: "ClientConnection \<Rightarrow> bool" where
  "conn_ok c \<longleftrightarrow> authenticated c \<or> subscriptions c = [] \<and> send_queue c = [] \<and> frames_batch c = [] \<and> wire c = []"

text \<open>
  As long as no write fails, the wire carries whole frames, one for each frame counted as sent, and
  what is queued are encodings of frames.
\<close>

definition encodings :: "QueuedFrame list \<Rightarrow> bool" where
  "encodings q \<longleftrightarrow> (\<forall>(topic, data) \<in> set q. \<exists>f. wf_frame f \<and> data = frame_bytes f)"

definition frame_stream :: "byte list \<Rightarrow> u64 \<Rightarrow> bool" where
  "frame_stream bs k \<longleftrightarrow> (\<exists>fs. (\<forall>f \<in> set fs. wf_frame f) \<and> bs = concat (map frame_bytes fs) \<and> of_nat (length fs) = k)"

definition framed :: "ClientConnection \<Rightarrow> bool" where
  "framed c \<longleftrightarrow> encodings (frames_batch c) \<and> encodings (send_queue c) \<and> frame_stream (wire c) (frames_sent c)"

lemma encodings_simps [simp]:
  "encodings []" "encodings ((topic, data) # q) \<longleftrightarrow> (\<exists>f. wf_frame f \<and> data = frame_bytes f) \<and> encodings q" "encodings (p @ q) \<longleftrightarrow> encodings p \<and> encodings q"
  by (simp_all add: encodings_def ball_Un)

lemma encodings_sub: "encodings q \<Longrightarrow> encodings (take n q)" "encodings q \<Longrightarrow> encodings (drop n q)"
  by (auto simp: encodings_def dest: in_set_takeD in_set_dropD)

interpretation access: conn_invariant conn_ok "\<lambda>_. True" "\<lambda>_. True"
proof
  fix c c' m m' res
  show "conn_ok c \<Longrightarrow> conn_ok (fst (dequeue_batch (c, m)))"
    by (auto simp: dequeue_batch_def conn_ok_def)
  show "conn_ok c \<Longrightarrow> write_next res (c, m) = Some (c', m') \<Longrightarrow> conn_ok c'"
    by (auto simp: write_next_def batch_done_def conn_ok_def Let_def split: list.splits option.splits if_splits)
  show "conn_ok c \<Longrightarrow> send_frame topic f c = Some c' \<Longrightarrow> conn_ok c'" for topic f
    by (auto simp: conn_ok_def send_frame_def split: if_splits)
qed (auto simp: conn_ok_def client_start_def new_client_def client_stop_def)

lemma frame_stream_Nil [simp]: "frame_stream [] 0"
  unfolding frame_stream_def by (rule exI [of _ "[]"]) simp

lemma frame_stream_snoc:
  assumes "frame_stream bs k" "wf_frame f"
  shows "frame_stream (bs @ frame_bytes f) (k + 1)"
proof -
  obtain fs where "\<forall>f \<in> set fs. wf_frame f" "bs = concat (map frame_bytes fs)" "of_nat (length fs) = k"
    using assms(1) by (auto simp: frame_stream_def)
  then show ?thesis using assms(2) unfolding frame_stream_def by (intro exI [of _ "fs @ [f]"]) auto
qed

lemma framed_write:
  assumes "framed c" "write_next None (c, m) = Some (c', m')"
  shows "framed c'"
proof (cases "frames_batch c")
  case Nil
  then show ?thesis using assms by (simp add: write_next_def)
next
  case (Cons q rest)
  then obtain topic f where q: "q = (topic, frame_bytes f)" "wf_frame f"
    using assms(1) by (cases q) (auto simp: framed_def)
  then have "c' = c\<lparr>frames_batch := rest, wire := wire c @ frame_bytes f, write_failures := 0, frames_sent := frames_sent c + 1\<rparr>"
    using assms(2) Cons by (simp add: write_next_def batch_done_def)
  then show ?thesis using assms(1) q Cons by (simp add: framed_def frame_stream_snoc)
qed

interpretation stream: conn_invariant framed wf_frame "\<lambda>res. res = None"
proof
  show "framed c \<Longrightarrow> wf_frame f \<Longrightarrow> send_frame topic f c = Some c' \<Longrightarrow> framed c'" for c c' f topic
    by (auto simp: send_frame_wf framed_def split: if_splits)
  show "framed c \<Longrightarrow> framed (fst (dequeue_batch (c, m)))" for c m
    by (auto simp: dequeue_batch_def framed_def encodings_sub)
  show "framed c \<Longrightarrow> res = None \<Longrightarrow> write_next res (c, m) = Some (c', m') \<Longrightarrow> framed c'" for c c' m m' res
    using framed_write by blast
qed (simp_all add: framed_def client_start_def new_client_def client_stop_def)

section \<open>The control stream\<close>

text \<open>How the text is cut into reads does not matter: handlers never look at the buffer behind the message.\<close>

definition add_input :: "string \<Rightarrow> client_state \<Rightarrow> client_state" where
  "add_input ys st = ((fst st)\<lparr>read_buffer := read_buffer (fst st) @ ys\<rparr>, snd st)"

definition forget_input :: "client_state \<Rightarrow> client_state" where
  "forget_input st = ((fst st)\<lparr>read_buffer := []\<rparr>, snd st)"

lemma add_input_simps [simp]:
  "c_running (fst (add_input ys st)) = c_running (fst st)" "read_buffer (fst (add_input ys st)) = read_buffer (fst st) @ ys"
  "forget_input (add_input ys st) = forget_input st" "add_input ys (add_input xs st) = add_input (xs @ ys) st"
  by (simp_all add: add_input_def forget_input_def)

lemma control_ack_buffer: "send_control_ack code (c\<lparr>read_buffer := b\<rparr>) = (send_control_ack code c)\<lparr>read_buffer := b\<rparr>"
  by (simp add: send_control_ack_eq)

lemma handle_auth_buffer:
  "handle_auth json (c\<lparr>read_buffer := b\<rparr>, m) = map_option (apfst (read_buffer_update (\<lambda>_. b))) (handle_auth json (c, m))"
  by (cases "json_value get_string json ''token'' []") (simp_all add: handle_auth_def send_control_ack_eq client_stop_def)

lemma handle_subscribe_buffer:
  "handle_subscribe rx json (c\<lparr>read_buffer := b\<rparr>, m)
   = map_sum (apfst (read_buffer_update (\<lambda>_. b))) (apfst (read_buffer_update (\<lambda>_. b))) (handle_subscribe rx json (c, m))"
  by (simp add: handle_subscribe_def send_control_ack_eq split: option.split prod.split bool.split)

lemma handle_unsubscribe_buffer:
  "handle_unsubscribe json (c\<lparr>read_buffer := b\<rparr>, m) = map_option (apfst (read_buffer_update (\<lambda>_. b))) (handle_unsubscribe json (c, m))"
  by (simp add: handle_unsubscribe_def send_control_ack_eq split: option.split)

lemmas handler_buffers = handle_auth_buffer handle_subscribe_buffer handle_unsubscribe_buffer

lemma process_buffer_update:
  "process_control_message rx parse msg (c\<lparr>read_buffer := b\<rparr>, m) = apfst (read_buffer_update (\<lambda>_. b)) (process_control_message rx parse msg (c, m))"
  by (simp add: process_control_message_def handler_buffers control_ack_buffer Let_def apfst_def map_prod_def case_prod_beta
      split: option.split sum.split)

lemma take_message_add_input:
  assumes "newline \<in> set (read_buffer (fst st))"
  shows "take_message rx parse (add_input ys st) = add_input ys (take_message rx parse st)"
proof -
  obtain c m where [simp]: "st = (c, m)" by (cases st)
  obtain msg rest where b: "read_buffer c = msg @ newline # rest" "newline \<notin> set msg"
    using split_list_first [OF assms] by auto
  then have "takeWhile (\<lambda>ch. ch \<noteq> newline) (msg @ newline # r) = msg" for r by (subst takeWhile_append2) auto
  then show ?thesis
    using b by (simp add: take_message_def Let_def add_input_def process_buffer_update prod_eq_iff apfst_def map_prod_def split_beta)
qed

lemma on_data_eq: "on_data rx parse chunk st = (if c_running (fst st) then read_messages rx parse (add_input chunk st) else st)"
  by (simp add: on_data_def add_input_def)

lemma read_messages_add_input:
  "c_running (fst st) \<Longrightarrow> read_messages rx parse (add_input ys st) =
     (let r = read_messages rx parse st in if c_running (fst r) then read_messages rx parse (add_input ys r) else add_input ys r)"
proof (induction rx parse st rule: read_messages.induct)
  case (1 rx parse st)
  show ?case
  proof (cases "newline \<in> set (read_buffer (fst st))")
    case True
    let ?t = "take_message rx parse st"
    have e: "read_messages rx parse st = (if c_running (fst ?t) then read_messages rx parse ?t else ?t)"
      using True by (subst read_messages.simps) simp
    have "read_messages rx parse (add_input ys st) =
        (if c_running (fst ?t) then read_messages rx parse (add_input ys ?t) else add_input ys ?t)"
      using True by (subst read_messages.simps) (simp add: take_message_add_input)
    then show ?thesis using 1 True e by (cases "c_running (fst ?t)") (simp_all add: Let_def)
  next
    case False
    then have "read_messages rx parse st = st" by (subst read_messages.simps) simp
    then show ?thesis using "1.prems" by (simp add: Let_def)
  qed
qed

lemma read_messages_complete:
  "c_running (fst (read_messages rx parse st)) \<Longrightarrow> newline \<notin> set (read_buffer (fst (read_messages rx parse st)))"
proof (induction rx parse st rule: read_messages.induct)
  case (1 rx parse st)
  then show ?case by (subst read_messages.simps, subst (asm) (4) read_messages.simps) (auto split: if_splits)
qed

lemma on_data_append: "forget_input (on_data rx parse (xs @ ys) st) = forget_input (on_data rx parse ys (on_data rx parse xs st))"
  using read_messages_add_input [of "add_input xs st" rx parse ys]
  by (auto simp: on_data_eq Let_def split: if_splits)

lemma on_data_stopped: "\<not> c_running (fst st) \<Longrightarrow> on_data rx parse chunk st = st"
  by (simp add: on_data_def)

lemma on_data_forget:
  "c_running (fst st) \<Longrightarrow> c_running (fst (on_data rx parse xs st)) = c_running (fst (forget_input (on_data rx parse xs st)))"
  by (simp add: forget_input_def)

lemma on_data_nothing: "newline \<notin> set (read_buffer (fst st)) \<Longrightarrow> on_data rx parse [] st = st"
  by (subst on_data_eq, subst read_messages.simps) (simp add: add_input_def)

lemma on_data_rest:
  "newline \<notin> set (read_buffer (fst st)) \<Longrightarrow> c_running (fst (on_data rx parse xs st))
   \<Longrightarrow> newline \<notin> set (read_buffer (fst (on_data rx parse xs st)))"
  by (auto simp: on_data_eq dest: read_messages_complete split: if_splits)

lemma on_data_message:
  assumes "c_running c" "read_buffer c = []" "newline \<notin> set msg"
  shows "on_data rx parse (msg @ [newline]) (c, m) = process_control_message rx parse msg (c, m)"
proof -
  let ?st = "add_input (msg @ [newline]) (c, m)"
  have "takeWhile (\<lambda>ch. ch \<noteq> newline) (msg @ [newline]) = msg" using assms(3) by (subst takeWhile_append2) auto
  then have t: "take_message rx parse ?st = process_control_message rx parse msg (c, m)"
    using assms(2) by (cases c) (simp add: take_message_def add_input_def Let_def)
  have "read_messages rx parse ?st = take_message rx parse ?st"
    using assms(2) by (subst read_messages.simps, subst read_messages.simps) (simp add: t)
  then show ?thesis using assms(1) t by (simp add: on_data_eq)
qed

lemma fold_on_data_stopped: "\<not> c_running (fst st) \<Longrightarrow> fold (on_data rx parse) chunks st = st"
  by (induction chunks) (simp_all add: on_data_stopped)

text \<open>The message that authenticates a connection.\<close>

definition valid_auth :: "json_parser \<Rightarrow> string \<Rightarrow> string \<Rightarrow> bool" where
  "valid_auth parse token message = (case parse message of
     None \<Rightarrow> False
   | Some json \<Rightarrow> json_value get_string json ''op'' [] = Some ''auth'' \<and> json_value get_string json ''token'' [] = Some token)"

section \<open>Properties\<close>

text \<open>
  The outcome of a control stream does not depend on how the network cuts it into reads: feeding
  the pieces one by one leaves the connection (its unread input aside) and the metrics as feeding
  the whole text does.
\<close>

theorem control_stream_chunking:
  "newline \<notin> set (read_buffer (fst st)) \<Longrightarrow>
   forget_input (fold (on_data rx parse) chunks st) = forget_input (on_data rx parse (concat chunks) st)"
proof (induction chunks arbitrary: st)
  case Nil
  then show ?case by (simp add: on_data_nothing)
next
  case (Cons x chunks)
  let ?t = "on_data rx parse x st"
  show ?case
  proof (cases "c_running (fst ?t)")
    case True
    then show ?thesis using Cons on_data_rest [OF Cons.prems True] by (simp add: on_data_append)
  next
    case False
    then show ?thesis by (simp add: fold_on_data_stopped on_data_append on_data_stopped)
  qed
qed

theorem control_stream_chunking_witness:
  "newline \<notin> set (read_buffer (client_start (new_client ''secret''))) \<and>
   forget_input (fold (on_data (\<lambda>_. None) (\<lambda>_. None)) [''{}'', [newline]] (client_start (new_client ''secret''), no_metrics))
   = forget_input (on_data (\<lambda>_. None) (\<lambda>_. None) (''{}'' @ [newline]) (client_start (new_client ''secret''), no_metrics))"
  using control_stream_chunking [of "(client_start (new_client ''secret''), no_metrics)" "\<lambda>_. None" "\<lambda>_. None" "[''{}'', [newline]]"]
  by (simp add: client_start_def new_client_def)

text \<open>
  C29: the authentication gate. A connection that is not authenticated becomes so exactly by a message
  that carries the configured token, which is acknowledged with 200; any other message, whatever it
  contains, leaves it without authentication, subscriptions unchanged or fewer and nothing queued, so
  that the refusals 400 and 401 are never delivered; a wrong token also disconnects.
\<close>

theorem authentication_gate:
  assumes "\<not> authenticated c" "c_running c"
  shows "let (c', m') = process_control_message rx parse message (c, m) in
    (authenticated c' \<longleftrightarrow> valid_auth parse (c_auth_token c) message)
    \<and> send_queue c' = (if authenticated c' then send_queue c @ [(''control'', frame_bytes (ack_frame 200))] else send_queue c)
    \<and> set (subscriptions c') \<subseteq> set (subscriptions c)
    \<and> (authenticated c' \<longrightarrow> c_running c')"
proof (cases "parse message")
  case None
  then show ?thesis using assms by (simp add: process_control_message_def send_control_ack_eq valid_auth_def)
next
  case (Some json)
  show ?thesis
  proof (cases "json_value get_string json ''op'' []")
    case None
    then show ?thesis using assms Some by (simp add: process_control_message_def send_control_ack_eq valid_auth_def)
  next
    case op: (Some op)
    consider "op = ''auth''" | "op = ''subscribe''" | "op = ''unsubscribe''"
      | "op \<noteq> ''auth''" "op \<noteq> ''subscribe''" "op \<noteq> ''unsubscribe''" by blast
    then show ?thesis
    proof cases
      case 1
      then show ?thesis using assms Some op
        by (cases "json_value get_string json ''token'' []")
          (simp_all add: process_control_message_def handle_auth_def client_stop_def send_control_ack_eq valid_auth_def)
    next
      case 2
      then show ?thesis using assms Some op
        by (simp add: process_control_message_def handle_subscribe_def send_control_ack_eq valid_auth_def)
    next
      case 3
      then show ?thesis using assms Some op
        by (cases "json_value get_strings json ''topics'' []")
          (simp_all add: process_control_message_def handle_unsubscribe_def send_control_ack_eq valid_auth_def)
    next
      case 4
      then show ?thesis using assms Some op by (simp add: process_control_message_def send_control_ack_eq valid_auth_def)
    qed
  qed
qed

definition login_parser :: json_parser where
  "login_parser text = (if text = ''login'' then Some (JObject [(''op'', JString ''auth''), (''token'', JString ''secret'')]) else None)"

theorem authentication_gate_witness:
  "\<not> authenticated (client_start (new_client ''secret'')) \<and>
   authenticated (fst (process_control_message (\<lambda>_. None) login_parser ''login'' (client_start (new_client ''secret''), no_metrics))) \<and>
   \<not> authenticated (fst (process_control_message (\<lambda>_. None) login_parser ''hello'' (client_start (new_client ''secret''), no_metrics)))"
  using authentication_gate [of "client_start (new_client ''secret'')" "\<lambda>_. None" login_parser "''login''" no_metrics]
    authentication_gate [of "client_start (new_client ''secret'')" "\<lambda>_. None" login_parser "''hello''" no_metrics]
  by (simp add: client_start_def new_client_def case_prod_beta valid_auth_def login_parser_def json_value_def)

end
