(* ===== verification/Pub_Server.thy ===== *)
theory Pub_Server
  imports Publisher
begin

text \<open>
  \<open>PubServer\<close> of \<open>src/publisher\<close>. Connections are shared objects (\<open>shared_ptr\<close>): \<open>conns\<close> is the store
  of all connections ever accepted and a pointer is an index into it, so that a connection dropped
  from \<open>clients\<close> lives on with its handlers. The threads of the server are the events of \<open>pub_exec\<close>:
  the io thread (accepts, control messages, read errors), one write thread per connection, the
  heartbeat thread and any number of publishing threads, whose \<open>publish\<close> is split at the point where
  it waits for capacity.
\<close>

section \<open>State\<close>

record PubStats =
  total_connections :: u64
  active_connections :: u64
  frames_published :: u64
  frames_dropped :: u64
  auth_failures :: u64

record PubServer =
  ps_auth_token :: string
  ps_running :: bool
  accepting :: bool  \<comment> \<open>an \<open>async_accept\<close> is pending\<close>
  conns :: "ClientConnection list"
  clients :: "nat list"
  virtual_topic_prefixes :: "string set"
  latest_frames :: "(string \<times> Frame) list"
  queue_backpressure :: QueueBackpressureController
  pstats :: PubStats

type_synonym server_state = "PubServer \<times> bp_env"

definition new_server :: "string \<Rightarrow> u32 \<Rightarrow> u32 \<Rightarrow> bp_env \<Rightarrow> server_state" where
  "new_server token high low env =
     (let (c, env1) = new_controller ''distributor_to_publisher'' high low env
      in (\<lparr>ps_auth_token = token, ps_running = False, accepting = False, conns = [], clients = [],
           virtual_topic_prefixes = {}, latest_frames = [], queue_backpressure = c,
           pstats = \<lparr>total_connections = 0, active_connections = 0, frames_published = 0, frames_dropped = 0, auth_failures = 0\<rparr>\<rparr>,
          env1))"

text \<open>A client's operation on its connection and the metrics.\<close>

definition on_conn :: "nat \<Rightarrow> (client_state \<Rightarrow> client_state option) \<Rightarrow> server_state \<Rightarrow> server_state option" where
  "on_conn r f = (\<lambda>(s, env).
     if r < length (conns s) then
       (case f (conns s ! r, metrics env) of
          None \<Rightarrow> None
        | Some (c, m) \<Rightarrow> Some (s\<lparr>conns := (conns s)[r := c]\<rparr>, env\<lparr>metrics := m\<rparr>))
     else Some (s, env))"

section \<open>Operations\<close>

definition server_start :: "server_state \<Rightarrow> server_state" where
  "server_start = (\<lambda>(s, env). if ps_running s then (s, env) else (s\<lparr>ps_running := True, accepting := True\<rparr>, env))"

definition stop_refs :: "nat list \<Rightarrow> ClientConnection list \<Rightarrow> ClientConnection list" where
  "stop_refs refs cs = fold (\<lambda>r cs. cs[r := client_stop (cs ! r)]) refs cs"

definition server_stop :: "server_state \<Rightarrow> server_state" where
  "server_stop = (\<lambda>(s, env).
     if \<not> ps_running s then (s, env)
     else (s\<lparr>ps_running := False, accepting := False, conns := stop_refs (clients s) (conns s), clients := []\<rparr>, env))"

datatype accept_result = Accepted | CreationFailed | StartFailed | AcceptAborted | AcceptError

definition add_client :: "PubServer \<Rightarrow> PubServer" where
  "add_client s = s\<lparr>conns := conns s @ [client_start (new_client (ps_auth_token s))], clients := clients s @ [length (conns s)]\<rparr>"

definition count_connection :: "PubServer \<Rightarrow> PubServer" where
  "count_connection s = s\<lparr>pstats := (pstats s)\<lparr>total_connections := total_connections (pstats s) + 1,
     active_connections := of_nat (length (clients s))\<rparr>\<rparr>"

definition on_accept :: "accept_result \<Rightarrow> server_state \<Rightarrow> server_state" where
  "on_accept res = (\<lambda>(s, env).
     if \<not> accepting s then (s, env)
     else let again = (\<lambda>s. s\<lparr>accepting := ps_running s\<rparr>) in
       case res of
         AcceptAborted \<Rightarrow> (s\<lparr>accepting := False\<rparr>, env)
       | AcceptError \<Rightarrow>
           if ps_running s then (again s, bp_count ''publisher_accept_errors_total'' env) else (s\<lparr>accepting := False\<rparr>, env)
       | _ \<Rightarrow>
           if 1000 \<le> length (clients s) then (again s, bp_count ''publisher_connections_rejected_total'' env)
           else if res = Accepted then (again (count_connection (add_client s)), env)
           else (again (if res = StartFailed then add_client s else s), bp_count ''publisher_client_creation_errors_total'' env))"

definition heartbeat_pass :: "(nat \<Rightarrow> u64) \<Rightarrow> server_state \<Rightarrow> server_state" where
  "heartbeat_pass ts = (\<lambda>(s, env).
     if \<not> ps_running s then (s, env)
     else let live = filter (\<lambda>r. authenticated (conns s ! r)) (clients s)
          in (s\<lparr>clients := live,
                conns := fold (\<lambda>r cs. if authenticated (cs ! r) then cs[r := send_heartbeat (ts r) (cs ! r)] else cs) live (conns s),
                pstats := (pstats s)\<lparr>active_connections := of_nat (length live)\<rparr>\<rparr>, env))"

definition add_virtual_topic_prefix :: "string \<Rightarrow> PubServer \<Rightarrow> PubServer" where
  "add_virtual_topic_prefix pre s = s\<lparr>virtual_topic_prefixes := insert pre (virtual_topic_prefixes s)\<rparr>"

definition get_latest_frame :: "string \<Rightarrow> PubServer \<Rightarrow> Frame option" where
  "get_latest_frame topic s = map_of (latest_frames s) topic"

text \<open>\<open>ep\<close> gives the peer's address and port; \<open>None\<close> is the exception of a socket without peer.\<close>

definition get_remote_endpoint :: "(nat \<Rightarrow> (string \<times> u16) option) \<Rightarrow> nat \<Rightarrow> string" where
  "get_remote_endpoint ep r = (case ep r of None \<Rightarrow> ''unknown'' | Some (addr, port) \<Rightarrow> addr @ '':'' @ to_string (unat port))"

definition get_active_clients :: "(nat \<Rightarrow> (string \<times> u16) option) \<Rightarrow> PubServer \<Rightarrow> string list" where
  "get_active_clients ep s = map (get_remote_endpoint ep) (clients s)"

section \<open>Publishing\<close>

definition MAX_CACHED_TOPICS :: nat where
  "MAX_CACHED_TOPICS = 10000"

definition cache_frame :: "string \<Rightarrow> Frame \<Rightarrow> (string \<times> Frame) list \<Rightarrow> (string \<times> Frame) list" where
  "cache_frame topic frame cache =
     (if length cache < MAX_CACHED_TOPICS \<or> map_of cache topic \<noteq> None then AList.update topic frame cache else cache)"

definition wants :: "string \<Rightarrow> ClientConnection \<Rightarrow> bool" where
  "wants topic c \<longleftrightarrow> authenticated c \<and> list_ex (matches_topic topic) (subscriptions c)"

definition subscribed_clients :: "string \<Rightarrow> PubServer \<Rightarrow> nat list" where
  "subscribed_clients topic s = filter (\<lambda>r. wants topic (conns s ! r)) (clients s)"

definition max_depth :: "nat list \<Rightarrow> PubServer \<Rightarrow> nat" where
  "max_depth refs s = fold (\<lambda>r d. max d (unat (get_queue_depth (conns s ! r)))) refs 0"

text \<open>What \<open>publish\<close> holds on its stack while it waits.\<close>

record publication =
  pb_topic :: string
  pb_frame :: Frame
  pb_refs :: "nat list"
  pb_clients :: nat  \<comment> \<open>\<open>clients_snapshot.size()\<close>\<close>
  pb_start :: u64  \<comment> \<open>start of the latency timer\<close>

definition publish_begin :: "string \<Rightarrow> Frame \<Rightarrow> u64 \<Rightarrow> PubServer \<Rightarrow> (publication \<times> PubServer) option" where
  "publish_begin topic frame now s =
     (if \<not> ps_running s then None
      else let s1 = s\<lparr>latest_frames := cache_frame topic frame (latest_frames s)\<rparr>
           in Some (\<lparr>pb_topic = topic, pb_frame = frame, pb_refs = subscribed_clients topic s1,
                     pb_clients = length (clients s1), pb_start = now\<rparr>, s1))"

fun send_to :: "string \<Rightarrow> Frame \<Rightarrow> nat list \<Rightarrow> ClientConnection list \<Rightarrow> ClientConnection list option" where
  "send_to topic frame [] cs = Some cs"
| "send_to topic frame (r # rs) cs =
     (case send_frame topic frame (cs ! r) of None \<Rightarrow> None | Some c \<Rightarrow> send_to topic frame rs (cs[r := c]))"

text \<open>
  The rest of \<open>publish\<close>: \<open>rounds\<close> are the samples of the waiting loop, \<open>elapsed\<close> the seconds since the
  first publication, \<open>now\<close> the end of the timer. \<open>None\<close>: still waiting, or a frame overrunning its buffer.
\<close>

definition publish_end :: "publication \<Rightarrow> (bool \<times> nat) list \<Rightarrow> double \<Rightarrow> u64 \<Rightarrow> server_state \<Rightarrow> server_state option" where
  "publish_end p rounds elapsed now = (\<lambda>(s, env).
     case wait_for_capacity (max_depth (pb_refs p) s) rounds (queue_backpressure s, env) of
       None \<Rightarrow> None
     | Some (_, bp, env1) \<Rightarrow>
         (case send_to (pb_topic p) (pb_frame p) (pb_refs p) (conns s) of
            None \<Rightarrow> None
          | Some cs \<Rightarrow>
              let published = frames_published (pstats s) + 1;
                  env2 = bp_gauge ''publisher_active_clients'' (double_of_nat (pb_clients p))
                           (bp_count ''publisher_frames_published_total'' env1);
                  env3 = (if elapsed > 0 then bp_gauge ''publish_rate'' (ddiv (double_of_nat (unat published)) elapsed) env2 else env2)
              in case timer_destroy \<lparr>metric_name = ''publisher_publish_latency_ns'', start_ns = pb_start p, cancelled = False\<rparr> now (metrics env3) of
                   None \<Rightarrow> None
                 | Some m \<Rightarrow> Some (s\<lparr>conns := cs, queue_backpressure := bp, pstats := (pstats s)\<lparr>frames_published := published\<rparr>\<rparr>,
                                   env3\<lparr>metrics := m\<rparr>)))"

text \<open>The whole call when no other thread changes the server in between.\<close>

definition publish ::
  "string \<Rightarrow> Frame \<Rightarrow> u64 \<Rightarrow> (bool \<times> nat) list \<Rightarrow> double \<Rightarrow> u64 \<Rightarrow> server_state \<Rightarrow> server_state option" where
  "publish topic frame t0 rounds elapsed t1 = (\<lambda>(s, env).
     case publish_begin topic frame t0 s of
       None \<Rightarrow> Some (s, env)
     | Some (p, s1) \<Rightarrow> publish_end p rounds elapsed t1 (s1, env))"

section \<open>The server as a whole\<close>

datatype pub_event =
  EStart
| EStop
| EAccept accept_result
| EReceive nat string
| EReadError nat read_error
| EDequeue nat
| EWrite nat "nat option"
| EHeartbeat "nat \<Rightarrow> u64"
| EAddPrefix string
| EPublishBegin string Frame u64
| EPublishEnd nat "(bool \<times> nat) list" double u64

record pub_sys =
  server :: server_state
  in_flight :: "publication list"

definition on_server :: "(server_state \<Rightarrow> server_state option) \<Rightarrow> pub_sys \<Rightarrow> pub_sys option" where
  "on_server f st = map_option (\<lambda>sv. st\<lparr>server := sv\<rparr>) (f (server st))"

fun pub_exec :: "regex_engine \<Rightarrow> json_parser \<Rightarrow> pub_event \<Rightarrow> pub_sys \<Rightarrow> pub_sys option" where
  "pub_exec rx parse EStart st = on_server (Some \<circ> server_start) st"
| "pub_exec rx parse EStop st = on_server (Some \<circ> server_stop) st"
| "pub_exec rx parse (EAccept res) st = on_server (Some \<circ> on_accept res) st"
| "pub_exec rx parse (EReceive r chunk) st = on_server (on_conn r (Some \<circ> on_data rx parse chunk)) st"
| "pub_exec rx parse (EReadError r ec) st = on_server (on_conn r (Some \<circ> on_read_error ec)) st"
| "pub_exec rx parse (EDequeue r) st = on_server (on_conn r (Some \<circ> dequeue_batch)) st"
| "pub_exec rx parse (EWrite r res) st = on_server (on_conn r (write_next res)) st"
| "pub_exec rx parse (EHeartbeat ts) st = on_server (Some \<circ> heartbeat_pass ts) st"
| "pub_exec rx parse (EAddPrefix pre) st = on_server (\<lambda>(s, env). Some (add_virtual_topic_prefix pre s, env)) st"
| "pub_exec rx parse (EPublishBegin topic frame now) st =
     (case publish_begin topic frame now (fst (server st)) of
        None \<Rightarrow> Some st
      | Some (p, s) \<Rightarrow> Some (st\<lparr>server := (s, snd (server st)), in_flight := in_flight st @ [p]\<rparr>))"
| "pub_exec rx parse (EPublishEnd i rounds elapsed now) st =
     (if i < length (in_flight st)
      then on_server (publish_end (in_flight st ! i) rounds elapsed now)
             (st\<lparr>in_flight := take i (in_flight st) @ drop (Suc i) (in_flight st)\<rparr>)
      else Some st)"

text \<open>The states a server reaches by events that satisfy \<open>ok\<close>.\<close>

inductive pub_reachable :: "regex_engine \<Rightarrow> json_parser \<Rightarrow> (pub_event \<Rightarrow> bool) \<Rightarrow> pub_sys \<Rightarrow> bool"
  for rx :: regex_engine and parse :: json_parser and ok :: "pub_event \<Rightarrow> bool" where
  init: "pub_reachable rx parse ok \<lparr>server = new_server token high low env, in_flight = []\<rparr>"
| step: "pub_reachable rx parse ok st \<Longrightarrow> ok e \<Longrightarrow> pub_exec rx parse e st = Some st' \<Longrightarrow> pub_reachable rx parse ok st'"

text \<open>Runs of the server.\<close>

fun pub_run :: "regex_engine \<Rightarrow> json_parser \<Rightarrow> pub_event list \<Rightarrow> pub_sys \<Rightarrow> pub_sys option" where
  "pub_run rx parse [] st = Some st"
| "pub_run rx parse (e # es) st = (case pub_exec rx parse e st of None \<Rightarrow> None | Some st' \<Rightarrow> pub_run rx parse es st')"

text \<open>Events whose frames satisfy \<open>okf\<close> and whose writes satisfy \<open>okw\<close>.\<close>

fun good_event :: "(Frame \<Rightarrow> bool) \<Rightarrow> (nat option \<Rightarrow> bool) \<Rightarrow> pub_event \<Rightarrow> bool" where
  "good_event okf okw (EPublishBegin topic f now) = okf f"
| "good_event okf okw (EWrite r res) = okw res"
| "good_event okf okw _ = True"

section \<open>Connections of a reachable server\<close>

lemma list_all_update: "(\<forall>x \<in> set xs. P x) \<Longrightarrow> (i < length xs \<Longrightarrow> P y) \<Longrightarrow> \<forall>x \<in> set (xs[i := y]). P x"
  using set_update_subset_insert [of xs i y] by (cases "i < length xs") (auto simp: list_update_beyond)

lemma publish_begin_SomeD:
  "publish_begin topic frame now s = Some (p, s') \<Longrightarrow> ps_running s \<and> s' = s\<lparr>latest_frames := cache_frame topic frame (latest_frames s)\<rparr>
     \<and> pb_topic p = topic \<and> pb_frame p = frame \<and> pb_refs p = subscribed_clients topic s"
  by (auto simp: publish_begin_def Let_def subscribed_clients_def split: if_splits)

lemma publish_end_SomeD:
  assumes "publish_end p rounds elapsed now (s, env) = Some (s', env')"
  shows "send_to (pb_topic p) (pb_frame p) (pb_refs p) (conns s) = Some (conns s') \<and> clients s' = clients s
    \<and> latest_frames s' = latest_frames s \<and> ps_running s' = ps_running s \<and> frames_published (pstats s') = frames_published (pstats s) + 1"
  using assms by (auto simp: publish_end_def Let_def split: option.splits)

context conn_invariant
begin

lemma sent: "send_to topic f refs cs = Some cs' \<Longrightarrow> okf f \<Longrightarrow> \<forall>c \<in> set cs. I c \<Longrightarrow> \<forall>c \<in> set cs'. I c"
proof (induction topic f refs cs rule: send_to.induct)
  case (2 topic f r rs cs)
  then obtain c where c: "send_frame topic f (cs ! r) = Some c" "send_to topic f rs (cs[r := c]) = Some cs'"
    by (auto split: option.splits)
  have "I c" if "r < length cs" using that 2(4) by (intro send [OF _ 2(3) c(1)]) simp
  then have "\<forall>c \<in> set (cs[r := c]). I c" using 2(4) by (intro list_all_update)
  then show ?case using 2(1) c 2(3) by blast
qed simp

lemma stopped: "\<forall>c \<in> set cs. I c \<Longrightarrow> \<forall>c \<in> set (stop_refs refs cs). I c"
  unfolding stop_refs_def
proof (induction refs arbitrary: cs)
  case (Cons r refs)
  have "\<forall>c \<in> set (cs[r := client_stop (cs ! r)]). I c" using Cons.prems by (intro list_all_update) (auto intro: stop)
  then show ?case using Cons.IH by simp
qed simp

lemma heartbeats:
  "\<forall>c \<in> set cs. I c \<Longrightarrow> \<forall>c \<in> set (fold (\<lambda>r cs. if authenticated (cs ! r) then cs[r := send_heartbeat (ts r) (cs ! r)] else cs) refs cs). I c"
proof (induction refs arbitrary: cs)
  case (Cons r refs)
  have "\<forall>c \<in> set (cs[r := send_heartbeat (ts r) (cs ! r)]). I c" using Cons.prems by (intro list_all_update) (auto intro: heartbeat)
  then show ?case using Cons by simp
qed simp

lemma served:
  assumes "on_conn r f (s, env) = Some (s', env')" "\<forall>c \<in> set (conns s). I c"
    and "\<And>c m c' m'. I c \<Longrightarrow> f (c, m) = Some (c', m') \<Longrightarrow> I c'"
  shows "\<forall>c \<in> set (conns s'). I c"
proof (cases "r < length (conns s)")
  case True
  then obtain c m where f: "f (conns s ! r, metrics env) = Some (c, m)" and s': "s' = s\<lparr>conns := (conns s)[r := c]\<rparr>"
    using assms(1) by (auto simp: on_conn_def split: option.splits)
  have "I c" using True assms(2) by (intro assms(3) [OF _ f]) simp
  then show ?thesis using s' list_all_update [OF assms(2), of r c] by simp
qed (use assms(1,2) in \<open>auto simp: on_conn_def\<close>)

lemma accepted: "\<forall>c \<in> set (conns s). I c \<Longrightarrow> \<forall>c \<in> set (conns (fst (on_accept res (s, env)))). I c"
  by (cases res) (simp_all add: on_accept_def add_client_def count_connection_def Let_def fresh)

end

definition all_hold :: "(ClientConnection \<Rightarrow> bool) \<Rightarrow> (Frame \<Rightarrow> bool) \<Rightarrow> pub_sys \<Rightarrow> bool" where
  "all_hold I okf st \<longleftrightarrow> (\<forall>c \<in> set (conns (fst (server st))). I c) \<and> (\<forall>p \<in> set (in_flight st). okf (pb_frame p))"

lemma on_server_SomeD: "on_server f st = Some st' \<Longrightarrow> f (server st) = Some (server st') \<and> in_flight st' = in_flight st"
  by (auto simp: on_server_def)

definition keeps_conns :: "(ClientConnection \<Rightarrow> bool) \<Rightarrow> (server_state \<Rightarrow> server_state option) \<Rightarrow> bool" where
  "keeps_conns I f \<longleftrightarrow> (\<forall>s env s' env'. (\<forall>c \<in> set (conns s). I c) \<longrightarrow> f (s, env) = Some (s', env') \<longrightarrow> (\<forall>c \<in> set (conns s'). I c))"

lemma keeps_connsI:
  "(\<And>s env s' env'. \<forall>c \<in> set (conns s). I c \<Longrightarrow> f (s, env) = Some (s', env') \<Longrightarrow> \<forall>c \<in> set (conns s'). I c) \<Longrightarrow> keeps_conns I f"
  unfolding keeps_conns_def by blast

lemma on_server_keeps:
  assumes "keeps_conns I f" "all_hold I okf st" "on_server f st = Some st'"
  shows "all_hold I okf st'"
proof -
  obtain s env s' env' where sv: "server st = (s, env)" "server st' = (s', env')" by fastforce
  then have "f (s, env) = Some (s', env')" "in_flight st' = in_flight st" using on_server_SomeD [OF assms(3)] by simp_all
  then show ?thesis using assms(1,2) sv unfolding keeps_conns_def all_hold_def by (metis fst_conv)
qed

context conn_invariant
begin

lemma keeps_on_conn:
  assumes "\<And>c m c' m'. I c \<Longrightarrow> f (c, m) = Some (c', m') \<Longrightarrow> I c'"
  shows "keeps_conns I (on_conn r f)"
  by (rule keeps_connsI, rule served) (assumption, assumption, rule assms)

lemma keeps_on_conn_total:
  assumes "\<And>c m. I c \<Longrightarrow> I (fst (g (c, m)))"
  shows "keeps_conns I (on_conn r (Some \<circ> g))"
proof (rule keeps_on_conn)
  show "I c \<Longrightarrow> (Some \<circ> g) (c, m) = Some (c', m') \<Longrightarrow> I c'" for c m c' m'
    using assms [of c m] by simp
qed

lemma keeps_start: "keeps_conns I (Some \<circ> server_start)"
  by (rule keeps_connsI) (auto simp: server_start_def split: if_splits)

lemma keeps_stop: "keeps_conns I (Some \<circ> server_stop)"
  by (rule keeps_connsI) (use stopped in \<open>auto simp: server_stop_def split: if_splits\<close>)

lemma keeps_accept: "keeps_conns I (Some \<circ> on_accept res)"
proof (rule keeps_connsI)
  fix s env s' env'
  assume "\<forall>c \<in> set (conns s). I c" "(Some \<circ> on_accept res) (s, env) = Some (s', env')"
  then show "\<forall>c \<in> set (conns s'). I c" using accepted [of s res env] by simp
qed

lemma keeps_heartbeat: "keeps_conns I (Some \<circ> heartbeat_pass ts)"
proof (rule keeps_connsI)
  fix s env s' env'
  assume "\<forall>c \<in> set (conns s). I c" "(Some \<circ> heartbeat_pass ts) (s, env) = Some (s', env')"
  then show "\<forall>c \<in> set (conns s'). I c"
    using heartbeats [of "conns s" ts "filter (\<lambda>r. authenticated (conns s ! r)) (clients s)"]
    by (auto simp: heartbeat_pass_def Let_def split: if_splits)
qed

lemma keeps_prefix: "keeps_conns I (\<lambda>(s, env). Some (add_virtual_topic_prefix pre s, env))"
  by (rule keeps_connsI) (auto simp: add_virtual_topic_prefix_def)

lemma keeps_publish_end: "okf (pb_frame p) \<Longrightarrow> keeps_conns I (publish_end p rounds elapsed now)"
  by (rule keeps_connsI) (use sent publish_end_SomeD in blast)

lemma keeps_receive: "keeps_conns I (on_conn r (Some \<circ> on_data rx parse chunk))"
  by (rule keeps_on_conn_total) (rule received)

lemma keeps_read_error: "keeps_conns I (on_conn r (Some \<circ> on_read_error ec))"
  by (rule keeps_on_conn_total) (rule read_failed)

lemma keeps_dequeue: "keeps_conns I (on_conn r (Some \<circ> dequeue_batch))"
  by (rule keeps_on_conn_total) (rule dequeue)

lemma keeps_write: "okw res \<Longrightarrow> keeps_conns I (on_conn r (write_next res))"
  by (rule keeps_on_conn) (rule written)

lemmas keeps = keeps_start keeps_stop keeps_accept keeps_heartbeat keeps_prefix keeps_receive keeps_read_error keeps_dequeue keeps_write

lemma all_hold_step:
  assumes "all_hold I okf st" "good_event okf okw e" "pub_exec rx parse e st = Some st'"
  shows "all_hold I okf st'"
proof (cases e)
  case (EPublishBegin topic f now)
  then show ?thesis using assms by (auto simp: all_hold_def split: option.splits dest!: publish_begin_SomeD)
next
  case (EWrite r res)
  then show ?thesis using assms by (simp add: on_server_keeps [OF keeps_write])
next
  case (EPublishEnd i rounds elapsed now)
  show ?thesis
  proof (cases "i < length (in_flight st)")
    case True
    let ?st = "st\<lparr>in_flight := take i (in_flight st) @ drop (Suc i) (in_flight st)\<rparr>"
    have "all_hold I okf ?st" using assms(1) by (auto simp: all_hold_def dest: in_set_takeD in_set_dropD)
    moreover have "okf (pb_frame (in_flight st ! i))" using assms(1) True by (simp add: all_hold_def)
    ultimately show ?thesis using assms(3) EPublishEnd True by (auto intro: on_server_keeps [OF keeps_publish_end])
  qed (use assms EPublishEnd in auto)
qed (use assms(1,3) on_server_keeps in \<open>force intro: keeps\<close>)+

lemma all_hold_reachable: "pub_reachable rx parse (good_event okf okw) st \<Longrightarrow> all_hold I okf st"
proof (induction rule: pub_reachable.induct)
  case (init token high low env)
  show ?case by (simp add: all_hold_def new_server_def case_prod_beta)
qed (rule all_hold_step)

end

section \<open>Bounds of a reachable server\<close>

definition server_ok :: "PubServer \<Rightarrow> bool" where
  "server_ok s \<longleftrightarrow> length (clients s) \<le> 1000 \<and> distinct (clients s) \<and> (\<forall>r \<in> set (clients s). r < length (conns s))
     \<and> length (latest_frames s) \<le> MAX_CACHED_TOPICS \<and> distinct (map fst (latest_frames s))"

text \<open>What one operation may do to the clients: connections are never freed, and only new ones enter the list.\<close>

definition clients_step :: "PubServer \<Rightarrow> PubServer \<Rightarrow> bool" where
  "clients_step s s' \<longleftrightarrow> length (conns s) \<le> length (conns s') \<and> (\<forall>r < length (conns s). r \<in> set (clients s') \<longrightarrow> r \<in> set (clients s))"

lemma length_stop_refs [simp]: "length (stop_refs refs cs) = length cs"
  unfolding stop_refs_def by (induction refs arbitrary: cs) simp_all

lemma length_heartbeats [simp]: "length (fold (\<lambda>r cs. if P r cs then cs[r := f r cs] else cs) refs cs) = length cs"
  by (induction refs arbitrary: cs) simp_all

lemma length_send_to: "send_to topic f refs cs = Some cs' \<Longrightarrow> length cs' = length cs"
  by (induction topic f refs cs rule: send_to.induct) (auto split: option.splits)

lemma length_on_conn: "on_conn r f (s, env) = Some (s', env')
  \<Longrightarrow> length (conns s') = length (conns s) \<and> clients s' = clients s \<and> latest_frames s' = latest_frames s"
  by (auto simp: on_conn_def split: option.splits if_splits)

lemma cache_frame_bound: "length cache \<le> MAX_CACHED_TOPICS \<Longrightarrow> length (cache_frame topic f cache) \<le> MAX_CACHED_TOPICS"
proof -
  assume "length cache \<le> MAX_CACHED_TOPICS"
  moreover have "length (AList.update topic f cache) = (if topic \<in> fst ` set cache then length cache else Suc (length cache))"
    by (induction cache) auto
  ultimately show ?thesis by (auto simp: cache_frame_def map_of_eq_None_iff)
qed

lemma cache_frame_distinct: "distinct (map fst cache) \<Longrightarrow> distinct (map fst (cache_frame topic f cache))"
  by (simp add: cache_frame_def distinct_update)

definition safe_op :: "(server_state \<Rightarrow> server_state option) \<Rightarrow> bool" where
  "safe_op f \<longleftrightarrow> (\<forall>s env s' env'. server_ok s \<longrightarrow> f (s, env) = Some (s', env') \<longrightarrow> server_ok s' \<and> clients_step s s')"

lemma safe_start: "safe_op (Some \<circ> server_start)"
  by (auto simp: safe_op_def server_start_def server_ok_def clients_step_def)

lemma safe_stop: "safe_op (Some \<circ> server_stop)"
  by (auto simp: safe_op_def server_stop_def server_ok_def clients_step_def)

lemma safe_accept: "safe_op (Some \<circ> on_accept res)"
  by (cases res) (auto simp: safe_op_def on_accept_def add_client_def count_connection_def server_ok_def clients_step_def Let_def split: if_splits)

lemma safe_heartbeat: "safe_op (Some \<circ> heartbeat_pass ts)"
  by (auto simp: safe_op_def heartbeat_pass_def server_ok_def clients_step_def Let_def intro: le_trans [OF length_filter_le])

lemma safe_prefix: "safe_op (\<lambda>(s, env). Some (add_virtual_topic_prefix pre s, env))"
  by (auto simp: safe_op_def add_virtual_topic_prefix_def server_ok_def clients_step_def)

lemma safe_on_conn: "safe_op (on_conn r f)"
  by (auto simp: safe_op_def server_ok_def clients_step_def dest!: length_on_conn)

lemma safe_publish_end: "safe_op (publish_end p rounds elapsed now)"
  by (auto simp: safe_op_def server_ok_def clients_step_def dest!: publish_end_SomeD length_send_to)

lemmas safe_ops = safe_start safe_stop safe_accept safe_heartbeat safe_prefix safe_on_conn safe_publish_end

lemma publish_begin_safe: "server_ok s \<Longrightarrow> publish_begin topic f now s = Some (p, s') \<Longrightarrow> server_ok s' \<and> clients_step s s'"
  by (auto simp: server_ok_def clients_step_def cache_frame_bound cache_frame_distinct dest!: publish_begin_SomeD)

lemma on_server_safe:
  assumes "safe_op f" "server_ok (fst (server st))" "on_server f st = Some st'"
  shows "server_ok (fst (server st')) \<and> clients_step (fst (server st)) (fst (server st'))"
  using on_server_SomeD [OF assms(3)] assms(1,2) unfolding safe_op_def by (metis prod.collapse)

lemma pub_exec_safe:
  assumes "server_ok (fst (server st))" "pub_exec rx parse e st = Some st'"
  shows "server_ok (fst (server st')) \<and> clients_step (fst (server st)) (fst (server st'))"
proof (cases e)
  case (EPublishBegin topic f now)
  then show ?thesis using assms by (auto simp: clients_step_def split: option.splits dest: publish_begin_safe)
next
  case (EPublishEnd i rounds elapsed now)
  then show ?thesis using assms on_server_safe [OF safe_publish_end, of "st\<lparr>in_flight := take i (in_flight st) @ drop (Suc i) (in_flight st)\<rparr>"]
    by (auto simp: clients_step_def split: if_splits)
qed (use assms on_server_safe in \<open>force intro: safe_ops\<close>)+

lemma server_ok_reachable: "pub_reachable rx parse ok st \<Longrightarrow> server_ok (fst (server st))"
proof (induction rule: pub_reachable.induct)
  case (init token high low env)
  show ?case by (simp add: server_ok_def new_server_def case_prod_beta)
qed (simp add: pub_exec_safe)

lemma reachable_run:
  "pub_reachable rx parse ok st \<Longrightarrow> list_all ok es \<Longrightarrow> pub_run rx parse es st = Some st' \<Longrightarrow> pub_reachable rx parse ok st'"
  by (induction es arbitrary: st) (auto split: option.splits intro: pub_reachable.step)

lemma pub_run_clients_step:
  "server_ok (fst (server st)) \<Longrightarrow> pub_run rx parse es st = Some st' \<Longrightarrow> clients_step (fst (server st)) (fst (server st'))"
proof (induction es arbitrary: st)
  case (Cons e es)
  then obtain st1 where e: "pub_exec rx parse e st = Some st1" "pub_run rx parse es st1 = Some st'" by (auto split: option.splits)
  from pub_exec_safe [OF Cons.prems(1) e(1)] Cons.IH [OF _ e(2)] show ?case by (auto simp: clients_step_def)
qed (simp add: clients_step_def)

section \<open>Delivery\<close>

lemma send_to_spec:
  assumes "wf_frame f" "distinct refs" "\<forall>r \<in> set refs. r < length cs"
  shows "\<exists>cs'. send_to topic f refs cs = Some cs' \<and> length cs' = length cs \<and> (\<forall>r < length cs. cs' ! r =
    (if r \<in> set refs \<and> c_running (cs ! r) \<and> authenticated (cs ! r)
     then (cs ! r)\<lparr>send_queue := send_queue (cs ! r) @ [(topic, frame_bytes f)]\<rparr> else cs ! r))"
  using assms(2,3)
proof (induction refs arbitrary: cs)
  case (Cons r refs)
  obtain c where c: "send_frame topic f (cs ! r) = Some c"
    "c = (if c_running (cs ! r) \<and> authenticated (cs ! r) then (cs ! r)\<lparr>send_queue := send_queue (cs ! r) @ [(topic, frame_bytes f)]\<rparr> else cs ! r)"
    using send_frame_wf [OF assms(1)] by simp
  have "\<forall>r' \<in> set refs. r' < length (cs[r := c])" "distinct refs" using Cons.prems by simp_all
  from Cons.IH [OF this(2,1)] obtain cs' where cs': "send_to topic f refs (cs[r := c]) = Some cs'" "length cs' = length cs"
    "\<forall>q < length cs. cs' ! q = (if q \<in> set refs \<and> c_running (cs[r := c] ! q) \<and> authenticated (cs[r := c] ! q)
       then (cs[r := c] ! q)\<lparr>send_queue := send_queue (cs[r := c] ! q) @ [(topic, frame_bytes f)]\<rparr> else cs[r := c] ! q)"
    by auto
  show ?case
    using cs' c Cons.prems by (intro exI [of _ cs']) (auto simp: nth_list_update)
qed simp

lemma metrics_ok_bp [simp]: "metrics_ok (metrics (bp_gauge n v env)) = metrics_ok (metrics env)" "metrics_ok (metrics (bp_count n env)) = metrics_ok (metrics env)"
  by (simp_all add: bp_gauge_def bp_count_def)

lemma record_latency_not_None: "metrics_ok m \<Longrightarrow> record_latency n x m \<noteq> None"
  using record_latency_returns [of m n x] by auto

lemma publish_end_returns:
  assumes "below_high (queue_backpressure s) (max_depth (pb_refs p) s)" "metrics_ok (metrics env)" "wf_frame (pb_frame p)"
    "distinct (pb_refs p)" "\<forall>r \<in> set (pb_refs p). r < length (conns s)"
  shows "publish_end p rounds elapsed now (s, env) \<noteq> None"
proof -
  obtain cs where cs: "send_to (pb_topic p) (pb_frame p) (pb_refs p) (conns s) = Some cs" using send_to_spec [OF assms(3-5)] by blast
  let ?d = "max_depth (pb_refs p) s"
  obtain env1 where e: "wait_for_capacity ?d rounds (queue_backpressure s, env) = Some (?d, queue_backpressure s, env1)"
    and m: "metrics_ok (metrics env1)"
    using assms(1,2) by (auto simp: wait_for_capacity_def Let_def)
  show ?thesis
    unfolding publish_end_def timer_destroy_def
    using m by (cases "elapsed > 0") (simp_all add: e cs Let_def record_latency_not_None split: option.split)
qed

lemma subscribed_clients_ok:
  "server_ok s \<Longrightarrow> distinct (subscribed_clients topic s) \<and> (\<forall>r \<in> set (subscribed_clients topic s). r < length (conns s))"
  by (auto simp: server_ok_def subscribed_clients_def)

lemma get_latest_cache:
  "map_of (cache_frame topic f cache) t =
     (if t = topic \<and> (length cache < MAX_CACHED_TOPICS \<or> map_of cache topic \<noteq> None) then Some f else map_of cache t)"
  by (simp add: cache_frame_def update_conv')

section \<open>Properties\<close>


definition example_bp_env :: bp_env where
  "example_bp_env = \<lparr>metrics = no_metrics, active_queue_count = 0\<rparr>"

definition example_subscription :: TopicSubscription where
  "example_subscription = \<lparr>pattern = ''trade.BTC'', is_wildcard = False, compiled_regex = (\<lambda>_. False), lossless = False\<rparr>"

definition example_server :: PubServer where
  "example_server = (fst (new_server ''secret'' 100 50 example_bp_env))
     \<lparr>ps_running := True, clients := [0, 1],
      conns := [(client_start (new_client ''secret''))\<lparr>authenticated := True, subscriptions := [example_subscription]\<rparr>,
                client_start (new_client ''secret'')]\<rparr>"


text \<open>
  C6: access control. In every reachable state of the server, whatever clients send, a connection that
  has not authenticated has no subscriptions, nothing queued for it and nothing written to it.
\<close>

theorem unauthenticated_gets_nothing:
  assumes "pub_reachable rx parse (\<lambda>_. True) st" "c \<in> set (conns (fst (server st)))" "\<not> authenticated c"
  shows "subscriptions c = [] \<and> send_queue c = [] \<and> frames_batch c = [] \<and> wire c = []"
proof -
  have "good_event (\<lambda>_. True) (\<lambda>_. True) = (\<lambda>_. True)" by (rule ext, rename_tac e, case_tac e) simp_all
  then have "all_hold conn_ok (\<lambda>_. True) st" using access.all_hold_reachable assms(1) by metis
  then show ?thesis using assms(2,3) by (auto simp: all_hold_def conn_ok_def)
qed

text \<open>
  C27: bounds. In every reachable state the server has at most 1000 clients, all of them different and
  live, and caches the latest frame of at most 10000 topics, each once.
\<close>

theorem server_bounds:
  assumes "pub_reachable rx parse ok st"
  shows "let s = fst (server st) in length (clients s) \<le> 1000 \<and> distinct (clients s) \<and> (\<forall>r \<in> set (clients s). r < length (conns s))
    \<and> length (latest_frames s) \<le> 10000 \<and> distinct (map fst (latest_frames s))"
  using server_ok_reachable [OF assms] by (simp add: server_ok_def Let_def MAX_CACHED_TOPICS_def)

text \<open>
  C28: the byte stream. As long as writes succeed and the published frames are well formed, what has
  been written to a connection is a sequence of whole encoded frames, as many as \<open>frames_sent\<close> counts,
  and everything that waits in its queue is an encoded frame.
\<close>

theorem wire_is_frame_stream:
  assumes "pub_reachable rx parse (good_event wf_frame (\<lambda>res. res = None)) st" "c \<in> set (conns (fst (server st)))"
  shows "(\<exists>fs. (\<forall>f \<in> set fs. wf_frame f) \<and> wire c = concat (map frame_bytes fs) \<and> of_nat (length fs) = frames_sent c)
    \<and> (\<forall>(topic, data) \<in> set (frames_batch c @ send_queue c). \<exists>f. wf_frame f \<and> data = frame_bytes f)"
proof -
  have "framed c" using stream.all_hold_reachable [OF assms(1)] assms(2) by (simp add: all_hold_def)
  then show ?thesis by (auto simp: framed_def frame_stream_def encodings_def)
qed

definition example_start :: pub_sys where
  "example_start = \<lparr>server = new_server ''secret'' 100 50 example_bp_env, in_flight = []\<rparr>"

definition login_line :: string where
  "login_line = ''login'' @ [newline]"

definition example_events :: "pub_event list" where
  "example_events = [EStart, EAccept Accepted, EAccept Accepted, EReceive 0 login_line, EDequeue 0, EWrite 0 None]"

lemma login_accepted:
  "process_control_message rx login_parser ''login'' (client_start (new_client ''secret''), m)
   = ((client_start (new_client ''secret''))\<lparr>authenticated := True, send_queue := [(''control'', frame_bytes (ack_frame 200))]\<rparr>, m)"
  by (simp add: process_control_message_def login_parser_def json_value_def handle_auth_def send_control_ack_eq client_start_def new_client_def)

lemma fresh_fields [simp]:
  "c_running (client_start (new_client t))" "read_buffer (client_start (new_client t)) = []" "frames_batch (client_start (new_client t)) = []"
  by (simp_all add: client_start_def new_client_def)

lemma example_login:
  "on_data rx login_parser login_line (client_start (new_client ''secret''), m)
   = ((client_start (new_client ''secret''))\<lparr>authenticated := True, send_queue := [(''control'', frame_bytes (ack_frame 200))]\<rparr>, m)"
  unfolding login_line_def by (subst on_data_message) (simp_all add: login_accepted newline_def)

lemma example_run:
  "\<exists>st. pub_run (\<lambda>_. None) login_parser example_events example_start = Some st
     \<and> conns (fst (server st)) = [(client_start (new_client ''secret''))\<lparr>authenticated := True, dequeued := 1,
          wire := frame_bytes (ack_frame 200), frames_sent := 1\<rparr>, client_start (new_client ''secret'')]
     \<and> clients (fst (server st)) = [0, 1] \<and> ps_running (fst (server st)) \<and> in_flight st = []"
  unfolding example_events_def example_start_def
  by (simp add: new_server_def case_prod_beta on_server_def server_start_def on_accept_def add_client_def count_connection_def
      on_conn_def example_login dequeue_batch_def write_next_def batch_done_def)
    (simp add: client_start_def new_client_def)

lemma example_reachable: "list_all ok example_events \<Longrightarrow> pub_run rx parse example_events example_start = Some st \<Longrightarrow> pub_reachable rx parse ok st"
  unfolding example_start_def by (rule reachable_run [OF pub_reachable.init])

theorem unauthenticated_gets_nothing_witness:
  "\<exists>st c. pub_reachable (\<lambda>_. None) login_parser (\<lambda>_. True) st \<and> c \<in> set (conns (fst (server st))) \<and> \<not> authenticated c \<and> wire c = []"
proof -
  obtain st where st: "pub_run (\<lambda>_. None) login_parser example_events example_start = Some st"
    and c: "client_start (new_client ''secret'') \<in> set (conns (fst (server st)))"
    using example_run by auto
  have r: "pub_reachable (\<lambda>_. None) login_parser (\<lambda>_. True) st" using st by (rule example_reachable [rotated]) (simp add: example_events_def)
  have a: "\<not> authenticated (client_start (new_client ''secret''))" by (simp add: client_start_def new_client_def)
  show ?thesis using unauthenticated_gets_nothing [OF r c a] r c a by blast
qed

theorem server_bounds_witness:
  "\<exists>st. pub_reachable (\<lambda>_. None) login_parser (\<lambda>_. True) st \<and> clients (fst (server st)) = [0, 1] \<and> length (clients (fst (server st))) \<le> 1000"
proof -
  obtain st where st: "pub_run (\<lambda>_. None) login_parser example_events example_start = Some st" "clients (fst (server st)) = [0, 1]"
    using example_run by auto
  have r: "pub_reachable (\<lambda>_. None) login_parser (\<lambda>_. True) st" using st(1) by (rule example_reachable [rotated]) (simp add: example_events_def)
  show ?thesis using server_bounds [OF r] r st(2) by (auto simp: Let_def)
qed

theorem wire_is_frame_stream_witness:
  "\<exists>st c fs. pub_reachable (\<lambda>_. None) login_parser (good_event wf_frame (\<lambda>res. res = None)) st \<and> c \<in> set (conns (fst (server st)))
     \<and> wire c = frame_bytes (ack_frame 200) \<and> wire c = concat (map frame_bytes fs) \<and> of_nat (length fs) = frames_sent c"
proof -
  obtain st c where st: "pub_run (\<lambda>_. None) login_parser example_events example_start = Some st"
    and c: "c \<in> set (conns (fst (server st)))" "wire c = frame_bytes (ack_frame 200)"
    using example_run by fastforce
  have r: "pub_reachable (\<lambda>_. None) login_parser (good_event wf_frame (\<lambda>res. res = None)) st"
    using st by (rule example_reachable [rotated]) (simp add: example_events_def)
  show ?thesis using wire_is_frame_stream [OF r c(1)] r c by blast
qed

text \<open>
  A client that has not authenticated when a heartbeat pass runs is dropped for good: whatever
  happens afterwards, even a successful authentication, it is never again among the clients, so no
  publication or heartbeat reaches it.
\<close>

theorem late_client_is_dropped:
  assumes "pub_reachable rx parse ok st" "ps_running (fst (server st))" "r < length (conns (fst (server st)))"
    "\<not> authenticated (conns (fst (server st)) ! r)" "pub_run rx parse (EHeartbeat ts # es) st = Some st'"
  shows "r \<notin> set (clients (fst (server st')))"
proof -
  obtain st1 where st1: "pub_exec rx parse (EHeartbeat ts) st = Some st1" "pub_run rx parse es st1 = Some st'"
    using assms(5) by (auto split: option.splits)
  have "r \<notin> set (clients (fst (server st1)))" "length (conns (fst (server st1))) = length (conns (fst (server st)))"
    using st1(1) assms(2-4) by (auto simp: on_server_def heartbeat_pass_def Let_def split: prod.splits)
  moreover have "server_ok (fst (server st1))" using pub_exec_safe [OF server_ok_reachable [OF assms(1)] st1(1)] by simp
  ultimately show ?thesis using pub_run_clients_step [OF _ st1(2)] assms(3) by (auto simp: clients_step_def)
qed

theorem late_client_is_dropped_witness:
  "\<exists>st st'. pub_run (\<lambda>_. None) login_parser (EHeartbeat (\<lambda>_. 0) # [EReceive 1 login_line]) st = Some st' \<and> 1 \<notin> set (clients (fst (server st')))
     \<and> authenticated (conns (fst (server st')) ! 1)"
proof -
  obtain st where st: "pub_run (\<lambda>_. None) login_parser example_events example_start = Some st" "ps_running (fst (server st))"
    and c: "conns (fst (server st)) = [(client_start (new_client ''secret''))\<lparr>authenticated := True, dequeued := 1,
          wire := frame_bytes (ack_frame 200), frames_sent := 1\<rparr>, client_start (new_client ''secret'')]" "clients (fst (server st)) = [0, 1]"
    using example_run by auto
  have r: "pub_reachable (\<lambda>_. None) login_parser (\<lambda>_. True) st" using st(1) by (rule example_reachable [rotated]) (simp add: example_events_def)
  have a: "\<not> authenticated (client_start (new_client ''secret''))" by (simp add: client_start_def new_client_def)
  obtain s env where [simp]: "server st = (s, env)" by fastforce
  obtain st' where st': "pub_run (\<lambda>_. None) login_parser (EHeartbeat (\<lambda>_. 0) # [EReceive 1 login_line]) st = Some st'"
    "authenticated (conns (fst (server st')) ! 1)"
    using c st(2) a by (auto simp: on_server_def heartbeat_pass_def Let_def on_conn_def example_login)
  show ?thesis using late_client_is_dropped [OF r st(2) _ _ st'(1), of 1] c a st' by auto
qed

end
