(* ===== verification/Replayer.thy ===== *)
theory Replayer
  imports Ifstream Symbol_Registry Pub_Server "HOL-Library.List_Lexorder" "HOL-Library.Char_ord"
begin

text \<open>
  \<open>Replayer\<close> of \<open>src/replay\<close>: sessions that read recorded segments, from the first file that
  intersects the requested range on, and publish their frames under a virtual topic. Inputs are the
  readable files, the directory listing, the digits of the session id, the outcome of the race between
  the playback thread and the registration of its session, and the clock readings.
\<close>

section \<open>State\<close>

record ReplaySession =
  session_id :: string
  rs_start_ts_ns :: u64
  rs_end_ts_ns :: u64
  rate_multiplier :: double
  topics :: "string list"
  rs_running :: bool
  paused :: bool
  current_ts_ns :: u64
  rs_frames_sent :: u64
  rs_mdf_file :: ifstream
  rs_idx_file :: ifstream
  mdf_path :: path
  idx_path :: path
  mdf_paths :: "path list"
  idx_paths :: "path list"
  current_file_index :: nat
  in_playback :: bool  \<comment> \<open>the playback thread is in its loop\<close>
  first_timestamp_ns :: "u64 option"  \<comment> \<open>local to the playback thread\<close>
  target_wall_ns :: u64  \<comment> \<open>the last wake-up time, after \<open>wall_start\<close>\<close>

record ReplayStats =
  total_sessions :: u64
  active_sessions :: u64
  total_frames_replayed :: u64

record Replayer =
  data_dir :: string
  rp_registry :: "SymbolRegistry option"
  sessions :: "(string \<times> ReplaySession) list"
  rp_stats :: ReplayStats

definition new_replayer :: "string \<Rightarrow> SymbolRegistry option \<Rightarrow> Replayer" where
  "new_replayer dir sr = \<lparr>data_dir = dir, rp_registry = sr, sessions = [],
     rp_stats = \<lparr>total_sessions = 0, active_sessions = 0, total_frames_replayed = 0\<rparr>\<rparr>"

section \<open>Finding files\<close>

text \<open>\<open>path::extension\<close> of a file name: from its last dot, unless that is its first character.\<close>

definition filename :: "path \<Rightarrow> string" where
  "filename p = rev (takeWhile (\<lambda>c. c \<noteq> CHR ''/'') (rev p))"

definition extension :: "path \<Rightarrow> string" where
  "extension p = (let stem = rev (dropWhile (\<lambda>c. c \<noteq> CHR ''.'') (rev (filename p)))
     in if length stem \<le> 1 then [] else drop (length stem - 1) (filename p))"

definition idx_of :: "path \<Rightarrow> path" where
  "idx_of p = take (length p - 4) p @ ''.idx''"

definition in_range :: "u64 \<Rightarrow> u64 \<Rightarrow> MdfHeader \<Rightarrow> bool" where
  "in_range from_ts to_ts h \<longleftrightarrow> \<not> (mdf_end_ts_ns h < from_ts \<or> mdf_start_ts_ns h > to_ts)"

definition candidate :: "files \<Rightarrow> u64 \<Rightarrow> u64 \<Rightarrow> path \<Rightarrow> bool" where
  "candidate dk from_ts to_ts p \<longleftrightarrow> extension p = ''.mdf'' \<and> dk (idx_of p) \<noteq> None \<and>
     (let (bs, f) = ifs_read dk sizeof_MdfHeader (ifs_open dk p); h = MdfHeader_of bs
      in if_open f \<and> gcount f = sizeof_MdfHeader \<and> mdf_magic h = 0x4D444649 \<and> mdf_version h = 1 \<and> in_range from_ts to_ts h)"

text \<open>\<open>listing\<close> has the regular files of the data directory; \<open>None\<close> is an exception of the iteration.\<close>

definition find_files_for_range :: "files \<Rightarrow> path list option \<Rightarrow> u64 \<Rightarrow> u64 \<Rightarrow> (path list \<times> path list) option" where
  "find_files_for_range dk listing from_ts to_ts = (case listing of
     None \<Rightarrow> None
   | Some ps \<Rightarrow> let mdfs = sort (filter (candidate dk from_ts to_ts) ps)
                in if mdfs = [] then None else Some (mdfs, map idx_of mdfs))"

section \<open>Seeking\<close>

text \<open>\<open>std::lower_bound\<close> over the predicate ``before the target'': halving of \<open>[first, first + len)\<close>.\<close>

function lower_bound :: "('a \<Rightarrow> bool) \<Rightarrow> 'a list \<Rightarrow> nat \<Rightarrow> nat \<Rightarrow> nat" where
  "lower_bound P xs first len =
     (if len = 0 then first
      else let half = len div 2; middle = first + half
           in if P (xs ! middle) then lower_bound P xs (middle + 1) (len - half - 1)
              else lower_bound P xs first half)"
  by pat_completeness auto
termination
  by (relation "measure (\<lambda>(P, xs, first, len). len)") auto

declare lower_bound.simps [simp del]

primrec index_entries :: "nat \<Rightarrow> byte list \<Rightarrow> IndexEntry list" where
  "index_entries 0 bs = []"
| "index_entries (Suc n) bs = IndexEntry_of (take sizeof_IndexEntry bs) # index_entries n (drop sizeof_IndexEntry bs)"

text \<open>
  An index that cannot be opened gives \<open>tellg\<close> = -1, and the vector of so many entries throws. An index
  whose size is not a multiple of the entry size is read past the end of the vector. Both are errors.
\<close>

datatype seek_error = IndexLengthError | IndexOverrun

definition seek_to_timestamp :: "files \<Rightarrow> u64 \<Rightarrow> ReplaySession \<Rightarrow> seek_error + (bool \<times> ReplaySession)" where
  "seek_to_timestamp dk target s =
     (let idx1 = ifs_seek_end dk (rs_idx_file s) in
      case ifs_tell idx1 of
        None \<Rightarrow> Inl IndexLengthError
      | Some idx_size \<Rightarrow>
          let num_entries = idx_size div sizeof_IndexEntry in
          if num_entries = 0
          then Inr (True, s\<lparr>rs_idx_file := idx1, rs_mdf_file := ifs_seek (of_nat sizeof_MdfHeader) (rs_mdf_file s)\<rparr>)
          else if idx_size mod sizeof_IndexEntry \<noteq> 0 then Inl IndexOverrun
          else let (bs, idx2) = ifs_read dk idx_size (ifs_seek 0 idx1);
                   entries = index_entries num_entries (resize idx_size bs);
                   it = lower_bound (\<lambda>e. ts_ns_first e < target) entries 0 num_entries;
                   mdf = ifs_seek (if it = 0 then of_nat sizeof_MdfHeader else file_offset (entries ! (it - 1))) (rs_mdf_file s)
               in Inr (ifs_good mdf, s\<lparr>rs_idx_file := idx2, rs_mdf_file := mdf\<rparr>))"

section \<open>Reading\<close>

definition next_file :: "files \<Rightarrow> ReplaySession \<Rightarrow> ReplaySession" where
  "next_file dk s = (let i = current_file_index s + 1 in
     s\<lparr>current_file_index := i, mdf_path := mdf_paths s ! i, idx_path := idx_paths s ! i,
       rs_mdf_file := ifs_open dk (mdf_paths s ! i), rs_idx_file := ifs_open dk (idx_paths s ! i)\<rparr>)"

definition at_first_frame :: "ReplaySession \<Rightarrow> ReplaySession" where
  "at_first_frame s = s\<lparr>rs_mdf_file := ifs_seek (of_nat sizeof_MdfHeader) (rs_mdf_file s)\<rparr>"

definition read_body :: "files \<Rightarrow> byte list \<Rightarrow> ReplaySession \<Rightarrow> Frame option \<times> ReplaySession" where
  "read_body dk hb s =
     (let hdr = FrameHeader_of hb in
      if fh_magic hdr \<noteq> 0x4D444146 \<or> fh_version hdr \<noteq> 1 then (None, s)
      else let body_len = unat (fh_body_len hdr); (bs, f) = ifs_read dk body_len (rs_mdf_file s); s1 = s\<lparr>rs_mdf_file := f\<rparr>
           in if gcount f \<noteq> body_len then (None, s1) else (decode_frame (hb @ bs), s1))"

function read_next_frame :: "files \<Rightarrow> ReplaySession \<Rightarrow> Frame option \<times> ReplaySession" where
  "read_next_frame dk s =
     (if \<not> ifs_good (rs_mdf_file s) then (None, s)
      else let (hb, f) = ifs_read dk sizeof_FrameHeader (rs_mdf_file s); s1 = s\<lparr>rs_mdf_file := f\<rparr> in
        if gcount f \<noteq> sizeof_FrameHeader then
          (if length (mdf_paths s) \<le> current_file_index s + 1 then (None, s1)
           else let s2 = next_file dk s1 in
             if \<not> if_open (rs_mdf_file s2) then (None, s2)
             else if \<not> ifs_good (rs_mdf_file (at_first_frame s2)) then (None, at_first_frame s2)
             else read_next_frame dk (at_first_frame s2))
        else read_body dk hb s1)"
  by pat_completeness auto
termination
  by (relation "measure (\<lambda>(dk, s). length (mdf_paths s) - current_file_index s)")
    (auto simp: next_file_def at_first_frame_def Let_def)

declare read_next_frame.simps [simp del]

section \<open>Playback\<close>

fun replay_ts :: "FrameBody \<Rightarrow> u64" where
  "replay_ts (BL1 b) = l1_ts_ns b"
| "replay_ts (BL2 b) = l2_ts_ns b"
| "replay_ts (BTrade b) = tr_ts_ns b"
| "replay_ts (BHb b) = hb_ts_ns b"
| "replay_ts (BAck b) = 0"

definition symbol_name :: "SymbolRegistry option \<Rightarrow> u32 \<Rightarrow> string" where
  "symbol_name sr i = (case sr of None \<Rightarrow> ''UNKNOWN'' | Some r \<Rightarrow> if by_id r i = [] then ''UNKNOWN'' else by_id r i)"

fun base_topic :: "SymbolRegistry option \<Rightarrow> FrameBody \<Rightarrow> string" where
  "base_topic sr (BL1 b) = ''l1.'' @ symbol_name sr (l1_symbol_id b)"
| "base_topic sr (BL2 b) = ''l2.'' @ symbol_name sr (l2_symbol_id b)"
| "base_topic sr (BTrade b) = ''trade.'' @ symbol_name sr (tr_symbol_id b)"
| "base_topic sr _ = []"

definition topic_selected :: "string list \<Rightarrow> string \<Rightarrow> bool" where
  "topic_selected pats topic \<longleftrightarrow> (\<exists>p \<in> set pats. p = ''*'' \<or> CHR ''*'' \<in> set p \<or> take (length p) topic = p)"

definition get_virtual_topic :: "string \<Rightarrow> string \<Rightarrow> string" where
  "get_virtual_topic sid topic = ''replay.'' @ sid @ ''.'' @ topic"

text \<open>The wake-up time of a frame; \<open>None\<close> when the conversion to \<open>uint64_t\<close> is undefined.\<close>

definition pace :: "u64 \<Rightarrow> ReplaySession \<Rightarrow> ReplaySession option" where
  "pace ts s = (case first_timestamp_ns s of
     None \<Rightarrow> Some (s\<lparr>first_timestamp_ns := Some ts\<rparr>)
   | Some t0 \<Rightarrow>
       if ts > t0
       then map_option (\<lambda>w. s\<lparr>target_wall_ns := w\<rparr>) (double_to_u64 (ddiv (double_of_nat (unat (ts - t0))) (rate_multiplier s)))
       else Some s)"

text \<open>
  One pass of the loop up to the publication: the session left behind and the frame to publish with
  its base topic, or the end of the loop.
\<close>

datatype pass_result = Finished ReplaySession | Idle ReplaySession | Emit ReplaySession Frame string

definition playback_read :: "files \<Rightarrow> SymbolRegistry option \<Rightarrow> ReplaySession \<Rightarrow> pass_result option" where
  "playback_read dk sr s =
     (if \<not> in_playback s then Some (Idle s)
      else if \<not> rs_running s then Some (Finished (s\<lparr>in_playback := False\<rparr>))
      else if paused s then Some (Idle s)
      else case read_next_frame dk s of
        (None, s1) \<Rightarrow> Some (Finished (s1\<lparr>in_playback := False\<rparr>))
      | (Some frame, s1) \<Rightarrow>
          let ts = replay_ts (body frame) in
          if ts > rs_end_ts_ns s1 then Some (Finished (s1\<lparr>in_playback := False\<rparr>))
          else map_option (\<lambda>s2. Emit s2 frame (base_topic sr (body frame))) (pace ts (s1\<lparr>current_ts_ns := ts\<rparr>)))"

text \<open>The inputs of one publication: see \<open>publish\<close>; then the seconds since the start of the replay.\<close>

record pub_inputs =
  pi_start :: u64
  pi_rounds :: "(bool \<times> nat) list"
  pi_elapsed :: double
  pi_end :: u64
  pi_replay_elapsed :: double

definition replay_publish :: "pub_inputs \<Rightarrow> Frame \<Rightarrow> string \<Rightarrow> ReplaySession \<Rightarrow> server_state \<Rightarrow> (ReplaySession \<times> server_state) option" where
  "replay_publish i frame topic s sv =
     (case publish (get_virtual_topic (session_id s) topic) frame (pi_start i) (pi_rounds i) (pi_elapsed i) (pi_end i) sv of
        None \<Rightarrow> None
      | Some (srv, env) \<Rightarrow>
          let s1 = s\<lparr>rs_frames_sent := rs_frames_sent s + 1\<rparr>
          in Some (s1, (srv, if pi_replay_elapsed i > 0
                             then bp_gauge ''replay_rate'' (ddiv (double_of_nat (unat (rs_frames_sent s1))) (pi_replay_elapsed i)) env
                             else env)))"

definition count_replayed :: "Replayer \<Rightarrow> Replayer" where
  "count_replayed rp = rp\<lparr>rp_stats := (rp_stats rp)\<lparr>total_frames_replayed := total_frames_replayed (rp_stats rp) + 1\<rparr>\<rparr>"

definition playback_pass :: "files \<Rightarrow> pub_inputs \<Rightarrow> string \<Rightarrow> Replayer \<times> server_state \<Rightarrow> (Replayer \<times> server_state) option" where
  "playback_pass dk i sid = (\<lambda>(rp, sv). case map_of (sessions rp) sid of
     None \<Rightarrow> Some (rp, sv)
   | Some s \<Rightarrow> (case playback_read dk (rp_registry rp) s of
       None \<Rightarrow> None
     | Some (Finished s1) \<Rightarrow> Some (rp\<lparr>sessions := AList.update sid s1 (sessions rp)\<rparr>, sv)
     | Some (Idle s1) \<Rightarrow> Some (rp\<lparr>sessions := AList.update sid s1 (sessions rp)\<rparr>, sv)
     | Some (Emit s1 frame topic) \<Rightarrow>
         (case (if topic_selected (topics s1) topic
                then map_option (\<lambda>(s2, sv2). (s2, sv2, count_replayed rp)) (replay_publish i frame topic s1 sv)
                else Some (s1, sv, rp)) of
            None \<Rightarrow> None
          | Some (s2, (srv, env), rp2) \<Rightarrow>
              Some (rp2\<lparr>sessions := AList.update sid s2 (sessions rp2)\<rparr>, (srv, bp_count ''replayer_frames_sent_total'' env)))))"

section \<open>Sessions\<close>

datatype replay_error = InvalidRange | InvalidRate | NoTopics | TooManySessions | NoDataFiles | OpenFailed | SeekFailed | IndexError seek_error

definition valid_rate :: "double \<Rightarrow> bool" where
  "valid_rate r \<longleftrightarrow> (let eps = rnd (1 / 10 ^ 9) in \<bar>dsub r 1\<bar> < eps \<or> \<bar>dsub r 10\<bar> < eps \<or> \<bar>dsub r 100\<bar> < eps)"

definition MAX_CONCURRENT_SESSIONS :: nat where
  "MAX_CONCURRENT_SESSIONS = 10"

definition hex_digit :: "nat \<Rightarrow> char" where
  "hex_digit d = (if d < 10 then char_of (48 + d) else char_of (87 + d))"

text \<open>The eight digits drawn by the random engine are inputs.\<close>

definition generate_session_id :: "nat list \<Rightarrow> string" where
  "generate_session_id ds = ''rpl_'' @ map hex_digit (take 8 ds)"

definition new_session :: "files \<Rightarrow> string \<Rightarrow> u64 \<Rightarrow> u64 \<Rightarrow> string list \<Rightarrow> double \<Rightarrow> path list \<Rightarrow> path list \<Rightarrow> ReplaySession" where
  "new_session dk sid from_ts to_ts tps rate mdfs idxs =
     \<lparr>session_id = sid, rs_start_ts_ns = from_ts, rs_end_ts_ns = to_ts, rate_multiplier = rate, topics = tps,
      rs_running = False, paused = False, current_ts_ns = from_ts, rs_frames_sent = 0,
      rs_mdf_file = ifs_open dk (hd mdfs), rs_idx_file = ifs_open dk (hd idxs), mdf_path = hd mdfs, idx_path = hd idxs,
      mdf_paths = mdfs, idx_paths = idxs, current_file_index = 0, in_playback = False, first_timestamp_ns = None, target_wall_ns = 0\<rparr>"

text \<open>
  \<open>found\<close>: the playback thread looked its session up after it was registered; a thread that is faster
  returns without playing anything.
\<close>

definition start_session ::
  "files \<Rightarrow> path list option \<Rightarrow> nat list \<Rightarrow> bool \<Rightarrow> u64 \<Rightarrow> u64 \<Rightarrow> string list \<Rightarrow> double \<Rightarrow> Replayer \<times> PubServer
   \<Rightarrow> replay_error + (string \<times> Replayer \<times> PubServer)" where
  "start_session dk listing ds found from_ts to_ts tps rate = (\<lambda>(rp, srv).
     if to_ts \<le> from_ts then Inl InvalidRange
     else if \<not> valid_rate rate then Inl InvalidRate
     else if tps = [] then Inl NoTopics
     else if MAX_CONCURRENT_SESSIONS \<le> length (sessions rp) then Inl TooManySessions
     else case find_files_for_range dk listing from_ts to_ts of
       None \<Rightarrow> Inl NoDataFiles
     | Some (mdfs, idxs) \<Rightarrow>
         let sid = generate_session_id ds; s = new_session dk sid from_ts to_ts tps rate mdfs idxs in
         if \<not> if_open (rs_mdf_file s) \<or> \<not> if_open (rs_idx_file s) then Inl OpenFailed
         else case seek_to_timestamp dk from_ts s of
           Inl e \<Rightarrow> Inl (IndexError e)
         | Inr (False, _) \<Rightarrow> Inl SeekFailed
         | Inr (True, s1) \<Rightarrow>
             let ss = AList.update sid (s1\<lparr>rs_running := True, in_playback := found\<rparr>) (sessions rp)
             in Inr (sid, rp\<lparr>sessions := ss, rp_stats := (rp_stats rp)\<lparr>total_sessions := total_sessions (rp_stats rp) + 1,
                               active_sessions := of_nat (length ss)\<rparr>\<rparr>,
                     add_virtual_topic_prefix (''replay.'' @ sid) srv))"

definition on_session :: "string \<Rightarrow> (ReplaySession \<Rightarrow> ReplaySession) \<Rightarrow> Replayer \<Rightarrow> Replayer" where
  "on_session sid f rp = (case map_of (sessions rp) sid of
     None \<Rightarrow> rp | Some s \<Rightarrow> rp\<lparr>sessions := AList.update sid (f s) (sessions rp)\<rparr>)"

definition pause_session :: "string \<Rightarrow> Replayer \<Rightarrow> Replayer" where
  "pause_session sid = on_session sid (\<lambda>s. s\<lparr>paused := True\<rparr>)"

definition resume_session :: "string \<Rightarrow> Replayer \<Rightarrow> Replayer" where
  "resume_session sid = on_session sid (\<lambda>s. s\<lparr>paused := False\<rparr>)"

definition seek_session :: "files \<Rightarrow> string \<Rightarrow> u64 \<Rightarrow> Replayer \<Rightarrow> seek_error + Replayer" where
  "seek_session dk sid ts rp = (case map_of (sessions rp) sid of
     None \<Rightarrow> Inr rp
   | Some s \<Rightarrow>
       if rs_start_ts_ns s \<le> ts \<and> ts \<le> rs_end_ts_ns s then
         (case seek_to_timestamp dk ts s of
            Inl e \<Rightarrow> Inl e
          | Inr (ok, s1) \<Rightarrow> Inr (on_session sid (\<lambda>_. if ok then s1\<lparr>current_ts_ns := ts\<rparr> else s1) rp))
       else Inr rp)"

definition stop_session :: "string \<Rightarrow> Replayer \<Rightarrow> Replayer" where
  "stop_session sid rp = (case map_of (sessions rp) sid of
     None \<Rightarrow> rp
   | Some s \<Rightarrow> let ss = AList.delete sid (sessions rp)
              in rp\<lparr>sessions := ss, rp_stats := (rp_stats rp)\<lparr>active_sessions := of_nat (length ss)\<rparr>\<rparr>)"

definition destroy_replayer :: "Replayer \<Rightarrow> Replayer" where
  "destroy_replayer rp = fold stop_session (map fst (sessions rp)) rp"

definition get_active_sessions :: "Replayer \<Rightarrow> string list" where
  "get_active_sessions rp = map fst (sessions rp)"

record SessionInfo =
  si_session_id :: string
  si_start_ts_ns :: u64
  si_end_ts_ns :: u64
  si_current_ts_ns :: u64
  si_rate_multiplier :: double
  si_running :: bool
  si_paused :: bool
  si_frames_sent :: u64
  si_topics :: "string list"

definition get_session_info :: "Replayer \<Rightarrow> SessionInfo list" where
  "get_session_info rp = map (\<lambda>(sid, s). \<lparr>si_session_id = session_id s, si_start_ts_ns = rs_start_ts_ns s, si_end_ts_ns = rs_end_ts_ns s,
     si_current_ts_ns = current_ts_ns s, si_rate_multiplier = rate_multiplier s, si_running = rs_running s, si_paused = paused s,
     si_frames_sent = rs_frames_sent s, si_topics = topics s\<rparr>) (sessions rp)"

end
