(* ===== verification/Mapped_File.thy ===== *)
theory Mapped_File
  imports File_System "HOL-Library.Sublist"
begin

text \<open>
  \<open>MappedAppendFile\<close> of the recorder (POSIX branch): an append-only file written through a shared
  mapping that grows by doubling and is cut back to its logical size when it is closed. The record
  keeps the members \<open>path_\<close>, \<open>mapped_\<close>, \<open>capacity_\<close>, \<open>size_\<close> and
  \<open>fd_\<close>; \<open>mapped_\<close> and \<open>fd_\<close> only matter as null or not null, negative or not. An
  operation returns \<open>None\<close> when the C++ code would store outside the mapping or never return.
\<close>

section \<open>State and operations\<close>

record MappedAppendFile =
  mpath :: path
  mapped :: bool
  capacity :: u64
  fsize :: u64
  fd_open :: bool

definition new_mapped_file :: MappedAppendFile where
  "new_mapped_file = \<lparr>mpath = '''', mapped = False, capacity = 0, fsize = 0, fd_open = False\<rparr>"

definition is_open :: "MappedAppendFile \<Rightarrow> bool" where
  "is_open f \<longleftrightarrow> fd_open f \<and> mapped f"

definition remap :: "u64 \<Rightarrow> MappedAppendFile \<times> os \<Rightarrow> bool \<times> MappedAppendFile \<times> os" where
  "remap new_capacity = (\<lambda>(f, s).
     let f1 = f\<lparr>mapped := False\<rparr>; (ok, s1) = sys_ftruncate (mpath f) new_capacity s in
     if \<not> ok then (False, f1, s1)
     else let (mmap_ok, s2) = syscall s1 in
       if \<not> mmap_ok then (False, f1, s2)
       else (True, f1\<lparr>mapped := True, capacity := new_capacity\<rparr>, s2))"

text \<open>The doubling loop; \<open>None\<close> is a loop that never ends (the product wraps to 0).\<close>

partial_function (option) grow_capacity :: "u64 \<Rightarrow> u64 \<Rightarrow> u64 option" where
  "grow_capacity new_capacity required =
     (if new_capacity < required then grow_capacity (new_capacity * 2) required else Some new_capacity)"

definition ensure_capacity :: "u64 \<Rightarrow> MappedAppendFile \<times> os \<Rightarrow> (bool \<times> MappedAppendFile \<times> os) option" where
  "ensure_capacity required = (\<lambda>(f, s).
     if required \<le> capacity f then Some (True, f, s)
     else map_option (\<lambda>c. remap c (f, s))
       (grow_capacity (if capacity f = 0 then 4096 else capacity f) required))"

definition flush :: "MappedAppendFile \<times> os \<Rightarrow> bool \<times> os" where
  "flush = (\<lambda>(f, s).
     if \<not> is_open f then (False, s)
     else let (msync_ok, s1) = syscall s in
       if \<not> msync_ok then (False, s1) else syscall s1)"

definition close_and_truncate :: "u64 \<Rightarrow> MappedAppendFile \<times> os \<Rightarrow> MappedAppendFile \<times> os" where
  "close_and_truncate final_size = (\<lambda>(f, s).
     if \<not> is_open f then (f, s)
     else
       let final_size' = (if final_size > fsize f then fsize f else final_size);
           (_, s1) = flush (f, s);
           (_, s2) = sys_ftruncate (mpath f) final_size' s1
       in (f\<lparr>mapped := False, fd_open := False, capacity := 0, fsize := 0\<rparr>, s2))"

definition open_file :: "path \<Rightarrow> u64 \<Rightarrow> MappedAppendFile \<times> os \<Rightarrow> bool \<times> MappedAppendFile \<times> os" where
  "open_file p initial_capacity = (\<lambda>(f, s).
     if is_open f then (False, f, s)
     else
       let f1 = f\<lparr>mpath := p\<rparr>;
           cap = (if initial_capacity = 0 then 4096 else initial_capacity);
           (ok, s1) = sys_open_trunc p s in
       if \<not> ok then (False, f1\<lparr>fd_open := False\<rparr>, s1)
       else let (remapped, f2, s2) = remap cap (f1\<lparr>fd_open := True\<rparr>, s1) in
         if \<not> remapped then (let (f3, s3) = close_and_truncate 0 (f2, s2) in (False, f3, s3))
         else (True, f2\<lparr>fsize := 0\<rparr>, s2))"

text \<open>\<open>append\<close> returns \<open>Inl\<close> for \<open>false\<close> and \<open>Inr\<close> with \<open>offset_out\<close> for \<open>true\<close>.\<close>

definition append_data :: "byte list \<Rightarrow> MappedAppendFile \<times> os \<Rightarrow> ((unit + u64) \<times> MappedAppendFile \<times> os) option" where
  "append_data data = (\<lambda>(f, s).
     if \<not> is_open f then Some (Inl (), f, s)
     else if data = [] then Some (Inr (fsize f), f, s)
     else
       let required = fsize f + of_nat (length data) in
       case ensure_capacity required (f, s) of
         None \<Rightarrow> None
       | Some (ok, f1, s1) \<Rightarrow>
           if \<not> ok then Some (Inl (), f1, s1)
           else map_option (\<lambda>s2. (Inr (fsize f1), f1\<lparr>fsize := required\<rparr>, s2))
             (store (mpath f1) (unat (fsize f1)) data s1))"

definition write_at :: "u64 \<Rightarrow> byte list \<Rightarrow> MappedAppendFile \<times> os \<Rightarrow> (bool \<times> os) option" where
  "write_at offset data = (\<lambda>(f, s).
     if \<not> is_open f then Some (False, s)
     else let data_end = offset + of_nat (length data) in
       if data_end > fsize f \<or> data_end > capacity f then Some (False, s)
       else map_option (\<lambda>s1. (True, s1)) (store (mpath f) (unat offset) data s))"

text \<open>The destructor.\<close>

definition destroy_file :: "MappedAppendFile \<times> os \<Rightarrow> MappedAppendFile \<times> os" where
  "destroy_file = (\<lambda>(f, s). close_and_truncate (fsize f) (f, s))"

section \<open>The abstract file\<close>

text \<open>
  \<open>holds f s data\<close>: the descriptor is open and the file at its path is \<open>data\<close>, the bytes appended so
  far, followed by the zeros of the unused capacity; while the mapping exists it spans the file.
\<close>

definition holds :: "MappedAppendFile \<Rightarrow> os \<Rightarrow> byte list \<Rightarrow> bool" where
  "holds f s data \<longleftrightarrow> fd_open f \<and> length data = unat (fsize f)
     \<and> (\<exists>pad. disk s (mpath f) = Some (data @ replicate pad 0) \<and> (mapped f \<longrightarrow> length data + pad = unat (capacity f)))"

text \<open>Appending records one after the other; a record whose append fails is dropped.\<close>

fun append_all :: "(byte list \<Rightarrow> 'f \<times> 's \<Rightarrow> ((unit + u64) \<times> 'f \<times> 's) option) \<Rightarrow> byte list list \<Rightarrow> 'f \<times> 's
    \<Rightarrow> ((u64 \<times> byte list) list \<times> 'f \<times> 's) option" where
  "append_all app [] fs = Some ([], fs)"
| "append_all app (x # xs) fs = (case app x fs of
     None \<Rightarrow> None
   | Some (r, fs1) \<Rightarrow> map_option (\<lambda>(ys, fs2). ((case r of Inl _ \<Rightarrow> ys | Inr off \<Rightarrow> (off, x) # ys), fs2)) (append_all app xs fs1))"

section \<open>Growing the mapping\<close>

lemma double_no_wrap: "unat (c :: u64) < 2 ^ 63 \<Longrightarrow> unat (c * 2) = 2 * unat c"
  by (simp add: unat_word_ariths)

lemma grow_capacity_returns:
  assumes "0 < c" "unat required \<le> 2 ^ 63"
  shows "\<exists>r. grow_capacity c required = Some r \<and> required \<le> r \<and> unat r < max (unat c + 1) (2 * unat required)"
  using assms
proof (induction "unat required - unat c" arbitrary: c rule: less_induct)
  case less
  show ?case
  proof (cases "c < required")
    case True
    then have l: "unat c < unat required" by (simp add: word_less_nat_alt)
    moreover have d: "unat (c * 2) = 2 * unat c" using l less.prems by (intro double_no_wrap) simp
    moreover have pos: "0 < unat c" using less.prems by (simp add: word_less_nat_alt)
    ultimately have "unat required - unat (c * 2) < unat required - unat c" "0 < c * 2"
      by (auto simp: word_less_nat_alt)
    from less.hyps [OF this less.prems(2)] obtain r
      where r: "grow_capacity (c * 2) required = Some r" "required \<le> r" "unat r < max (unat (c * 2) + 1) (2 * unat required)"
      by auto
    have "grow_capacity c required = Some r" using r True by (subst grow_capacity.simps) simp
    then show ?thesis using r l by (auto simp: d)
  next
    case False
    then show ?thesis by (subst grow_capacity.simps) auto
  qed
qed

lemma grow_capacity_ge: "grow_capacity c required = Some r \<Longrightarrow> required \<le> r"
  by (erule grow_capacity.raw_induct [rotated]) (auto split: if_splits)

section \<open>The laws of the file\<close>

lemma remap_frame:
  "remap c (f, s) = (ok, f', s') \<Longrightarrow> mpath f' = mpath f \<and> fsize f' = fsize f \<and> fd_open f' = fd_open f
     \<and> mapped f' = ok \<and> (ok \<longrightarrow> capacity f' = c) \<and> (\<forall>p. p \<noteq> mpath f \<longrightarrow> disk s' p = disk s p)
     \<and> (ok \<longrightarrow> disk s' (mpath f) = map_option (resize (unat c)) (disk s (mpath f)))
     \<and> (disk s' (mpath f) = disk s (mpath f) \<or> disk s' (mpath f) = map_option (resize (unat c)) (disk s (mpath f)))"
  by (auto simp: remap_def Let_def dest!: syscall_disk sys_ftruncate_disk split: prod.splits if_splits)

lemma resize_padded:
  "length data \<le> n \<Longrightarrow> resize n (data @ replicate pad 0) = data @ replicate (n - length data) 0"
  by (auto simp: resize_def min_def replicate_add [symmetric])

lemma remap_holds:
  assumes "holds f s data" "fsize f \<le> c" "remap c (f, s) = (ok, f', s')"
  shows "holds f' s' data"
proof -
  obtain pad where "disk s (mpath f) = Some (data @ replicate pad 0)" "length data = unat (fsize f)"
    using assms(1) by (auto simp: holds_def)
  moreover have "length data \<le> unat c" using assms(1,2) by (simp add: holds_def word_le_nat_alt)
  ultimately show ?thesis
    using remap_frame [OF assms(3)] assms(1) by (auto simp: holds_def resize_padded)
qed

lemma ensure_capacity_holds:
  assumes "holds f s data" "fsize f \<le> r" "ensure_capacity r (f, s) = Some (ok, f', s')"
  shows "holds f' s' data \<and> mpath f' = mpath f \<and> fsize f' = fsize f \<and> (\<forall>p. p \<noteq> mpath f \<longrightarrow> disk s' p = disk s p)
    \<and> (mapped f \<longrightarrow> mapped f' = ok) \<and> (ok \<longrightarrow> r \<le> capacity f')"
proof (cases "r \<le> capacity f")
  case True
  then show ?thesis using assms by (simp add: ensure_capacity_def)
next
  case False
  then obtain c where c: "r \<le> c" "remap c (f, s) = (ok, f', s')"
    using assms(3) by (auto simp: ensure_capacity_def dest!: grow_capacity_ge split: option.splits)
  then have "fsize f \<le> c" using assms(2) by simp
  then show ?thesis using remap_holds [OF assms(1) _ c(2)] remap_frame [OF c(2)] c(1) by auto
qed

lemma store_at_end:
  assumes "holds f s data" "mapped f" "store (mpath f) (unat (fsize f)) x s = Some s'" "unat r = length data + length x"
  shows "holds (f\<lparr>fsize := r\<rparr>) s' (data @ x) \<and> (\<forall>p. p \<noteq> mpath f \<longrightarrow> disk s' p = disk s p)"
proof -
  obtain pad where d: "disk s (mpath f) = Some (data @ replicate pad 0)" "length data = unat (fsize f)"
    "length data + pad = unat (capacity f)" using assms(1,2) by (auto simp: holds_def)
  then have "length x \<le> pad" and "s' = s\<lparr>disk := (disk s)(mpath f \<mapsto> data @ x @ replicate (pad - length x) 0)\<rparr>"
    using assms(3) by (auto simp: store_def memcpy_at_def split: if_splits)
  then show ?thesis using assms d by (auto simp: holds_def)
qed

lemma store_fits:
  assumes "holds f s data" "mapped f" "store (mpath f) (unat (fsize f)) x s = Some s'"
  shows "length data + length x \<le> unat (capacity f)"
  using assms by (auto simp: holds_def store_def memcpy_at_def split: if_splits)

lemma append_data_law:
  assumes h: "holds f s data" and a: "append_data x (f, s) = Some (r, f', s')"
  shows "mpath f' = mpath f \<and> (\<forall>p. p \<noteq> mpath f \<longrightarrow> disk s' p = disk s p)
    \<and> (case r of Inl _ \<Rightarrow> holds f' s' data \<and> \<not> is_open f'
       | Inr off \<Rightarrow> is_open f' \<and> unat off = length data \<and> holds f' s' (data @ x))"
proof -
  have sz: "unat (fsize f) = length data" using h by (simp add: holds_def)
  consider (closed) "\<not> is_open f" | (empty) "is_open f" "x = []" | (data) "is_open f" "x \<noteq> []" by blast
  then show ?thesis
  proof cases
    case data
    let ?r = "fsize f + of_nat (length x)"
    obtain ok f1 s1 where e: "ensure_capacity ?r (f, s) = Some (ok, f1, s1)"
      using a data by (auto simp: append_data_def Let_def split: option.splits)
    have m: "mapped f" using data by (simp add: is_open_def)
    have low: "?r \<le> capacity f" if "\<not> fsize f \<le> ?r"
      using that h m by (auto simp: holds_def word_le_nat_alt)
    then have 1: "holds f1 s1 data \<and> mpath f1 = mpath f \<and> fsize f1 = fsize f
        \<and> (\<forall>p. p \<noteq> mpath f \<longrightarrow> disk s1 p = disk s p) \<and> mapped f1 = ok"
      using ensure_capacity_holds [OF h _ e] h m e by (cases "fsize f \<le> ?r") (auto simp: ensure_capacity_def)
    show ?thesis
    proof (cases ok)
      case True
      then obtain s2 where st: "store (mpath f1) (unat (fsize f1)) x s1 = Some s2"
        and r: "r = Inr (fsize f)" "f' = f1\<lparr>fsize := ?r\<rparr>" "s' = s2"
        using a data e 1 by (auto simp: append_data_def Let_def)
      have "length data + length x < 2 ^ 64"
        using store_fits [OF _ _ st] 1 True unat_u64_less [of "capacity f1"] by fastforce
      then have "unat ?r = length data + length x"
        by (simp add: unat_word_ariths sz unat_of_nat)
      then have "holds (f1\<lparr>fsize := ?r\<rparr>) s2 (data @ x) \<and> (\<forall>p. p \<noteq> mpath f1 \<longrightarrow> disk s2 p = disk s1 p)"
        using store_at_end [OF _ _ st] 1 True by blast
      moreover have "fd_open f1" using 1 by (simp add: holds_def)
      ultimately show ?thesis using 1 True r sz by (auto simp: is_open_def)
    qed (use a data e 1 in \<open>auto simp: append_data_def Let_def is_open_def\<close>)
  qed (use a h sz in \<open>auto simp: append_data_def\<close>)
qed

lemma write_at_law:
  assumes h: "holds f s data" and w: "write_at off x (f, s) = Some (ok, s')"
  shows "(\<forall>p. p \<noteq> mpath f \<longrightarrow> disk s' p = disk s p) \<and>
    holds f s' (if ok then take (unat off) data @ x @ drop (unat off + length x) data else data)"
proof (cases ok)
  case True
  let ?e = "off + of_nat (length x)"
  obtain pad where d: "disk s (mpath f) = Some (data @ replicate pad 0)" "length data = unat (fsize f)"
    "mapped f \<longrightarrow> length data + pad = unat (capacity f)" using h by (auto simp: holds_def)
  have m: "is_open f" "?e \<le> fsize f" "store (mpath f) (unat off) x s = Some s'"
    using w True by (auto simp: write_at_def Let_def split: if_splits)
  then have fit: "unat off + length x \<le> unat (capacity f)"
    using d by (auto simp: store_def memcpy_at_def is_open_def split: if_splits)
  then have "unat off + length x < 2 ^ 64" using unat_u64_less [of "capacity f"] by simp
  then have "unat ?e = unat off + length x" by (simp add: unat_word_ariths unat_of_nat)
  then have le: "unat off + length x \<le> length data" using m(2) d(2) by (simp add: word_le_nat_alt)
  then have "s' = s\<lparr>disk := (disk s)(mpath f \<mapsto> (take (unat off) data @ x @ drop (unat off + length x) data) @ replicate pad 0)\<rparr>"
    using m(3) d by (auto simp: store_def memcpy_at_def split: if_splits)
  then show ?thesis using True h d le by (auto simp: holds_def)
qed (use assms in \<open>auto simp: write_at_def Let_def split: if_splits\<close>)

lemma flush_disk: "flush (f, s) = (ok, s') \<Longrightarrow> disk s' = disk s"
  by (auto simp: flush_def Let_def dest!: syscall_disk split: prod.splits if_splits)

lemma close_and_truncate_law:
  assumes h: "holds f s data" and o: "is_open f" and c: "close_and_truncate n (f, s) = (f', s')"
  shows "\<not> fd_open f' \<and> (\<forall>p. p \<noteq> mpath f \<longrightarrow> disk s' p = disk s p)
    \<and> (disk s' (mpath f) = Some (take (unat n) data) \<or> (\<exists>pad. disk s' (mpath f) = Some (data @ replicate pad 0)))"
proof -
  let ?n = "if n > fsize f then fsize f else n"
  obtain ok1 s1 ok2 where fl: "flush (f, s) = (ok1, s1)" and t: "sys_ftruncate (mpath f) ?n s1 = (ok2, s')"
    and f': "\<not> fd_open f'" using c o by (auto simp: close_and_truncate_def Let_def split: prod.splits)
  obtain pad where d: "disk s (mpath f) = Some (data @ replicate pad 0)" "length data = unat (fsize f)"
    using h by (auto simp: holds_def)
  have "resize (unat ?n) (data @ replicate pad 0) = take (unat n) data"
    using d(2) by (auto simp: resize_def word_less_nat_alt not_less)
  then show ?thesis using sys_ftruncate_disk [OF t] flush_disk [OF fl] d f' by auto
qed

lemma open_file_law:
  assumes "\<not> fd_open f" "open_file p cap (f, s) = (ok, f', s')"
  shows "mpath f' = p \<and> (\<forall>q. q \<noteq> p \<longrightarrow> disk s' q = disk s q) \<and> (ok \<longrightarrow> is_open f' \<and> holds f' s' []) \<and> (\<not> ok \<longrightarrow> \<not> is_open f')"
proof -
  let ?c = "if cap = 0 then 4096 else cap"
  obtain ok1 s1 where t: "sys_open_trunc p s = (ok1, s1)" by fastforce
  note d1 = sys_open_trunc_disk [OF t]
  show ?thesis
  proof (cases ok1)
    case True
    obtain ok2 f2 s2 where r: "remap ?c (f\<lparr>mpath := p, fd_open := True\<rparr>, s1) = (ok2, f2, s2)"
      by (metis prod_cases3)
    note frame = remap_frame [OF r]
    have "close_and_truncate 0 (f2, s2) = (f2, s2)" if "\<not> ok2"
      using that frame by (simp add: close_and_truncate_def is_open_def)
    then show ?thesis
      using assms t r d1 frame True
      by (auto simp: open_file_def Let_def is_open_def holds_def resize_def split: if_splits)
  qed (use assms t d1 in \<open>auto simp: open_file_def is_open_def Let_def\<close>)
qed

section \<open>The interface of an append-only log\<close>

text \<open>
  What the recorder relies on: an append either adds its data at the offset it reports or changes
  nothing that was appended before. The consequence for a whole sequence of appends is proved once.
\<close>

locale append_log =
  fixes contains :: "'f \<Rightarrow> 's \<Rightarrow> byte list \<Rightarrow> bool"
    and app :: "byte list \<Rightarrow> 'f \<times> 's \<Rightarrow> ((unit + u64) \<times> 'f \<times> 's) option"
  assumes app_ok: "contains f s d \<Longrightarrow> app x (f, s) = Some (Inr off, f', s') \<Longrightarrow> contains f' s' (d @ x) \<and> unat off = length d"
    and app_fail: "contains f s d \<Longrightarrow> app x (f, s) = Some (Inl u, f', s') \<Longrightarrow> contains f' s' d"
begin

lemma append_all_contains:
  "contains f s d \<Longrightarrow> append_all app xs (f, s) = Some (ys, f', s') \<Longrightarrow>
     contains f' s' (d @ concat (map snd ys)) \<and> subseq (map snd ys) xs
     \<and> (\<forall>(off, x) \<in> set ys. \<exists>d1 d2. d @ concat (map snd ys) = d1 @ x @ d2 \<and> length d1 = unat off)"
proof (induction xs arbitrary: d f s ys)
  case (Cons x xs)
  then obtain r f1 s1 where a: "app x (f, s) = Some (r, f1, s1)" by (auto split: option.splits)
  show ?case
  proof (cases r)
    case (Inl u)
    then have "append_all app xs (f1, s1) = Some (ys, f', s')" using Cons.prems a by auto
    then show ?thesis using Cons.IH [of f1 s1 d ys] app_fail [of f s d x u f1 s1] Cons.prems a Inl by auto
  next
    case (Inr off)
    then obtain zs where z: "ys = (off, x) # zs" "append_all app xs (f1, s1) = Some (zs, f', s')"
      using Cons.prems a by auto
    have ok: "contains f1 s1 (d @ x)" "unat off = length d" using app_ok Cons.prems(1) a Inr by blast+
    from Cons.IH [OF ok(1) z(2)] have "contains f' s' ((d @ x) @ concat (map snd zs))" "subseq (map snd zs) xs"
      "\<forall>(o1, y) \<in> set zs. \<exists>d1 d2. (d @ x) @ concat (map snd zs) = d1 @ y @ d2 \<and> length d1 = unat o1" by auto
    then show ?thesis using z(1) ok(2) by (force simp: append_assoc)
  qed
qed auto

end

text \<open>The file at path \<open>p\<close>, and every other path as on the disk \<open>d0\<close>.\<close>

definition log_at :: "path \<Rightarrow> (string \<rightharpoonup> byte list) \<Rightarrow> MappedAppendFile \<Rightarrow> os \<Rightarrow> byte list \<Rightarrow> bool" where
  "log_at p d0 f s data \<longleftrightarrow> mpath f = p \<and> holds f s data \<and> (\<forall>q. q \<noteq> p \<longrightarrow> disk s q = d0 q)"

interpretation log: append_log "log_at p d0" append_data for p d0
proof
  fix f s d x off f' s'
  assume "log_at p d0 f s d" "append_data x (f, s) = Some (Inr off, f', s')"
  then show "log_at p d0 f' s' (d @ x) \<and> unat off = length d" using append_data_law [of f s d x] by (fastforce simp: log_at_def)
next
  fix f s d x u f' s'
  assume "log_at p d0 f s d" "append_data x (f, s) = Some (Inl u, f', s')"
  then show "log_at p d0 f' s' d" using append_data_law [of f s d x] by (fastforce simp: log_at_def)
qed

lemma odd_div_iff: "0 \<le> x \<Longrightarrow> x < 2 * m \<Longrightarrow> odd (x div m) \<longleftrightarrow> m \<le> (x::int)"
  using int_div_pos_eq [of x m 1 "x - m"] div_pos_pos_trivial [of x m] by (cases "x < m") auto

lemma sint_nonneg_iff: "0 \<le> sint (w :: u64) \<longleftrightarrow> unat w < 9223372036854775808"
proof -
  have n: "(2 :: int) ^ 63 \<le> int n \<longleftrightarrow> \<not> n < 9223372036854775808" for n :: nat by auto
  have "0 \<le> sint w \<longleftrightarrow> \<not> bit (uint w) 63" by (simp add: sint_uint)
  also have "\<dots> \<longleftrightarrow> \<not> odd (uint w div 2 ^ 63)" by (simp only: bit_iff_odd)
  also have "\<dots> \<longleftrightarrow> \<not> 2 ^ 63 \<le> uint w"
    using odd_div_iff [of "uint w" "2 ^ 63"] uint_bounded [of w] by simp
  also have "uint w = int (unat w)" by simp
  finally show ?thesis by (simp only: n not_not)
qed
lemma remap_progress:
  "faults s = [] \<Longrightarrow> unat c < 9223372036854775808 \<Longrightarrow> \<exists>f' s'. remap c (f, s) = (True, f', s') \<and> faults s' = []"
  by (simp add: remap_def sys_ftruncate_def sint_nonneg_iff Let_def)

lemma open_file_progress:
  assumes "\<not> fd_open f" "faults s = []" "unat cap < 9223372036854775808"
  shows "\<exists>f' s'. open_file p cap (f, s) = (True, f', s') \<and> faults s' = []"
proof -
  let ?c = "if cap = 0 then 4096 else cap"
  have "unat ?c < 9223372036854775808" using assms(3) by simp
  then obtain f2 s2 where "remap ?c (f\<lparr>mpath := p, fd_open := True\<rparr>, s\<lparr>disk := (disk s)(p \<mapsto> [])\<rparr>) = (True, f2, s2)"
    "faults s2 = []" using remap_progress [of "s\<lparr>disk := (disk s)(p \<mapsto> [])\<rparr>" ?c] assms(2) by fastforce
  then show ?thesis using assms by (simp add: open_file_def sys_open_trunc_def is_open_def Let_def)
qed

lemma ensure_capacity_progress:
  assumes "faults s = []" "unat r \<le> 4611686018427387904"
  shows "\<exists>f' s'. ensure_capacity r (f, s) = Some (True, f', s') \<and> faults s' = []"
proof (cases "r \<le> capacity f")
  case False
  define c0 where "c0 = (if capacity f = 0 then 4096 else capacity f)"
  have c0: "0 < c0" by (simp add: c0_def word_gt_0)
  have b: "unat c0 \<le> 4611686018427387904" using False assms(2) by (simp add: c0_def word_le_nat_alt)
  obtain c where c: "grow_capacity c0 r = Some c" "unat c < max (unat c0 + 1) (2 * unat r)"
    using grow_capacity_returns [OF c0, of r] assms(2) by fastforce
  then have "unat c < 9223372036854775808" using b assms(2) by linarith
  then show ?thesis using remap_progress [OF assms(1), of c f] c(1) False by (auto simp: ensure_capacity_def c0_def)
qed (use assms in \<open>simp add: ensure_capacity_def\<close>)

lemma append_data_progress:
  assumes h: "holds f s data" and o: "is_open f" "faults s = []" and l: "length data + length x \<le> 4611686018427387904"
  shows "\<exists>off f' s'. append_data x (f, s) = Some (Inr off, f', s') \<and> faults s' = []"
proof (cases "x = []")
  case False
  let ?r = "fsize f + of_nat (length x)"
  have r: "unat ?r = length data + length x" using h l by (simp add: unat_word_ariths unat_of_nat holds_def)
  obtain f1 s1 where e: "ensure_capacity ?r (f, s) = Some (True, f1, s1)" "faults s1 = []"
    using ensure_capacity_progress [OF o(2), of ?r f] r l by fastforce
  have "fsize f \<le> ?r" using r h by (simp add: word_le_nat_alt holds_def)
  then have 1: "holds f1 s1 data" "mpath f1 = mpath f" "fsize f1 = fsize f" "mapped f1" "?r \<le> capacity f1"
    using ensure_capacity_holds [OF h _ e(1)] o by (simp_all add: is_open_def)
  then have "\<exists>s2. store (mpath f1) (unat (fsize f1)) x s1 = Some s2 \<and> faults s2 = []"
    using r e(2) by (auto simp: holds_def store_def memcpy_at_def word_le_nat_alt)
  then show ?thesis using e(1) o False by (auto simp: append_data_def Let_def)
qed (use o in \<open>simp add: append_data_def\<close>)

section \<open>Properties\<close>



text \<open>
  An append makes progress: while the system calls succeed and the file stays below $2^{62}$
  bytes, the doubling loop ends, the mapping grows as needed, and the data are appended.
\<close>

theorem append_data_succeeds:
  assumes "holds f s data" "is_open f" "faults s = []" "length data + length x \<le> 4611686018427387904"
  shows "\<exists>off f' s'. append_data x (f, s) = Some (Inr off, f', s') \<and> is_open f' \<and> holds f' s' (data @ x)"
  using append_data_progress [OF assms] append_data_law [OF assms(1)] by fastforce

theorem append_data_succeeds_witness:
  "\<exists>f s off f' s'. append_data [1, 2, 3] (f, s) = Some (Inr off, f', s') \<and> is_open f' \<and> holds f' s' [1, 2, 3]"
proof -
  obtain f s where o: "open_file ''a'' 8 (new_mapped_file, \<lparr>disk = Map.empty, faults = []\<rparr>) = (True, f, s)"
    and n: "faults s = []"
    using open_file_progress [of new_mapped_file "\<lparr>disk = Map.empty, faults = []\<rparr>" 8 "''a''"]
    by (auto simp: new_mapped_file_def)
  have "holds f s []" "is_open f" using open_file_law [OF _ o] by (simp_all add: new_mapped_file_def)
  from append_data_succeeds [OF this n, of "[1, 2, 3]"] show ?thesis by simp blast
qed

end
