(* ===== verification/File_Names.thy ===== *)
theory File_Names
  imports Prelude "HOL-Library.List_Lexorder" "HOL-Library.Char_ord"
begin

text \<open>
  The names the recorder gives its files: \<open>generate_filename\<close> formats the UTC time of a nanosecond
  timestamp, truncated to seconds, with \<open>std::gmtime\<close> and \<open>std::put_time("%Y%m%d_%H%M%S")\<close>. The
  replayer sorts files by name, so the order of the names has to be the order of the timestamps.
\<close>

section \<open>UTC calendar\<close>

text \<open>
  \<open>locate len k d\<close> finds the interval that contains the day \<open>d\<close>, counted from the start of interval
  \<open>k\<close>, when interval \<open>i\<close> is \<open>len i\<close> days long, and the day within it.
\<close>

function locate :: "(nat \<Rightarrow> nat) \<Rightarrow> nat \<Rightarrow> nat \<Rightarrow> nat \<times> nat" where
  "locate len k d = (if d < len k \<or> len k = 0 then (k, d) else locate len (k + 1) (d - len k))"
  by pat_completeness auto
termination
  by (relation "measure (\<lambda>(len, k, d). d)") auto

declare locate.simps [simp del]

definition is_leap :: "nat \<Rightarrow> bool" where
  "is_leap y \<longleftrightarrow> y mod 4 = 0 \<and> (y mod 100 \<noteq> 0 \<or> y mod 400 = 0)"

definition year_days :: "nat \<Rightarrow> nat" where
  "year_days y = (if is_leap y then 366 else 365)"

definition month_days :: "nat \<Rightarrow> nat \<Rightarrow> nat" where
  "month_days y m = (if m = 2 then (if is_leap y then 29 else 28)
     else if m = 4 \<or> m = 6 \<or> m = 9 \<or> m = 11 then 30 else 31)"

record tm =
  tm_year :: nat  \<comment> \<open>the calendar year, \<open>tm_year + 1900\<close> in C\<close>
  tm_mon :: nat  \<comment> \<open>1 to 12\<close>
  tm_mday :: nat
  tm_hour :: nat
  tm_min :: nat
  tm_sec :: nat

definition gmtime :: "nat \<Rightarrow> tm" where
  "gmtime t = (let (y, yday) = locate year_days 1970 (t div 86400);
                   (m, d) = locate (month_days y) 1 yday;
                   r = t mod 86400
     in \<lparr>tm_year = y, tm_mon = m, tm_mday = d + 1, tm_hour = r div 3600, tm_min = r div 60 mod 60, tm_sec = r mod 60\<rparr>)"

section \<open>File names\<close>

primrec digits :: "nat \<Rightarrow> nat \<Rightarrow> string" where
  "digits 0 n = []"
| "digits (Suc w) n = digits w (n div 10) @ [char_of (48 + n mod 10)]"

definition put_time :: "tm \<Rightarrow> string" where
  "put_time t = digits 4 (tm_year t) @ digits 2 (tm_mon t) @ digits 2 (tm_mday t) @ ''_''
     @ digits 2 (tm_hour t) @ digits 2 (tm_min t) @ digits 2 (tm_sec t)"

definition generate_filename :: "string \<Rightarrow> u64 \<Rightarrow> string" where
  "generate_filename data_dir timestamp_ns =
     data_dir @ ''/md_'' @ put_time (gmtime (unat timestamp_ns div 1000000000))"

section \<open>Lemmas\<close>

lemma locate_spec:
  "(\<And>i. 0 < len i) \<Longrightarrow> locate len k d = (q, r) \<Longrightarrow> k \<le> q \<and> r < len q \<and> d = sum len {k..<q} + r"
proof (induction len k d arbitrary: q r rule: locate.induct)
  case (1 len k d)
  show ?case
  proof (cases "d < len k")
    case True
    then show ?thesis using "1.prems" by (simp add: locate.simps)
  next
    case False
    then have "locate len (k + 1) (d - len k) = (q, r)"
      using "1.prems" by (simp add: locate.simps [of len k d] less_not_refl2)
    moreover have "\<not> (d < len k \<or> len k = 0)" using False "1.prems"(1) [of k] by simp
    ultimately have *: "k + 1 \<le> q \<and> r < len q \<and> d - len k = sum len {k + 1..<q} + r"
      using "1.IH" "1.prems"(1) by simp
    then have "sum len {k..<q} = len k + sum len {k + 1..<q}"
      by (simp add: sum.atLeast_Suc_lessThan)
    then show ?thesis using * False by linarith
  qed
qed

lemma locate_mono:
  assumes pos: "\<And>i. 0 < len i" and l1: "locate len k d1 = (q1, r1)" and l2: "locate len k d2 = (q2, r2)" and "d1 < d2"
  shows "q1 < q2 \<or> q1 = q2 \<and> r1 < r2"
proof -
  have s1: "k \<le> q1" "r1 < len q1" "d1 = sum len {k..<q1} + r1"
    and s2: "k \<le> q2" "r2 < len q2" "d2 = sum len {k..<q2} + r2"
    using locate_spec [OF pos l1] locate_spec [OF pos l2] by auto
  have False if "q2 < q1"
  proof -
    have "sum len {k..<q2} + len q2 = sum len {k..<q2 + 1}" using s2(1) by simp
    also have "\<dots> \<le> sum len {k..<q1}" using that s2(1) by (intro sum_mono2) auto
    finally show False using s1 s2 \<open>d1 < d2\<close> by linarith
  qed
  then show ?thesis using s1 s2 \<open>d1 < d2\<close> by (cases q1 q2 rule: linorder_cases) auto
qed

lemma year_days_pos [simp]: "0 < year_days y"
  by (simp add: year_days_def)

lemma month_days_pos [simp]: "0 < month_days y m"
  by (simp add: month_days_def)

lemma year_length: "sum (month_days y) {1..<13} = year_days y"
  by (simp add: month_days_def year_days_def eval_nat_numeral sum.atLeastLessThan_Suc)

lemma locate_month:
  assumes "locate (month_days y) 1 d = (m, r)" "d < year_days y"
  shows "1 \<le> m \<and> m \<le> 12 \<and> r < 31"
proof -
  have s: "1 \<le> m" "r < month_days y m" "d = sum (month_days y) {1..<m} + r"
    using locate_spec [OF month_days_pos assms(1)] by auto
  have "m \<le> 12"
  proof (rule ccontr)
    assume "\<not> m \<le> 12"
    then have "sum (month_days y) {1..<13} \<le> sum (month_days y) {1..<m}" by (intro sum_mono2) auto
    then show False using s(3) assms(2) year_length [of y] by simp
  qed
  then show ?thesis using s by (auto simp: month_days_def split: if_splits)
qed

lemma locate_year_bound:
  assumes "locate year_days 1970 d = (y, r)" "d < 214000"
  shows "y < 10000"
proof -
  have "sum (\<lambda>_. 365) {1970..<y} \<le> sum year_days {1970..<y}" by (intro sum_mono) (simp add: year_days_def)
  then have "365 * (y - 1970) \<le> d" using locate_spec [OF year_days_pos assms(1)] by simp
  then show ?thesis using assms(2) by simp
qed

section \<open>The order of fixed-width names\<close>

lemma length_digits [simp]: "length (digits w n) = w"
  by (induction w arbitrary: n) simp_all

lemma string_less_append_left: "(xs :: string) @ ys < xs @ zs \<longleftrightarrow> ys < zs"
  by (induction xs) simp_all

lemma string_less_append_right:
  "xs < (ys :: string) \<Longrightarrow> length xs = length ys \<Longrightarrow> xs @ us < ys @ vs"
  unfolding list_less_def by (rule lexord_sufI) simp_all

lemma digit_less: "m < 10 \<Longrightarrow> n < 10 \<Longrightarrow> m < n \<Longrightarrow> char_of (48 + m :: nat) < (char_of (48 + n) :: char)"
  by (simp add: less_char_def)

lemma digits_less: "m < n \<Longrightarrow> n < 10 ^ w \<Longrightarrow> digits w m < digits w n"
proof (induction w arbitrary: m n)
  case (Suc w)
  show ?case
  proof (cases "m div 10 = n div 10")
    case True
    then have "m mod 10 < n mod 10" using Suc.prems(1) by (metis div_mult_mod_eq nat_add_left_cancel_less)
    then show ?thesis using True digit_less [of "m mod 10" "n mod 10"] by (simp add: string_less_append_left)
  next
    case False
    then have "m div 10 < n div 10" using Suc.prems(1) div_le_mono [of m n 10] by linarith
    moreover have "n div 10 < 10 ^ w" using Suc.prems(2) by (simp add: less_mult_imp_div_less mult.commute)
    ultimately show ?thesis using Suc.IH by (simp add: string_less_append_right)
  qed
qed simp

lemma digits_append_less:
  "m < n \<and> n < 10 ^ w \<or> m = n \<and> xs < ys \<Longrightarrow> digits w m @ xs < digits w n @ ys"
  by (auto simp: string_less_append_left digits_less intro: string_less_append_right)

lemma div_mod_less: "r < t \<Longrightarrow> r div k < t div k \<or> r div k = t div k \<and> r mod k < t mod (k :: nat)"
  using div_le_mono [of r t k] by (metis div_mult_mod_eq nat_add_left_cancel_less order_le_less)

lemma mod_60_less: "n mod 60 < (100 :: nat)"
  using mod_less_divisor [of 60 n] by linarith

lemma clock_less:
  assumes "r1 < r2" "r2 < (86400 :: nat)"
  shows "digits 2 (r1 div 3600) @ digits 2 (r1 div 60 mod 60) @ digits 2 (r1 mod 60)
    < digits 2 (r2 div 3600) @ digits 2 (r2 div 60 mod 60) @ digits 2 (r2 mod 60)"
proof -
  have h: "r1 div 3600 = r1 div 60 div 60" "r2 div 3600 = r2 div 60 div 60" by (simp_all add: div_mult2_eq [symmetric])
  have b: "r2 div 3600 < 10 ^ 2" "r2 div 60 mod 60 < 10 ^ 2" "r2 mod 60 < 10 ^ 2"
    using assms(2) mod_60_less by (simp_all add: less_mult_imp_div_less)
  consider "r1 div 3600 < r2 div 3600" | "r1 div 3600 = r2 div 3600" "r1 div 60 mod 60 < r2 div 60 mod 60"
    | "r1 div 3600 = r2 div 3600" "r1 div 60 mod 60 = r2 div 60 mod 60" "r1 mod 60 < r2 mod 60"
    using div_mod_less [OF assms(1), of 60] div_mod_less [of "r1 div 60" "r2 div 60" 60] h by metis
  then show ?thesis
  proof cases
    case 3
    then show ?thesis using b by (intro digits_append_less disjI2 conjI digits_less) simp_all
  next
    case 2
    then show ?thesis using b by (intro digits_append_less [OF disjI2] conjI digits_append_less [OF disjI1]) simp_all
  qed (use b in \<open>intro digits_append_less disjI1 conjI\<close>)
qed

lemma date_less:
  assumes "y1 < y2 \<or> y1 = y2 \<and> (m1 < m2 \<or> m1 = m2 \<and> e1 < e2)" "y2 < 10 ^ 4" "m2 < 10 ^ 2" "e2 < 10 ^ 2"
  shows "digits 4 y1 @ digits 2 m1 @ digits 2 e1 @ us < digits 4 y2 @ digits 2 m2 @ digits 2 e2 @ vs"
proof -
  have "digits 2 e1 @ us < digits 2 e2 @ vs" if "e1 < e2" using that assms(4) by (blast intro: digits_append_less)
  then have "digits 2 m1 @ digits 2 e1 @ us < digits 2 m2 @ digits 2 e2 @ vs" if "m1 < m2 \<or> m1 = m2 \<and> e1 < e2"
    using that assms(3) by (blast intro: digits_append_less)
  then show ?thesis using assms(1,2) by (blast intro: digits_append_less)
qed

lemma put_time_less:
  assumes "s < t" "t < 18446744074"
  shows "put_time (gmtime s) < put_time (gmtime t)"
proof -
  obtain y1 d1 where y1: "locate year_days 1970 (s div 86400) = (y1, d1)" by fastforce
  obtain y2 d2 where y2: "locate year_days 1970 (t div 86400) = (y2, d2)" by fastforce
  obtain m1 e1 where m1: "locate (month_days y1) 1 d1 = (m1, e1)" by fastforce
  obtain m2 e2 where m2: "locate (month_days y2) 1 d2 = (m2, e2)" by fastforce
  have yb: "y2 < 10000" using locate_year_bound [OF y2] assms(2) by simp
  have mb: "m2 \<le> 12" "e2 < 31" using locate_month [OF m2] locate_spec [OF year_days_pos y2] by auto
  show ?thesis
  proof (cases "s div 86400 = t div 86400")
    case True
    then have "s mod 86400 < t mod 86400" using assms(1) by (metis div_mult_mod_eq nat_add_left_cancel_less)
    then show ?thesis using clock_less [of "s mod 86400" "t mod 86400"] y1 y2 m1 m2 True
      by (simp add: put_time_def gmtime_def Let_def string_less_append_left)
  next
    case False
    then have "s div 86400 < t div 86400" using assms(1) div_le_mono [of s t 86400] by linarith
    then have y: "y1 < y2 \<or> y1 = y2 \<and> d1 < d2" by (rule locate_mono [OF year_days_pos y1 y2])
    then have "y1 < y2 \<or> y1 = y2 \<and> (m1 < m2 \<or> m1 = m2 \<and> e1 < e2)"
      using locate_mono [OF month_days_pos m1, of d2 m2 e2] m2 by auto
    then have "y1 < y2 \<or> y1 = y2 \<and> (m1 < m2 \<or> m1 = m2 \<and> e1 + 1 < e2 + 1)" by simp
    from date_less [OF this] show ?thesis using y1 y2 m1 m2 yb mb by (simp add: put_time_def gmtime_def Let_def)
  qed
qed

section \<open>Properties\<close>

text \<open>
  C24: sorting the files of a directory by name sorts them by start time: the name of an earlier
  second precedes the name of a later one. Two timestamps within the same second get the same name.
\<close>

theorem generate_filename_order:
  "(generate_filename dir t1 < generate_filename dir t2 \<longleftrightarrow> unat t1 div 1000000000 < unat t2 div 1000000000)
   \<and> (generate_filename dir t1 = generate_filename dir t2 \<longleftrightarrow> unat t1 div 1000000000 = unat t2 div 1000000000)"
proof -
  have b: "unat t div 1000000000 < 18446744074" for t :: u64
    using unat_u64_less [of t] by (simp add: less_mult_imp_div_less)
  show ?thesis
    using put_time_less [OF _ b, of "unat t1 div 1000000000" t2] put_time_less [OF _ b, of "unat t2 div 1000000000" t1]
    by (cases "unat t1 div 1000000000" "unat t2 div 1000000000" rule: linorder_cases)
      (auto simp: generate_filename_def string_less_append_left)
qed

end
