(* ===== verification/Recorder.thy ===== *)
theory Recorder
  imports Frame Metrics Mapped_File File_Names "HOL-Library.Monad_Syntax"
begin

text \<open>
  The recorder of \<open>src/recorder\<close>: it appends every frame it dequeues to the current \<open>.mdf\<close> file,
  every \<open>index_interval\<close>-th offset to the \<open>.idx\<close> file, rolls to new files when the size limit is
  reached and stops writing (degraded mode) after repeated failures. The environment carries what the
  code reads from outside: the file system, the two clocks and the free space (their readings in the
  order they are taken), and the process-wide metrics. \<open>None\<close> is undefined behaviour or a call that
  never returns (only possible in \<open>encode_frame\<close> on a malformed frame and in the doubling loop of
  the mapped file).
\<close>

section \<open>State\<close>

record RecorderStats =
  frames_written :: u64
  bytes_written :: u64
  fsyncs_total :: u64
  files_rolled :: u64
  write_errors :: u64
  file_open_failures :: u64
  is_recording :: bool
  degraded_mode :: bool

record Recorder =
  data_dir :: string
  roll_bytes :: u64
  index_interval :: u32
  fsync_interval :: u32
  rec_running :: bool
  mdf_file :: "MappedAppendFile option"
  idx_file :: "MappedAppendFile option"
  current_mdf_path :: path
  current_idx_path :: path
  current_file_start_ts :: u64
  current_file_bytes :: u64
  current_idx_bytes :: u64
  current_frame_count :: u32
  frames_since_last_index :: u32
  unique_symbols :: "u32 set"
  last_fsync :: u64
  needs_fsync :: bool
  consecutive_failures :: u32
  stats :: RecorderStats

record rec_env =
  fs :: os
  rmetrics :: MetricsCollector
  wall_clock :: "u64 list"
  steady_clock :: "u64 list"
  free_space :: "u64 option list"
  slept_ms :: nat

type_synonym rec_state = "Recorder \<times> rec_env"

definition new_recorder :: "string \<Rightarrow> u64 \<Rightarrow> u32 \<Rightarrow> u32 \<Rightarrow> Recorder" where
  "new_recorder dir roll index fsync =
     \<lparr>data_dir = dir, roll_bytes = roll, index_interval = index, fsync_interval = fsync, rec_running = False,
      mdf_file = None, idx_file = None, current_mdf_path = '''', current_idx_path = '''',
      current_file_start_ts = 0, current_file_bytes = 0, current_idx_bytes = 0, current_frame_count = 0,
      frames_since_last_index = 0, unique_symbols = {}, last_fsync = 0, needs_fsync = False, consecutive_failures = 0,
      stats = \<lparr>frames_written = 0, bytes_written = 0, fsyncs_total = 0, files_rolled = 0, write_errors = 0,
        file_open_failures = 0, is_recording = False, degraded_mode = False\<rparr>\<rparr>"

section \<open>Readings from outside\<close>

definition wall_now :: "rec_env \<Rightarrow> u64 \<times> rec_env" where
  "wall_now e = (case wall_clock e of [] \<Rightarrow> (0, e) | t # ts \<Rightarrow> (t, e\<lparr>wall_clock := ts\<rparr>))"

definition steady_now :: "rec_env \<Rightarrow> u64 \<times> rec_env" where
  "steady_now e = (case steady_clock e of [] \<Rightarrow> (0, e) | t # ts \<Rightarrow> (t, e\<lparr>steady_clock := ts\<rparr>))"

definition count_metric :: "string \<Rightarrow> u64 \<Rightarrow> rec_state \<Rightarrow> rec_state" where
  "count_metric name n = (\<lambda>(r, e). (r, e\<lparr>rmetrics := increment_counter name n (rmetrics e)\<rparr>))"

definition gauge_metric :: "string \<Rightarrow> double \<Rightarrow> rec_state \<Rightarrow> rec_state" where
  "gauge_metric name v = (\<lambda>(r, e). (r, e\<lparr>rmetrics := set_gauge name v (rmetrics e)\<rparr>))"

definition with_stats :: "(RecorderStats \<Rightarrow> RecorderStats) \<Rightarrow> rec_state \<Rightarrow> rec_state" where
  "with_stats g = (\<lambda>(r, e). (r\<lparr>stats := g (stats r)\<rparr>, e))"

text \<open>A reading of \<open>None\<close> is a throwing \<open>std::filesystem::space\<close>; the code then assumes there is space.\<close>

definition check_disk_space :: "u64 \<Rightarrow> rec_state \<Rightarrow> bool \<times> rec_state" where
  "check_disk_space required_bytes = (\<lambda>(r, e). case free_space e of
     [] \<Rightarrow> (True, r, e)
   | s # ss \<Rightarrow> ((case s of None \<Rightarrow> True | Some available \<Rightarrow> \<not> available < required_bytes), r, e\<lparr>free_space := ss\<rparr>))"

fun frame_ts :: "FrameBody \<Rightarrow> u64" where
  "frame_ts (BL1 b) = l1_ts_ns b"
| "frame_ts (BL2 b) = l2_ts_ns b"
| "frame_ts (BTrade b) = tr_ts_ns b"
| "frame_ts (BHb b) = hb_ts_ns b"
| "frame_ts (BAck b) = 0"

fun frame_symbol :: "FrameBody \<Rightarrow> u32" where
  "frame_symbol (BL1 b) = l1_symbol_id b"
| "frame_symbol (BL2 b) = l2_symbol_id b"
| "frame_symbol (BTrade b) = tr_symbol_id b"
| "frame_symbol (BHb b) = 0"
| "frame_symbol (BAck b) = 0"

section \<open>Header, index and fsync\<close>

definition mdf_header :: "u64 \<Rightarrow> u64 \<Rightarrow> u32 \<Rightarrow> u32 \<Rightarrow> MdfHeader" where
  "mdf_header start_ts end_ts symbols frames =
     \<lparr>mdf_magic = 0x4D444649, mdf_version = 1, mdf_reserved = 0, mdf_start_ts_ns = start_ts, mdf_end_ts_ns = end_ts,
      mdf_symbol_count = symbols, mdf_frame_count = frames\<rparr>"

definition update_mdf_header :: "rec_state \<Rightarrow> rec_state option" where
  "update_mdf_header = (\<lambda>(r, e). case mdf_file r of
     None \<Rightarrow> Some (r, e)
   | Some f \<Rightarrow>
       let (now, e1) = wall_now e;
           hdr = mdf_header (current_file_start_ts r) now (of_nat (card (unique_symbols r))) (current_frame_count r)
       in map_option (\<lambda>(ok, s). (r, e1\<lparr>fs := s\<rparr>)) (write_at 0 (MdfHeader_bytes hdr) (f, fs e1)))"

definition write_index_entry :: "u64 \<Rightarrow> u64 \<Rightarrow> rec_state \<Rightarrow> rec_state option" where
  "write_index_entry timestamp_ns offset = (\<lambda>(r, e). case idx_file r of
     None \<Rightarrow> Some (r, e)
   | Some f \<Rightarrow>
       (case append_data (IndexEntry_bytes \<lparr>ts_ns_first = timestamp_ns, file_offset = offset\<rparr>) (f, fs e) of
          None \<Rightarrow> None
        | Some (Inl _, f1, s1) \<Rightarrow>
            Some (count_metric ''recorder_index_write_errors_total'' 1 (r\<lparr>idx_file := Some f1\<rparr>, e\<lparr>fs := s1\<rparr>))
        | Some (Inr idx_offset, f1, s1) \<Rightarrow>
            Some (r\<lparr>idx_file := Some f1, current_idx_bytes := idx_offset + of_nat sizeof_IndexEntry\<rparr>, e\<lparr>fs := s1\<rparr>)))"

definition flush_file :: "MappedAppendFile option \<Rightarrow> rec_env \<Rightarrow> rec_env" where
  "flush_file file e = (case file of None \<Rightarrow> e | Some f \<Rightarrow> e\<lparr>fs := snd (flush (f, fs e))\<rparr>)"

definition fsync_files :: "rec_state \<Rightarrow> rec_state option" where
  "fsync_files st = do {
     (r, e) \<leftarrow> update_mdf_header st;
     let e1 = flush_file (idx_file r) (flush_file (mdf_file r) e);
     let (now, e2) = steady_now e1;
     let st1 = (r\<lparr>last_fsync := now, needs_fsync := False\<rparr>, e2);
     Some (count_metric ''recorder_fsyncs_total'' 1 (with_stats (\<lambda>s. s\<lparr>fsyncs_total := fsyncs_total s + 1\<rparr>) st1))
   }"

section \<open>Opening and closing files\<close>

definition close_file :: "u64 \<Rightarrow> MappedAppendFile \<Rightarrow> rec_env \<Rightarrow> rec_env" where
  "close_file n f e = e\<lparr>fs := snd (destroy_file (close_and_truncate n (f, fs e)))\<rparr>"

definition close_current_files :: "rec_state \<Rightarrow> rec_state option" where
  "close_current_files st = do {
     (r, e) \<leftarrow> update_mdf_header st;
     let e1 = (case mdf_file r of None \<Rightarrow> e | Some f \<Rightarrow> close_file (current_file_bytes r) f e);
     let e2 = (case idx_file r of None \<Rightarrow> e1 | Some f \<Rightarrow> close_file (current_idx_bytes r) f e1);
     let r1 = r\<lparr>mdf_file := None, idx_file := None\<rparr>;
     Some (if current_mdf_path r \<noteq> '''' then r1\<lparr>current_mdf_path := '''', current_idx_path := ''''\<rparr> else r1, e2)
   }"

definition open_mdf :: "path \<Rightarrow> u64 \<Rightarrow> rec_state \<Rightarrow> (bool \<times> rec_state) option" where
  "open_mdf new_mdf_path timestamp_ns = (\<lambda>(r, e).
     let (ok, f, s) = open_file new_mdf_path (64 * 1024 * 1024) (new_mapped_file, fs e) in
     if \<not> ok then Some (False, r, e\<lparr>fs := snd (destroy_file (f, s))\<rparr>)
     else (case append_data (MdfHeader_bytes (mdf_header timestamp_ns timestamp_ns 0 0)) (f, s) of
        None \<Rightarrow> None
      | Some (Inl _, f1, s1) \<Rightarrow> Some (False, r, e\<lparr>fs := snd (destroy_file (f1, s1))\<rparr>)
      | Some (Inr _, f1, s1) \<Rightarrow> Some (True, r\<lparr>mdf_file := Some f1, current_mdf_path := new_mdf_path\<rparr>, e\<lparr>fs := s1\<rparr>)))"

definition open_idx :: "path \<Rightarrow> rec_state \<Rightarrow> (bool \<times> rec_state) option" where
  "open_idx new_idx_path = (\<lambda>(r, e).
     let (ok, f, s) = open_file new_idx_path (4 * 1024 * 1024) (new_mapped_file, fs e) in
     if \<not> ok then Some (False, r, e\<lparr>fs := snd (destroy_file (f, s))\<rparr>)
     else Some (True, r\<lparr>idx_file := Some f, current_idx_path := new_idx_path\<rparr>, e\<lparr>fs := s\<rparr>))"

definition sleep_ms :: "nat \<Rightarrow> rec_state \<Rightarrow> rec_state" where
  "sleep_ms n = (\<lambda>(r, e). (r, e\<lparr>slept_ms := slept_ms e + n\<rparr>))"

function retry_from :: "(rec_state \<Rightarrow> (bool \<times> rec_state) option) \<Rightarrow> nat \<Rightarrow> nat \<Rightarrow> nat \<Rightarrow> rec_state \<Rightarrow> (bool \<times> rec_state) option" where
  "retry_from operation max_retries delay_ms attempt st =
     (if attempt < max_retries then
        (case operation st of
           None \<Rightarrow> None
         | Some (ok, st1) \<Rightarrow>
             if ok then Some (True, st1)
             else retry_from operation max_retries delay_ms (attempt + 1)
               (if attempt < max_retries - 1 then sleep_ms (delay_ms * 2 ^ attempt) st1 else st1))
      else Some (False, st))"
  by pat_completeness auto
termination
  by (relation "measure (\<lambda>(_, m, _, a, _). m - a)") auto

declare retry_from.simps [simp del]

definition retry_operation :: "(rec_state \<Rightarrow> (bool \<times> rec_state) option) \<Rightarrow> nat \<Rightarrow> nat \<Rightarrow> rec_state \<Rightarrow> (bool \<times> rec_state) option" where
  "retry_operation operation max_retries delay_ms = retry_from operation max_retries delay_ms 0"

definition open_failed :: "string \<Rightarrow> rec_state \<Rightarrow> rec_state" where
  "open_failed metric st =
     count_metric metric 1 (with_stats (\<lambda>s. s\<lparr>file_open_failures := file_open_failures s + 1\<rparr>) st)"

definition open_new_files :: "u64 \<Rightarrow> rec_state \<Rightarrow> (bool \<times> rec_state) option" where
  "open_new_files timestamp_ns st = (
     let base = generate_filename (data_dir (fst st)) timestamp_ns;
         (space, st1) = check_disk_space (100 * 1024 * 1024) st in
     if \<not> space then Some (False, open_failed ''recorder_disk_full_errors_total'' st1)
     else do {
       (mdf_ok, st2) \<leftarrow> retry_operation (open_mdf (base @ ''.mdf'') timestamp_ns) 3 100 st1;
       if \<not> mdf_ok then Some (False, open_failed ''recorder_file_open_errors_total'' st2)
       else do {
         (idx_ok, st3) \<leftarrow> retry_operation (open_idx (base @ ''.idx'')) 3 100 st2;
         if \<not> idx_ok then
           let (r, e) = open_failed ''recorder_file_open_errors_total'' st3 in
           Some (False, case mdf_file r of None \<Rightarrow> (r, e)
             | Some f \<Rightarrow> (r\<lparr>mdf_file := None, current_mdf_path := ''''\<rparr>, close_file (of_nat sizeof_MdfHeader) f e))
         else
           let (r, e) = st3 in
           Some (True, r\<lparr>current_file_start_ts := timestamp_ns, current_file_bytes := of_nat sizeof_MdfHeader,
             current_idx_bytes := 0, current_frame_count := 0, frames_since_last_index := 0, unique_symbols := {}\<rparr>, e)
       }
     })"

definition roll_file_if_needed :: "u64 \<Rightarrow> rec_state \<Rightarrow> rec_state option" where
  "roll_file_if_needed timestamp_ns st = (
     if mdf_file (fst st) = None \<or> idx_file (fst st) = None \<or> roll_bytes (fst st) \<le> current_file_bytes (fst st)
     then do {
       st1 \<leftarrow> close_current_files st;
       (ok, r, e) \<leftarrow> open_new_files timestamp_ns st1;
       if \<not> ok then Some (r\<lparr>consecutive_failures := consecutive_failures r + 1\<rparr>, e)
       else Some (with_stats (\<lambda>s. s\<lparr>files_rolled := files_rolled s + 1\<rparr>) (r\<lparr>consecutive_failures := 0\<rparr>, e))
     }
     else Some st)"

section \<open>Writing\<close>

definition max_consecutive_failures :: u32 where
  "max_consecutive_failures = 10"

text \<open>Entering degraded mode, tested after every counted failure.\<close>

definition degrade_if_failing :: "rec_state \<Rightarrow> rec_state" where
  "degrade_if_failing st =
     (if max_consecutive_failures \<le> consecutive_failures (fst st)
      then gauge_metric ''recorder_degraded_mode'' 1 (with_stats (\<lambda>s. s\<lparr>degraded_mode := True\<rparr>) st) else st)"

definition count_failure :: "rec_state \<Rightarrow> rec_state" where
  "count_failure = (\<lambda>(r, e). with_stats (\<lambda>s. s\<lparr>write_errors := write_errors s + 1\<rparr>)
     (r\<lparr>consecutive_failures := consecutive_failures r + 1\<rparr>, e))"

text \<open>The part of \<open>write_frame\<close> behind a successful append at \<open>offset\<close> of \<open>n\<close> bytes.\<close>

definition frame_written :: "Frame \<Rightarrow> u64 \<Rightarrow> nat \<Rightarrow> rec_state \<Rightarrow> rec_state option" where
  "frame_written frame offset n = (\<lambda>(r, e). do {
     let r1 = r\<lparr>consecutive_failures := 0, current_file_bytes := offset + of_nat n,
       current_frame_count := current_frame_count r + 1,
       frames_since_last_index := frames_since_last_index r + 1, needs_fsync := True,
       stats := (stats r)\<lparr>frames_written := frames_written (stats r) + 1, bytes_written := bytes_written (stats r) + of_nat n\<rparr>\<rparr>;
     st2 \<leftarrow> (if index_interval r1 \<le> frames_since_last_index r1
       then do {
         (r2, e2) \<leftarrow> write_index_entry (frame_ts (body frame)) offset (r1, e);
         Some (r2\<lparr>frames_since_last_index := 0\<rparr>, e2)
       }
       else Some (r1, e));
     if current_frame_count (fst st2) mod 1000 = 0 then update_mdf_header st2 else Some st2
   })"

definition write_frame :: "Frame \<Rightarrow> rec_state \<Rightarrow> rec_state option" where
  "write_frame frame st = (
     if degraded_mode (stats (fst st)) then
       Some (count_metric ''dropped_frames'' 1 (count_metric ''recorder_degraded_drops_total'' 1
         (with_stats (\<lambda>s. s\<lparr>write_errors := write_errors s + 1\<rparr>) st)))
     else case mdf_file (fst st) of
       None \<Rightarrow> Some (degrade_if_failing (count_failure st))
     | Some f \<Rightarrow> do {
         encoded \<leftarrow> encode_frame frame [];
         (result, f1, s1) \<leftarrow> append_data encoded (f, fs (snd st));
         let st1 = ((fst st)\<lparr>mdf_file := Some f1\<rparr>, (snd st)\<lparr>fs := s1\<rparr>);
         case result of
           Inl _ \<Rightarrow> Some (degrade_if_failing (count_metric ''recorder_write_errors_total'' 1 (count_failure st1)))
         | Inr offset \<Rightarrow> frame_written frame offset (length encoded) st1
       })"

section \<open>The recording thread\<close>

text \<open>One frame of a batch: the scope of a latency timer, symbol tracking, roll and write.\<close>

definition record_frame :: "Frame \<Rightarrow> rec_state \<Rightarrow> rec_state option" where
  "record_frame frame = (\<lambda>(r, e). do {
     let (t0, e1) = steady_now e;
     let symb = frame_symbol (body frame);
     let r1 = (if symb > 0 then r\<lparr>unique_symbols := insert symb (unique_symbols r)\<rparr> else r);
     st2 \<leftarrow> roll_file_if_needed (frame_ts (body frame)) (r1, e1);
     (r3, e3) \<leftarrow> write_frame frame st2;
     let (t1, e4) = steady_now e3;
     m \<leftarrow> timer_destroy \<lparr>metric_name = ''recorder_write_frame_ns'', start_ns = t0, cancelled = False\<rparr> t1 (rmetrics e4);
     Some (r3, e4\<lparr>rmetrics := m\<rparr>)
   })"

fun record_frames :: "Frame list \<Rightarrow> rec_state \<Rightarrow> rec_state option" where
  "record_frames [] st = Some st"
| "record_frames (f # frames) st = Option.bind (record_frame f st) (record_frames frames)"

definition fsync_if_due :: "rec_state \<Rightarrow> rec_state option" where
  "fsync_if_due = (\<lambda>(r, e).
     let (now, e1) = steady_now e in
     if needs_fsync r \<and> int (unat (fsync_interval r)) * 1000000 \<le> sint (now - last_fsync r)
     then fsync_files (r, e1) else Some (r, e1))"

text \<open>
  One pass of the loop of \<open>recording_thread\<close> over a queue that delivers \<open>queue\<close> (the rest of the queue
  is returned), and the loop itself: \<open>polls\<close> is what the queue delivers at each pass while \<open>running_\<close>
  is still set.
\<close>

definition recording_pass :: "Frame list \<Rightarrow> rec_state \<Rightarrow> (Frame list \<times> rec_state) option" where
  "recording_pass queue st = (
     let batch = take 100 queue in
     if batch = [] then map_option (Pair queue) (fsync_if_due st)
     else do {
       st1 \<leftarrow> record_frames batch st;
       st2 \<leftarrow> fsync_if_due st1;
       let n = of_nat (length batch);
       let st3 = count_metric ''recorder_records_written_total'' n (count_metric ''recorder_frames_total'' n st2);
       Some (drop 100 queue, gauge_metric ''recorder_current_file_bytes'' (double_of_nat (unat (current_file_bytes (fst st3)))) st3)
     })"

fun recording_loop :: "Frame list list \<Rightarrow> Frame list \<Rightarrow> rec_state \<Rightarrow> (Frame list \<times> rec_state) option" where
  "recording_loop [] queue st = Some (queue, st)"
| "recording_loop (arrived # polls) queue st = do {
     (queue1, st1) \<leftarrow> recording_pass (queue @ arrived) st;
     recording_loop polls queue1 st1
   }"

definition recording_thread :: "Frame list list \<Rightarrow> rec_state \<Rightarrow> (Frame list \<times> rec_state) option" where
  "recording_thread polls = (\<lambda>(r, e). do {
     let (now, e1) = steady_now e;
     (queue, st) \<leftarrow> recording_loop polls [] (r\<lparr>last_fsync := now\<rparr>, e1);
     st1 \<leftarrow> (if needs_fsync (fst st) then fsync_files st else Some st);
     Some (queue, st1)
   })"

definition rec_start :: "Recorder \<Rightarrow> bool \<times> Recorder" where
  "rec_start r = (if rec_running r then (False, r)
     else (True, r\<lparr>rec_running := True, stats := (stats r)\<lparr>is_recording := True\<rparr>\<rparr>))"

text \<open>\<open>stop\<close>, after the worker thread has been joined.\<close>

definition rec_stop :: "rec_state \<Rightarrow> rec_state option" where
  "rec_stop = (\<lambda>(r, e). if \<not> rec_running r then Some (r, e)
     else map_option (with_stats (\<lambda>s. s\<lparr>is_recording := False\<rparr>)) (close_current_files (r\<lparr>rec_running := False\<rparr>, e)))"

definition force_roll :: "Recorder \<Rightarrow> Recorder" where
  "force_roll r = r\<lparr>current_file_bytes := roll_bytes r\<rparr>"

end
