(* ===== verification/Archive.thy ===== *)
theory Archive
  imports Recorder
begin

text \<open>
  What the recorder promises: its data directory is an archive of segments, each a sequence of frames
  with an index of some of them, and handling a frame rolls to a new segment at most once and appends
  the frame to the current segment or drops it. \<open>archive_roll\<close> and \<open>archive_write\<close> are that
  specification; \<open>sim\<close> relates it to the recorder's state and the bytes on disk.
\<close>

section \<open>The abstract archive\<close>

record segment =
  seg_start :: u64
  seg_frames :: "Frame list"
  seg_index :: "nat list"  \<comment> \<open>positions of the indexed frames\<close>

record archive =
  segments :: "string \<rightharpoonup> segment"  \<comment> \<open>by the path without its extension\<close>
  cur :: "string option"

definition empty_segment :: "u64 \<Rightarrow> segment" where
  "empty_segment ts = \<lparr>seg_start = ts, seg_frames = [], seg_index = []\<rparr>"

definition add_frame :: "Frame \<Rightarrow> bool \<Rightarrow> segment \<Rightarrow> segment" where
  "add_frame f indexed seg = seg\<lparr>seg_frames := seg_frames seg @ [f],
     seg_index := seg_index seg @ (if indexed then [length (seg_frames seg)] else [])\<rparr>"

text \<open>
  Making room for a frame with timestamp \<open>ts\<close>: nothing happens; the current segment is closed and no
  new one could be opened, which may have destroyed a segment of the same name; or a new segment is
  current, replacing one of the same name.
\<close>

inductive archive_roll :: "string \<Rightarrow> u64 \<Rightarrow> archive \<Rightarrow> archive \<Rightarrow> bool" for dir ts where
  stay: "cur A \<noteq> None \<Longrightarrow> archive_roll dir ts A A"
| no_space: "archive_roll dir ts A (A\<lparr>cur := None\<rparr>)"
| lost: "archive_roll dir ts A \<lparr>segments = (segments A)(generate_filename dir ts := None), cur = None\<rparr>"
| rolled: "archive_roll dir ts A
    \<lparr>segments = (segments A)(generate_filename dir ts \<mapsto> empty_segment ts), cur = Some (generate_filename dir ts)\<rparr>"

inductive archive_write :: "Frame \<Rightarrow> archive \<Rightarrow> archive \<Rightarrow> bool" for f where
  dropped: "archive_write f A A"
| written: "cur A = Some b \<Longrightarrow> segments A b = Some seg \<Longrightarrow>
    archive_write f A (A\<lparr>segments := (segments A)(b \<mapsto> add_frame f ix seg)\<rparr>)"

inductive_cases archive_writeE: "archive_write f A A'"

section \<open>Segments as bytes\<close>

definition frame_offset :: "segment \<Rightarrow> nat \<Rightarrow> nat" where
  "frame_offset seg k = sizeof_MdfHeader + length (concat (map frame_bytes (take k (seg_frames seg))))"

definition index_entry :: "segment \<Rightarrow> nat \<Rightarrow> IndexEntry" where
  "index_entry seg k = \<lparr>ts_ns_first = frame_ts (body (seg_frames seg ! k)), file_offset = of_nat (frame_offset seg k)\<rparr>"

definition mdf_ok :: "MdfHeader \<Rightarrow> segment \<Rightarrow> bool" where
  "mdf_ok h seg \<longleftrightarrow> mdf_magic h = 0x4D444649 \<and> mdf_version h = 1 \<and> mdf_start_ts_ns h = seg_start seg"

definition mdf_data :: "MdfHeader \<Rightarrow> segment \<Rightarrow> byte list" where
  "mdf_data h seg = MdfHeader_bytes h @ concat (map frame_bytes (seg_frames seg))"

definition idx_data :: "segment \<Rightarrow> byte list" where
  "idx_data seg = concat (map (\<lambda>k. IndexEntry_bytes (index_entry seg k)) (seg_index seg))"

definition wf_segment :: "segment \<Rightarrow> bool" where
  "wf_segment seg \<longleftrightarrow> (\<forall>f \<in> set (seg_frames seg). wf_frame f)
     \<and> sorted_wrt (<) (seg_index seg) \<and> (\<forall>k \<in> set (seg_index seg). k < length (seg_frames seg))"

text \<open>A segment on disk; zeros may follow the data while the file is open or when it could not be cut.\<close>

definition shows_segment :: "(string \<rightharpoonup> byte list) \<Rightarrow> string \<Rightarrow> segment \<Rightarrow> bool" where
  "shows_segment d b seg \<longleftrightarrow>
     (\<exists>h pad. mdf_ok h seg \<and> d (b @ ''.mdf'') = Some (mdf_data h seg @ replicate pad 0))
     \<and> (\<exists>pad. d (b @ ''.idx'') = Some (idx_data seg @ replicate pad 0))"

definition cur_files :: "Recorder \<Rightarrow> os \<Rightarrow> string \<Rightarrow> segment \<Rightarrow> bool" where
  "cur_files r s b seg \<longleftrightarrow> (\<exists>f g h. mdf_file r = Some f \<and> idx_file r = Some g
     \<and> mpath f = b @ ''.mdf'' \<and> mpath g = b @ ''.idx'' \<and> mdf_ok h seg
     \<and> holds f s (mdf_data h seg) \<and> holds g s (idx_data seg)
     \<and> fsize f \<le> current_file_bytes r \<and> current_idx_bytes r = fsize g \<and> current_file_start_ts r = seg_start seg)"

definition sim :: "rec_state \<Rightarrow> archive \<Rightarrow> bool" where
  "sim st A \<longleftrightarrow>
     (\<forall>b seg. segments A b = Some seg \<longrightarrow> wf_segment seg \<and> shows_segment (disk (fs (snd st))) b seg)
     \<and> (case cur A of
          None \<Rightarrow> mdf_file (fst st) = None \<and> idx_file (fst st) = None
        | Some b \<Rightarrow> \<exists>seg. segments A b = Some seg \<and> cur_files (fst st) (fs (snd st)) b seg)"

section \<open>Frame conditions\<close>

lemma append_suffix_eq [simp]:
  "b @ ''.mdf'' \<noteq> c @ ''.idx''" "b @ ''.idx'' \<noteq> c @ ''.mdf''"
  by (simp_all add: append_eq_append_conv2 Cons_eq_append_conv append_eq_Cons_conv)

lemma holds_cong: "disk s' (mpath f) = disk s (mpath f) \<Longrightarrow> holds f s' d = holds f s d"
  by (simp add: holds_def)

lemma cur_files_shows: "cur_files r s b seg \<Longrightarrow> shows_segment (disk s) b seg"
  unfolding cur_files_def shows_segment_def holds_def by metis

lemma shows_other:
  "shows_segment d b seg \<Longrightarrow> b \<noteq> c \<Longrightarrow> (\<And>p. p \<noteq> c @ ''.mdf'' \<Longrightarrow> p \<noteq> c @ ''.idx'' \<Longrightarrow> d' p = d p) \<Longrightarrow> shows_segment d' b seg"
  by (simp add: shows_segment_def)

text \<open>Replacing the current segment, or losing it, leaves the others as they are.\<close>

lemma sim_current:
  assumes "\<And>b' seg. b' \<noteq> b \<Longrightarrow> segments A b' = Some seg \<Longrightarrow> wf_segment seg \<and> shows_segment d b' seg"
    and "\<And>p. p \<noteq> b @ ''.mdf'' \<Longrightarrow> p \<noteq> b @ ''.idx'' \<Longrightarrow> disk (fs e) p = d p"
    and "wf_segment seg" "cur_files r (fs e) b seg"
  shows "sim (r, e) \<lparr>segments = (segments A)(b \<mapsto> seg), cur = Some b\<rparr>"
  using assms shows_other [of d _ _ b "disk (fs e)"] cur_files_shows [OF assms(4)]
  by (auto simp: sim_def split: if_splits)

lemma simD_current:
  "sim (r, e) A \<Longrightarrow> cur A = Some b \<Longrightarrow> \<exists>seg. segments A b = Some seg \<and> wf_segment seg \<and> cur_files r (fs e) b seg"
  by (auto simp: sim_def)

lemma simD_other:
  "sim (r, e) A \<Longrightarrow> segments A b = Some seg \<Longrightarrow> wf_segment seg \<and> shows_segment (disk (fs e)) b seg"
  by (auto simp: sim_def)

lemma sim_replace:
  assumes "sim (r, e) A" "cur A = Some b" "wf_segment seg" "cur_files r' (fs e') b seg"
    and "\<And>p. p \<noteq> b @ ''.mdf'' \<Longrightarrow> p \<noteq> b @ ''.idx'' \<Longrightarrow> disk (fs e') p = disk (fs e) p"
  shows "sim (r', e') (A\<lparr>segments := (segments A)(b \<mapsto> seg)\<rparr>)"
proof -
  have eq: "A\<lparr>segments := (segments A)(b \<mapsto> seg)\<rparr> = \<lparr>segments = (segments A)(b \<mapsto> seg), cur = Some b\<rparr>"
    using assms(2) by (cases A) simp
  show ?thesis unfolding eq using sim_current [of b A "disk (fs e)" e' seg r'] assms simD_other [OF assms(1)] by auto
qed

lemma sim_keep:
  assumes "sim (r, e) A" "cur A = Some b" "segments A b = Some seg" "cur_files r' (fs e') b seg"
    and "\<And>p. p \<noteq> b @ ''.mdf'' \<Longrightarrow> p \<noteq> b @ ''.idx'' \<Longrightarrow> disk (fs e') p = disk (fs e) p"
  shows "sim (r', e') A"
  using sim_replace [OF assms(1,2) _ assms(4,5)] assms(3) simD_other [OF assms(1,3)] by (simp add: fun_upd_idem)

lemma sim_cong:
  assumes "sim (r, e) A" "mdf_file r' = mdf_file r" "idx_file r' = idx_file r" "current_file_bytes r' = current_file_bytes r"
    "current_idx_bytes r' = current_idx_bytes r" "current_file_start_ts r' = current_file_start_ts r" "disk (fs e') = disk (fs e)"
  shows "sim (r', e') A"
  using assms holds_cong [of "fs e'" _ "fs e"] by (auto simp: sim_def cur_files_def split: option.splits)

lemma wall_now_disk [dest]: "wall_now e = (t, e') \<Longrightarrow> fs e' = fs e"
  by (auto simp: wall_now_def split: list.splits)

lemma steady_now_disk [dest]: "steady_now e = (t, e') \<Longrightarrow> fs e' = fs e"
  by (auto simp: steady_now_def split: list.splits)

section \<open>Header, index, fsync\<close>

lemma unat_eq_plus_16: "length (d :: byte list) + 16 = unat (w :: u64) \<Longrightarrow> unat off = length d \<Longrightarrow> w = off + 16"
proof -
  assume "length d + 16 = unat w" "unat off = length d"
  then have "of_nat (unat w) = (of_nat (unat off + 16) :: u64)" by simp
  then show ?thesis by simp
qed

lemma mdf_header_ok [simp]: "mdf_ok (mdf_header (seg_start seg) t n k) seg"
  by (simp add: mdf_ok_def mdf_header_def)

lemma drop_mdf_data: "drop 32 (mdf_data h seg) = concat (map frame_bytes (seg_frames seg))"
  by (simp add: mdf_data_def)

lemma update_mdf_header_sim:
  assumes s: "sim (r, e) A" and u: "update_mdf_header (r, e) = Some (r', e')"
  shows "sim (r', e') A \<and> r' = r"
proof (cases "cur A")
  case None
  then show ?thesis using s u by (auto simp: sim_def update_mdf_header_def)
next
  case (Some b)
  obtain seg f g h where seg: "segments A b = Some seg" and f: "mdf_file r = Some f" "idx_file r = Some g" "mpath f = b @ ''.mdf''"
    "mpath g = b @ ''.idx''" "mdf_ok h seg" "holds f (fs e) (mdf_data h seg)" "holds g (fs e) (idx_data seg)"
    and c: "fsize f \<le> current_file_bytes r" "current_idx_bytes r = fsize g" "current_file_start_ts r = seg_start seg"
    using simD_current [OF s Some] by (auto simp: cur_files_def)
  obtain now e1 where w: "wall_now e = (now, e1)" by fastforce
  let ?h = "mdf_header (seg_start seg) now (of_nat (card (unique_symbols r))) (current_frame_count r)"
  obtain ok s' where wr: "write_at 0 (MdfHeader_bytes ?h) (f, fs e) = Some (ok, s')" and r: "r' = r" "e' = e1\<lparr>fs := s'\<rparr>"
    using u f(1) w c(3) by (auto simp: update_mdf_header_def)
  note law = write_at_law [OF f(6) wr]
  have "\<exists>h'. mdf_ok h' seg \<and> holds f s' (mdf_data h' seg)"
  proof (cases ok)
    case True
    then have "holds f s' (mdf_data ?h seg)" using law by (simp add: mdf_data_def)
    then show ?thesis using mdf_header_ok by blast
  qed (use law f(5) in auto)
  moreover have "holds g s' (idx_data seg)" using law f(3,4,7) holds_cong [of s' g "fs e"] by simp
  ultimately have "cur_files r (fs e') b seg" using f c r by (auto simp: cur_files_def)
  then show ?thesis using sim_keep [OF s Some seg, of r e'] law f(3) r by auto
qed

lemma length_index_entry [simp]: "length (IndexEntry_bytes x) = 16"
  by simp

lemma write_index_entry_sim:
  assumes s: "sim (r, e) A" and c: "cur A = Some b" and seg: "segments A b = Some seg"
    and k: "k < length (seg_frames seg)" "\<forall>i \<in> set (seg_index seg). i < k"
    and w: "write_index_entry (frame_ts (body (seg_frames seg ! k))) (of_nat (frame_offset seg k)) (r, e) = Some (r', e')"
  shows "(sim (r', e') A \<or> sim (r', e') (A\<lparr>segments := (segments A)(b \<mapsto> seg\<lparr>seg_index := seg_index seg @ [k]\<rparr>)\<rparr>))
    \<and> mdf_file r' = mdf_file r"
proof -
  obtain f g h where f: "mdf_file r = Some f" "idx_file r = Some g" "mpath f = b @ ''.mdf''"
    "mpath g = b @ ''.idx''" "mdf_ok h seg" "holds f (fs e) (mdf_data h seg)" "holds g (fs e) (idx_data seg)"
    and cc: "fsize f \<le> current_file_bytes r" "current_idx_bytes r = fsize g" "current_file_start_ts r = seg_start seg"
    and wf: "wf_segment seg"
    using simD_current [OF s c] seg by (auto simp: cur_files_def)
  let ?x = "IndexEntry_bytes (index_entry seg k)"
  obtain res g1 s1 where a: "append_data ?x (g, fs e) = Some (res, g1, s1)"
    using w f(2) by (auto simp: write_index_entry_def index_entry_def split: option.splits)
  note law = append_data_law [OF f(7) a]
  have m: "holds f s1 (mdf_data h seg)" using law f(3,4,6) holds_cong [of s1 f "fs e"] by simp
  show ?thesis
  proof (cases res)
    case (Inl u)
    then have r: "r' = r\<lparr>idx_file := Some g1\<rparr>" "fs e' = s1"
      using w f(2) a by (auto simp: write_index_entry_def index_entry_def count_metric_def)
    moreover have "fsize g1 = fsize g"
      using law Inl f(7) by (auto simp: holds_def word_unat_eq_iff)
    ultimately have "cur_files r' (fs e') b seg" using f cc law Inl m by (auto simp: cur_files_def)
    then show ?thesis using sim_keep [OF s c seg, of r' e'] law f(4) r by auto
  next
    case (Inr off)
    let ?seg = "seg\<lparr>seg_index := seg_index seg @ [k]\<rparr>"
    have r: "r' = r\<lparr>idx_file := Some g1, current_idx_bytes := off + 16\<rparr>" "fs e' = s1"
      using w f(2) a Inr by (auto simp: write_index_entry_def index_entry_def)
    have d: "idx_data ?seg = idx_data seg @ ?x" by (simp add: idx_data_def index_entry_def frame_offset_def)
    then have g1: "holds g1 s1 (idx_data ?seg)" using law Inr by simp
    then have "fsize g1 = off + 16" using law Inr d by (intro unat_eq_plus_16 [of "idx_data seg"]) (simp_all add: holds_def)
    then have "cur_files r' (fs e') b ?seg"
      using f cc g1 m r law by (auto simp: cur_files_def mdf_ok_def mdf_data_def)
    moreover have "wf_segment ?seg" using wf k by (auto simp: wf_segment_def sorted_wrt_append)
    ultimately show ?thesis using sim_replace [OF s c, of ?seg r' e'] law f(4) r by auto
  qed
qed

lemma flush_file_disk [simp]: "disk (fs (flush_file f e)) = disk (fs e)"
  using flush_disk by (cases f) (auto simp: flush_file_def intro: flush_disk [OF prod.collapse [symmetric]])

lemma fsync_files_sim:
  assumes "sim (r, e) A" "fsync_files (r, e) = Some (r', e')"
  shows "sim (r', e') A"
proof -
  obtain r1 e1 where u: "update_mdf_header (r, e) = Some (r1, e1)"
    using assms(2) by (auto simp: fsync_files_def bind_eq_Some_conv)
  from update_mdf_header_sim [OF assms(1) u] have "sim (r1, e1) A" by (rule conjunct1)
  then show ?thesis
    by (rule sim_cong)
      (use u assms(2) in \<open>auto simp: fsync_files_def with_stats_def count_metric_def Let_def split: prod.splits\<close>)
qed

section \<open>Closing and opening\<close>

lemma close_file_sim:
  assumes h: "holds f (fs e) d" and n: "fsize f \<le> n"
  shows "(\<forall>p. p \<noteq> mpath f \<longrightarrow> disk (fs (close_file n f e)) p = disk (fs e) p)
    \<and> (\<exists>pad. disk (fs (close_file n f e)) (mpath f) = Some (d @ replicate pad 0))"
proof -
  obtain f' s' where c: "close_and_truncate n (f, fs e) = (f', s')" by fastforce
  have l: "length d \<le> unat n" using h n by (simp add: holds_def word_le_nat_alt)
  show ?thesis
  proof (cases "is_open f")
    case True
    note law = close_and_truncate_law [OF h True c]
    then have "destroy_file (f', s') = (f', s')"
      by (simp add: destroy_file_def close_and_truncate_def is_open_def)
    then show ?thesis using law c l by (auto simp: close_file_def intro: exI [of _ 0])
  next
    case False
    then have "close_file n f e = e" by (simp add: close_file_def destroy_file_def close_and_truncate_def)
    then show ?thesis using h by (auto simp: holds_def)
  qed
qed

lemma close_current_files_sim:
  assumes s: "sim (r, e) A" and c: "close_current_files (r, e) = Some (r', e')"
  shows "sim (r', e') (A\<lparr>cur := None\<rparr>) \<and> data_dir r' = data_dir r"
proof -
  obtain r1 e1 where u: "update_mdf_header (r, e) = Some (r1, e1)"
    using c by (auto simp: close_current_files_def bind_eq_Some_conv)
  then have s1: "sim (r, e1) A" and r1: "r1 = r" using update_mdf_header_sim [OF s u] by auto
  define e2 where "e2 = (case mdf_file r of None \<Rightarrow> e1 | Some f \<Rightarrow> close_file (current_file_bytes r) f e1)"
  define e3 where "e3 = (case idx_file r of None \<Rightarrow> e2 | Some f \<Rightarrow> close_file (current_idx_bytes r) f e2)"
  have r': "mdf_file r' = None" "idx_file r' = None" "data_dir r' = data_dir r" "e' = e3"
    unfolding e3_def e2_def using c u r1 by (auto simp: close_current_files_def Let_def)
  have "shows_segment (disk (fs e3)) b' seg" if seg: "segments A b' = Some seg" for b' seg
  proof (cases "cur A")
    case None
    then show ?thesis using s1 seg by (auto simp: sim_def e2_def e3_def)
  next
    case (Some b)
    then obtain seg0 f g h where f: "mdf_file r = Some f" "idx_file r = Some g" "mpath f = b @ ''.mdf''" "mpath g = b @ ''.idx''"
      "mdf_ok h seg0" "holds f (fs e1) (mdf_data h seg0)" "holds g (fs e1) (idx_data seg0)" "fsize f \<le> current_file_bytes r"
      "fsize g \<le> current_idx_bytes r" "segments A b = Some seg0"
      using simD_current [OF s1 Some] by (auto simp: cur_files_def)
    note cf = close_file_sim [OF f(6) f(8)]
    have "holds g (fs e2) (idx_data seg0)" using cf f holds_cong [of "fs e2" g "fs e1"] by (simp add: e2_def)
    note cg = close_file_sim [OF this f(9)]
    show ?thesis
    proof (cases "b' = b")
      case True
      then show ?thesis using cf cg f seg by (auto simp: shows_segment_def e2_def e3_def)
    next
      case False
      have "disk (fs e3) p = disk (fs e1) p" if "p \<noteq> b @ ''.mdf''" "p \<noteq> b @ ''.idx''" for p
        using that cf cg f by (simp add: e2_def e3_def)
      then show ?thesis using shows_other [OF _ False] simD_other [OF s1 seg] by blast
    qed
  qed
  then show ?thesis using r' simD_other [OF s1] by (auto simp: sim_def)
qed

text \<open>What one attempt to open a file does to the disk and the recorder.\<close>

lemma destroy_closed: "\<not> is_open f \<Longrightarrow> destroy_file (f, s) = (f, s)"
  by (simp add: destroy_file_def close_and_truncate_def)

lemma open_mdf_law:
  assumes "open_mdf p ts (r, e) = Some (ok, r', e')"
  shows "(\<forall>q. q \<noteq> p \<longrightarrow> disk (fs e') q = disk (fs e) q)
    \<and> (if ok then \<exists>f. r' = r\<lparr>mdf_file := Some f, current_mdf_path := p\<rparr> \<and> mpath f = p
         \<and> holds f (fs e') (MdfHeader_bytes (mdf_header ts ts 0 0)) else r' = r)"
proof -
  let ?x = "MdfHeader_bytes (mdf_header ts ts 0 0)"
  obtain ok1 f s where o: "open_file p (64 * 1024 * 1024) (new_mapped_file, fs e) = (ok1, f, s)" by (metis prod_cases3)
  note law = open_file_law [OF _ o]
  show ?thesis
  proof (cases ok1)
    case True
    then have h: "holds f s []" "mpath f = p" "\<forall>q. q \<noteq> p \<longrightarrow> disk s q = disk (fs e) q"
      using law by (simp_all add: new_mapped_file_def)
    obtain res f1 s1 where a: "append_data ?x (f, s) = Some (res, f1, s1)"
      using assms o True by (auto simp: open_mdf_def Let_def split: option.splits)
    note alaw = append_data_law [OF h(1) a]
    show ?thesis using assms o True a alaw h(2,3) destroy_closed [of f1 s1]
      by (cases res) (auto simp: open_mdf_def Let_def)
  qed (use assms o law destroy_closed [of f s] in \<open>auto simp: open_mdf_def Let_def new_mapped_file_def\<close>)
qed

lemma open_idx_law:
  assumes "open_idx p (r, e) = Some (ok, r', e')"
  shows "(\<forall>q. q \<noteq> p \<longrightarrow> disk (fs e') q = disk (fs e) q)
    \<and> (if ok then \<exists>f. r' = r\<lparr>idx_file := Some f, current_idx_path := p\<rparr> \<and> mpath f = p \<and> holds f (fs e') [] else r' = r)"
proof -
  obtain ok1 f s where o: "open_file p (4 * 1024 * 1024) (new_mapped_file, fs e) = (ok1, f, s)" by (metis prod_cases3)
  note law = open_file_law [OF _ o]
  show ?thesis
    using assms o law destroy_closed [of f s] by (cases ok1) (auto simp: open_idx_def Let_def new_mapped_file_def)
qed

lemmas open_mdf_step = open_mdf_law [of _ _ "fst st" "snd st" _ "fst st'" "snd st'" for st st', unfolded prod.collapse]
lemmas open_idx_step = open_idx_law [of _ "fst st" "snd st" _ "fst st'" "snd st'" for st st', unfolded prod.collapse]

text \<open>Retrying keeps what every failed attempt keeps and ends with what the last attempt gives.\<close>

lemma retry_from_rule:
  assumes "retry_from operation m d a st = Some (ok, st')" and "P st"
    and failed: "\<And>st1 st2. P st1 \<Longrightarrow> operation st1 = Some (False, st2) \<Longrightarrow> P st2"
    and succeeded: "\<And>st1 st2. P st1 \<Longrightarrow> operation st1 = Some (True, st2) \<Longrightarrow> Q st2"
    and slept: "\<And>st1 n. P st1 \<Longrightarrow> P (sleep_ms n st1)"
  shows "if ok then Q st' else P st'"
  using assms(1,2)
proof (induction "m - a" arbitrary: a st)
  case 0
  then show ?case by (simp add: retry_from.simps)
next
  case (Suc k)
  then have "a < m" by simp
  then obtain ok1 st1 where o: "operation st = Some (ok1, st1)"
    using Suc.prems(1) by (auto simp: retry_from.simps [of operation m d a] split: option.splits)
  show ?case
  proof (cases ok1)
    case True
    then show ?thesis using Suc.prems o \<open>a < m\<close> succeeded by (auto simp: retry_from.simps [of operation m d a])
  next
    case False
    let ?st = "if a < m - 1 then sleep_ms (d * 2 ^ a) st1 else st1"
    have "P st1" using failed Suc.prems(2) o False by simp
    then have "P ?st" using slept by simp
    moreover have "retry_from operation m d (a + 1) ?st = Some (ok, st')"
      using Suc.prems(1) o False \<open>a < m\<close> by (simp add: retry_from.simps [of operation m d a])
    ultimately show ?thesis using Suc.hyps(1) [of "a + 1" ?st] Suc.hyps(2) by simp
  qed
qed

lemma sim_lost:
  assumes "sim (r, e) A" "mdf_file r' = None" "idx_file r' = None"
    and "\<And>q. q \<noteq> b @ ''.mdf'' \<Longrightarrow> q \<noteq> b @ ''.idx'' \<Longrightarrow> disk (fs e') q = disk (fs e) q"
  shows "sim (r', e') \<lparr>segments = (segments A)(b := None), cur = None\<rparr>"
  using assms simD_other [OF assms(1)] shows_other [of "disk (fs e)" _ _ b "disk (fs e')"] by (auto simp: sim_def)

text \<open>
  The two retried phases of opening a pair of files with base name \<open>b\<close>, from a recorder \<open>r\<close> without
  files and a disk \<open>d\<close>: only the paths of \<open>b\<close> change.
\<close>

definition others_same :: "string \<Rightarrow> (string \<rightharpoonup> byte list) \<Rightarrow> rec_state \<Rightarrow> bool" where
  "others_same b d st \<longleftrightarrow> (\<forall>q. q \<noteq> b @ ''.mdf'' \<longrightarrow> q \<noteq> b @ ''.idx'' \<longrightarrow> disk (fs (snd st)) q = d q)"

definition mdf_opened :: "string \<Rightarrow> u64 \<Rightarrow> (string \<rightharpoonup> byte list) \<Rightarrow> MappedAppendFile \<Rightarrow> rec_state \<Rightarrow> bool" where
  "mdf_opened b ts d f st \<longleftrightarrow> mpath f = b @ ''.mdf'' \<and> others_same b d st
     \<and> holds f (fs (snd st)) (MdfHeader_bytes (mdf_header ts ts 0 0))"

lemma others_same_sleep [simp]: "others_same b d (sleep_ms n st) = others_same b d st"
  by (cases st) (simp add: others_same_def sleep_ms_def)

lemma fst_sleep [simp]: "fst (sleep_ms n st) = fst st"
  by (cases st) (simp add: sleep_ms_def)

lemma fs_sleep [simp]: "fs (snd (sleep_ms n st)) = fs (snd st)"
  by (cases st) (simp add: sleep_ms_def)

lemma retry_mdf:
  assumes "retry_operation (open_mdf (b @ ''.mdf'') ts) 3 100 st = Some (ok, st')" "others_same b d st"
  shows "if ok then \<exists>f. fst st' = (fst st)\<lparr>mdf_file := Some f, current_mdf_path := b @ ''.mdf''\<rparr> \<and> mdf_opened b ts d f st'
    else fst st' = fst st \<and> others_same b d st'"
proof (rule retry_from_rule [OF assms(1) [unfolded retry_operation_def]])
  fix st1 st2 assume "fst st1 = fst st \<and> others_same b d st1" "open_mdf (b @ ''.mdf'') ts st1 = Some (False, st2)"
  then show "fst st2 = fst st \<and> others_same b d st2"
    using open_mdf_step [of "b @ ''.mdf''" ts st1 False st2] by (simp add: others_same_def)
next
  fix st1 st2 assume "fst st1 = fst st \<and> others_same b d st1" "open_mdf (b @ ''.mdf'') ts st1 = Some (True, st2)"
  then show "\<exists>f. fst st2 = (fst st)\<lparr>mdf_file := Some f, current_mdf_path := b @ ''.mdf''\<rparr> \<and> mdf_opened b ts d f st2"
    using open_mdf_step [of "b @ ''.mdf''" ts st1 True st2]
    by (auto simp: others_same_def mdf_opened_def)
qed (use assms(2) in auto)

lemma retry_idx:
  assumes "retry_operation (open_idx (b @ ''.idx'')) 3 100 st = Some (ok, st')" "mdf_opened b ts d f st"
  shows "if ok then \<exists>g. fst st' = (fst st)\<lparr>idx_file := Some g, current_idx_path := b @ ''.idx''\<rparr> \<and> mpath g = b @ ''.idx''
      \<and> holds g (fs (snd st')) [] \<and> mdf_opened b ts d f st'
    else fst st' = fst st \<and> mdf_opened b ts d f st'"
proof (rule retry_from_rule [OF assms(1) [unfolded retry_operation_def]])
  fix st1 st2 assume 1: "fst st1 = fst st \<and> mdf_opened b ts d f st1" "open_idx (b @ ''.idx'') st1 = Some (False, st2)"
  then show "fst st2 = fst st \<and> mdf_opened b ts d f st2"
    using open_idx_step [of "b @ ''.idx''" st1 False st2] holds_cong [of "fs (snd st2)" f "fs (snd st1)"]
    by (simp add: others_same_def mdf_opened_def)
next
  fix st1 st2 assume 1: "fst st1 = fst st \<and> mdf_opened b ts d f st1" "open_idx (b @ ''.idx'') st1 = Some (True, st2)"
  then show "\<exists>g. fst st2 = (fst st)\<lparr>idx_file := Some g, current_idx_path := b @ ''.idx''\<rparr> \<and> mpath g = b @ ''.idx''
      \<and> holds g (fs (snd st2)) [] \<and> mdf_opened b ts d f st2"
    using open_idx_step [of "b @ ''.idx''" st1 True st2] holds_cong [of "fs (snd st2)" f "fs (snd st1)"]
    by (auto simp: others_same_def mdf_opened_def)
qed (use assms(2) in \<open>auto simp: mdf_opened_def\<close>)

lemma opened_sim:
  assumes s: "sim (r, e) A" and m: "mdf_opened b ts (disk (fs e)) f (r', e')"
    and g: "mdf_file r' = Some f" "idx_file r' = Some g" "mpath g = b @ ''.idx''" "holds g (fs e') []"
      "current_file_bytes r' = 32" "current_idx_bytes r' = 0" "current_file_start_ts r' = ts"
  shows "sim (r', e') \<lparr>segments = (segments A)(b \<mapsto> empty_segment ts), cur = Some b\<rparr>"
proof (rule sim_current)
  have f: "holds f (fs e') (mdf_data (mdf_header ts ts 0 0) (empty_segment ts))"
    "holds g (fs e') (idx_data (empty_segment ts))"
    using m g by (simp_all add: mdf_opened_def mdf_data_def empty_segment_def idx_data_def)
  then have "unat (fsize f) = 32" "unat (fsize g) = 0" by (simp_all add: holds_def mdf_data_def empty_segment_def idx_data_def)
  then have "fsize f \<le> 32" "fsize g = 0" by (simp_all add: word_le_nat_alt unat_eq_0)
  then show "cur_files r' (fs e') b (empty_segment ts)"
    using f g m mdf_header_ok [of "empty_segment ts"] by (auto simp: cur_files_def mdf_opened_def empty_segment_def)
  show "disk (fs e') p = disk (fs e) p" if "p \<noteq> b @ ''.mdf''" "p \<noteq> b @ ''.idx''" for p
    using that m by (simp add: mdf_opened_def others_same_def)
qed (use simD_other [OF s] in \<open>auto simp: wf_segment_def empty_segment_def\<close>)

text \<open>
  Opening a pair of files: on success the new segment is current and empty; on failure there is no
  current segment and at most a segment of the new name is lost.
\<close>

lemma open_failed_simps [simp]:
  "mdf_file (fst (open_failed m st)) = mdf_file (fst st)" "idx_file (fst (open_failed m st)) = idx_file (fst st)"
  "fs (snd (open_failed m st)) = fs (snd st)" "data_dir (fst (open_failed m st)) = data_dir (fst st)"
  by (cases st; simp add: open_failed_def count_metric_def with_stats_def)+

lemma check_disk_space_state: "check_disk_space n st = (b, st') \<Longrightarrow> fst st' = fst st \<and> fs (snd st') = fs (snd st)"
  by (auto simp: check_disk_space_def split: prod.splits list.splits)

text \<open>The second phase, from the point where the data file is open.\<close>

lemma open_idx_phase_sim:
  assumes s: "sim (r, e) A" and n: "idx_file r = None" and b: "mdf_opened b ts (disk (fs e)) f st2"
    and st2: "fst st2 = r\<lparr>mdf_file := Some f, current_mdf_path := b @ ''.mdf''\<rparr>"
    and i: "retry_operation (open_idx (b @ ''.idx'')) 3 100 st2 = Some (ok, st3)"
  shows "if ok then sim ((fst st3)\<lparr>current_file_start_ts := ts, current_file_bytes := of_nat 32, current_idx_bytes := 0,
        current_frame_count := 0, frames_since_last_index := 0, unique_symbols := {}\<rparr>, snd st3)
      \<lparr>segments = (segments A)(b \<mapsto> empty_segment ts), cur = Some b\<rparr>
    else mdf_file (fst st3) = Some f \<and> idx_file (fst st3) = None
      \<and> (\<forall>q. q \<noteq> b @ ''.mdf'' \<longrightarrow> q \<noteq> b @ ''.idx'' \<longrightarrow> disk (fs (close_file (of_nat 32) f (snd st3))) q = disk (fs e) q)"
proof (cases ok)
  case True
  then obtain g where "fst st3 = (fst st2)\<lparr>idx_file := Some g, current_idx_path := b @ ''.idx''\<rparr>" "mpath g = b @ ''.idx''"
    "holds g (fs (snd st3)) []" "mdf_opened b ts (disk (fs e)) f st3" using retry_idx [OF i b] by auto
  then show ?thesis using True st2 opened_sim [OF s, of b ts f _ "snd st3" g] by (simp add: mdf_opened_def others_same_def)
next
  case False
  then have m: "fst st3 = fst st2" "mdf_opened b ts (disk (fs e)) f st3" using retry_idx [OF i b] by auto
  then have h: "holds f (fs (snd st3)) (MdfHeader_bytes (mdf_header ts ts 0 0))" and p: "mpath f = b @ ''.mdf''"
    by (simp_all add: mdf_opened_def)
  have "fsize f \<le> of_nat 32" using h by (simp add: holds_def word_le_nat_alt)
  note close_file_sim [OF h this]
  then show ?thesis using False m st2 n p by (simp add: mdf_opened_def others_same_def)
qed

lemma open_new_files_sim:
  assumes s: "sim (r, e) A" and c: "cur A = None" and o: "open_new_files ts (r, e) = Some (ok, r', e')"
  shows "if ok then sim (r', e') \<lparr>segments = (segments A)(generate_filename (data_dir r) ts \<mapsto> empty_segment ts),
      cur = Some (generate_filename (data_dir r) ts)\<rparr>
    else sim (r', e') A \<or> sim (r', e') \<lparr>segments = (segments A)(generate_filename (data_dir r) ts := None), cur = None\<rparr>"
proof -
  let ?b = "generate_filename (data_dir r) ts" and ?err = "open_failed ''recorder_file_open_errors_total''"
  have n: "mdf_file r = None" "idx_file r = None" using s c by (auto simp: sim_def)
  obtain space st1 where sp: "check_disk_space 104857600 (r, e) = (space, st1)"
    by (cases "check_disk_space 104857600 (r, e)")
  then have st1: "fst st1 = r" "fs (snd st1) = fs e" using check_disk_space_state by fastforce+
  then have same: "others_same ?b (disk (fs e)) st1" by (simp add: others_same_def)
  have lostI: "sim st \<lparr>segments = (segments A)(?b := None), cur = None\<rparr>"
    if "mdf_file (fst st) = None" "idx_file (fst st) = None" "others_same ?b (disk (fs e)) st" for st
    using sim_lost [OF s, of "fst st" ?b "snd st"] that by (simp add: others_same_def)
  note o' = o [unfolded open_new_files_def Let_def, simplified, unfolded sp, simplified]
  consider (full) "\<not> space" | (mdf) st2 where "space" "retry_operation (open_mdf (?b @ ''.mdf'') ts) 3 100 st1 = Some (False, st2)"
    | (idx) st2 ok3 st3 where "space" "retry_operation (open_mdf (?b @ ''.mdf'') ts) 3 100 st1 = Some (True, st2)"
        "retry_operation (open_idx (?b @ ''.idx'')) 3 100 st2 = Some (ok3, st3)"
    using o' by (auto simp: bind_eq_Some_conv split: if_splits)
  then show ?thesis
  proof cases
    case full
    then have "\<not> ok" "(r', e') = open_failed ''recorder_disk_full_errors_total'' st1" using o' by auto
    then show ?thesis using s c n st1 open_failed_simps [of "''recorder_disk_full_errors_total''" st1]
      by (auto simp: sim_def dest!: sym)
  next
    case mdf
    then have "\<not> ok" "(r', e') = ?err st2" using o' by auto
    then show ?thesis using retry_mdf [OF mdf(2) same] n st1 lostI [of "?err st2"] by (simp add: others_same_def)
  next
    case idx
    obtain f where f: "fst st2 = r\<lparr>mdf_file := Some f, current_mdf_path := ?b @ ''.mdf''\<rparr>" "mdf_opened ?b ts (disk (fs e)) f st2"
      using retry_mdf [OF idx(2) same] st1 by auto
    note law = open_idx_phase_sim [OF s n(2) f(2,1) idx(3)]
    show ?thesis
    proof (cases ok3)
      case True
      then show ?thesis using o' idx law by (auto split: prod.splits)
    next
      case False
      obtain r4 e4 where 4: "?err st3 = (r4, e4)" by fastforce
      then have "mdf_file r4 = Some f" "idx_file r4 = None" "fs e4 = fs (snd st3)"
        using law False open_failed_simps [of "''recorder_file_open_errors_total''" st3] by simp_all
      then show ?thesis using o' idx law False 4 lostI [of "(r', e')"] by (auto simp: others_same_def close_file_def)
    qed
  qed
qed

section \<open>Rolling and writing refine the archive\<close>

lemma roll_file_if_needed_sim:
  assumes s: "sim (r, e) A" and o: "roll_file_if_needed ts (r, e) = Some (r', e')"
  shows "\<exists>A'. archive_roll (data_dir r) ts A A' \<and> sim (r', e') A'"
proof (cases "mdf_file r = None \<or> idx_file r = None \<or> roll_bytes r \<le> current_file_bytes r")
  case False
  then have "cur A \<noteq> None" "(r', e') = (r, e)" using s o by (auto simp: sim_def roll_file_if_needed_def split: option.splits)
  then show ?thesis using s by (auto intro: archive_roll.stay)
next
  case True
  then obtain r1 e1 ok r2 e2 where c: "close_current_files (r, e) = Some (r1, e1)"
    and n: "open_new_files ts (r1, e1) = Some (ok, r2, e2)"
    and r': "mdf_file r' = mdf_file r2" "idx_file r' = idx_file r2" "current_file_bytes r' = current_file_bytes r2"
      "current_idx_bytes r' = current_idx_bytes r2" "current_file_start_ts r' = current_file_start_ts r2" "disk (fs e') = disk (fs e2)"
    using o by (auto simp: roll_file_if_needed_def bind_eq_Some_conv with_stats_def split: if_splits)
  have s1: "sim (r1, e1) (A\<lparr>cur := None\<rparr>)" "data_dir r1 = data_dir r" using close_current_files_sim [OF s c] by auto
  let ?b = "generate_filename (data_dir r) ts"
  have "if ok then sim (r2, e2) \<lparr>segments = (segments A)(?b \<mapsto> empty_segment ts), cur = Some ?b\<rparr>
    else sim (r2, e2) (A\<lparr>cur := None\<rparr>) \<or> sim (r2, e2) \<lparr>segments = (segments A)(?b := None), cur = None\<rparr>"
    using open_new_files_sim [OF s1(1) _ n] s1(2) by (cases ok) simp_all
  then obtain A' where "archive_roll (data_dir r) ts A A'" "sim (r2, e2) A'"
    by (cases ok) (auto intro: archive_roll.intros)
  then show ?thesis using sim_cong [of r2 e2 A' r' e'] r' by blast
qed

lemma degrade_sim:
  "sim st A \<Longrightarrow> sim (degrade_if_failing st) A" "sim st A \<Longrightarrow> sim (count_failure st) A" "sim st A \<Longrightarrow> sim (count_metric m n st) A"
  "sim st A \<Longrightarrow> sim (with_stats g st) A" "sim st A \<Longrightarrow> sim (gauge_metric m v st) A"
  by (cases st; auto elim!: sim_cong simp: degrade_if_failing_def count_failure_def count_metric_def with_stats_def gauge_metric_def)+

text \<open>After the append of a frame: the data file has it, the bookkeeping and the index follow.\<close>

lemma frame_offset_add: "frame_offset (add_frame f ix seg) (length (seg_frames seg)) = 32 + length (concat (map frame_bytes (seg_frames seg)))"
  by (simp add: frame_offset_def add_frame_def)

lemma add_frame_unindexed: "(add_frame f False seg)\<lparr>seg_index := seg_index (add_frame f False seg) @ [length (seg_frames seg)]\<rparr> = add_frame f True seg"
  by (simp add: add_frame_def)

lemma wf_add_frame: "wf_segment seg \<Longrightarrow> wf_frame f \<Longrightarrow> wf_segment (add_frame f ix seg)"
  by (auto simp: wf_segment_def add_frame_def sorted_wrt_append less_Suc_eq)

lemma idx_data_add: "wf_segment seg \<Longrightarrow> idx_data (add_frame f False seg) = idx_data seg"
  by (auto simp: idx_data_def add_frame_def wf_segment_def index_entry_def frame_offset_def nth_append
      intro!: arg_cong [of _ _ concat] map_cong)

lemma appended_sim:
  assumes s: "sim (r, e) A" and c: "cur A = Some b" and f: "mdf_file r = Some f" and wf: "wf_frame frame"
    and a: "append_data (frame_bytes frame) (f, fs e) = Some (Inr off, f1, s1)"
    and r': "r' = r\<lparr>mdf_file := Some f1, consecutive_failures := 0, current_file_bytes := off + of_nat (length (frame_bytes frame)),
       current_frame_count := current_frame_count r + 1, frames_since_last_index := frames_since_last_index r + 1,
       needs_fsync := True, stats := st\<rparr>" and e': "disk (fs e') = disk s1"
  shows "\<exists>seg. segments A b = Some seg \<and> wf_segment seg \<and> off = of_nat (frame_offset (add_frame frame False seg) (length (seg_frames seg)))
    \<and> sim (r', e') (A\<lparr>segments := (segments A)(b \<mapsto> add_frame frame False seg)\<rparr>)"
proof -
  obtain seg g h where seg: "segments A b = Some seg" "wf_segment seg" and g: "idx_file r = Some g" "mpath f = b @ ''.mdf''"
    "mpath g = b @ ''.idx''" "mdf_ok h seg" "holds f (fs e) (mdf_data h seg)" "holds g (fs e) (idx_data seg)"
    "current_idx_bytes r = fsize g" "current_file_start_ts r = seg_start seg"
    using simD_current [OF s c] f by (auto simp: cur_files_def)
  let ?seg = "add_frame frame False seg"
  note law = append_data_law [OF g(5) a]
  have d: "mdf_data h ?seg = mdf_data h seg @ frame_bytes frame" by (simp add: mdf_data_def add_frame_def)
  have f1: "holds f1 s1 (mdf_data h ?seg)" "unat off = length (mdf_data h seg)" "mpath f1 = b @ ''.mdf''" using law g(2) d by simp_all
  have g1: "holds g s1 (idx_data ?seg)"
    using law g holds_cong [of s1 g "fs e"] idx_data_add [OF seg(2)] by simp
  have "fsize f1 = off + of_nat (length (frame_bytes frame))"
  proof -
    have "of_nat (unat (fsize f1)) = (of_nat (unat off + length (frame_bytes frame)) :: u64)"
      using f1 d by (simp add: holds_def del: of_nat_add)
    then show ?thesis by simp
  qed
  then have "cur_files r' (fs e') b ?seg"
    using r' f1 g1 g holds_cong [of "fs e'" _ s1] e' by (auto simp: cur_files_def mdf_ok_def add_frame_def)
  then have "sim (r', e') (A\<lparr>segments := (segments A)(b \<mapsto> ?seg)\<rparr>)"
    using sim_replace [OF s c wf_add_frame [OF seg(2) wf], of r' e' False] law g(2) e' by auto
  moreover have "off = of_nat (frame_offset ?seg (length (seg_frames seg)))"
  proof -
    have "of_nat (unat off) = (of_nat (frame_offset ?seg (length (seg_frames seg))) :: u64)"
      unfolding f1(2) frame_offset_add by (simp add: mdf_data_def)
    then show ?thesis by simp
  qed
  ultimately show ?thesis using seg by blast
qed

lemma index_phase_sim:
  assumes s: "sim (r, e) (A\<lparr>segments := (segments A)(b \<mapsto> add_frame frame False seg)\<rparr>)" and c: "cur A = Some b"
    and wf: "wf_segment seg" and off: "off = of_nat (frame_offset (add_frame frame False seg) (length (seg_frames seg)))"
    and w: "write_index_entry (frame_ts (body frame)) off (r, e) = Some (r', e')"
  shows "\<exists>ix. sim (r', e') (A\<lparr>segments := (segments A)(b \<mapsto> add_frame frame ix seg)\<rparr>)"
proof -
  let ?A = "A\<lparr>segments := (segments A)(b \<mapsto> add_frame frame False seg)\<rparr>" and ?n = "length (seg_frames seg)"
  have nth: "seg_frames (add_frame frame False seg) ! ?n = frame" by (simp add: add_frame_def)
  have w': "write_index_entry (frame_ts (body (seg_frames (add_frame frame False seg) ! ?n)))
      (of_nat (frame_offset (add_frame frame False seg) ?n)) (r, e) = Some (r', e')"
    using w off by (simp add: nth)
  have "sim (r', e') ?A \<or> sim (r', e') (?A\<lparr>segments := (segments ?A)(b \<mapsto>
      (add_frame frame False seg)\<lparr>seg_index := seg_index (add_frame frame False seg) @ [?n]\<rparr>)\<rparr>)"
    using write_index_entry_sim [OF s _ _ _ _ w', of b] c wf by (auto simp: wf_segment_def add_frame_def)
  then show ?thesis unfolding add_frame_unindexed by auto
qed

lemma frame_written_sim:
  assumes s: "sim (r, e) A" and c: "cur A = Some b" and f: "mdf_file r = Some f" and wf: "wf_frame frame"
    and a: "append_data (frame_bytes frame) (f, fs e) = Some (Inr off, f1, s1)"
    and w: "frame_written frame off (length (frame_bytes frame)) (r\<lparr>mdf_file := Some f1\<rparr>, e\<lparr>fs := s1\<rparr>) = Some (r', e')"
  shows "\<exists>seg ix. segments A b = Some seg \<and> sim (r', e') (A\<lparr>segments := (segments A)(b \<mapsto> add_frame frame ix seg)\<rparr>)"
proof -
  let ?r1 = "r\<lparr>mdf_file := Some f1, consecutive_failures := 0, current_file_bytes := off + of_nat (length (frame_bytes frame)),
       current_frame_count := current_frame_count r + 1, frames_since_last_index := frames_since_last_index r + 1,
       needs_fsync := True, stats := (stats r)\<lparr>frames_written := frames_written (stats r) + 1,
         bytes_written := bytes_written (stats r) + of_nat (length (frame_bytes frame))\<rparr>\<rparr>"
  obtain seg where seg: "segments A b = Some seg" "wf_segment seg"
    "off = of_nat (frame_offset (add_frame frame False seg) (length (seg_frames seg)))"
    and s1: "sim (?r1, e\<lparr>fs := s1\<rparr>) (A\<lparr>segments := (segments A)(b \<mapsto> add_frame frame False seg)\<rparr>)"
    using appended_sim [OF s c f wf a refl, of "e\<lparr>fs := s1\<rparr>"] by auto
  let ?X = "if index_interval ?r1 \<le> frames_since_last_index ?r1
       then Option.bind (write_index_entry (frame_ts (body frame)) off (?r1, e\<lparr>fs := s1\<rparr>)) (\<lambda>(r2, e2). Some (r2\<lparr>frames_since_last_index := 0\<rparr>, e2))
       else Some (?r1, e\<lparr>fs := s1\<rparr>)"
  have "Option.bind ?X (\<lambda>st2. if current_frame_count (fst st2) mod 1000 = 0 then update_mdf_header st2 else Some st2) = Some (r', e')"
    using w by (simp add: frame_written_def Let_def cong: if_cong)
  then obtain st2 where x: "?X = Some st2"
    and y: "(if current_frame_count (fst st2) mod 1000 = 0 then update_mdf_header st2 else Some st2) = Some (r', e')"
    unfolding bind_eq_Some_conv by blast
  obtain r2 e2 where st2: "st2 = (r2, e2)" by (cases st2)
  note w2 = x [unfolded st2] and w3 = y [unfolded st2 fst_conv]
  have "\<exists>ix. sim (r2, e2) (A\<lparr>segments := (segments A)(b \<mapsto> add_frame frame ix seg)\<rparr>)"
  proof (cases "index_interval ?r1 \<le> frames_since_last_index ?r1")
    case True
    then obtain r3 where "write_index_entry (frame_ts (body frame)) off (?r1, e\<lparr>fs := s1\<rparr>) = Some (r3, e2)" "r2 = r3\<lparr>frames_since_last_index := 0\<rparr>"
      using w2 by (auto simp: bind_eq_Some_conv)
    then show ?thesis using index_phase_sim [OF s1 c seg(2,3)] sim_cong [of r3 e2 _ r2 e2] by fastforce
  qed (use w2 s1 in auto)
  then show ?thesis using w3 seg(1) update_mdf_header_sim [of r2 e2 _ r' e'] by (auto split: if_splits)
qed

lemma write_frame_sim:
  assumes s: "sim (r, e) A" and wf: "wf_frame frame" and w: "write_frame frame (r, e) = Some (r', e')"
  shows "\<exists>A'. archive_write frame A A' \<and> sim (r', e') A'"
proof -
  consider (degraded) "degraded_mode (stats r)" | (closed) "\<not> degraded_mode (stats r)" "mdf_file r = None"
    | (opened) f where "\<not> degraded_mode (stats r)" "mdf_file r = Some f" by fastforce
  then show ?thesis
  proof cases
    case opened
    then obtain b where c: "cur A = Some b" using s by (cases "cur A") (auto simp: sim_def)
    obtain res f1 s1 where a: "append_data (frame_bytes frame) (f, fs e) = Some (res, f1, s1)"
      using w opened by (auto simp: write_frame_def encode_frame_wf [OF wf] bind_eq_Some_conv)
    show ?thesis
    proof (cases res)
      case (Inl u)
      obtain seg where seg: "segments A b = Some seg" "cur_files r (fs e) b seg" using simD_current [OF s c] by blast
      then obtain h where "holds f (fs e) (mdf_data h seg)" "mpath f = b @ ''.mdf''" "mdf_ok h seg" using opened by (auto simp: cur_files_def)
      note law = append_data_law [OF this(1) a] and p = this(2) and ok = this(3)
      have "fsize f1 = fsize f" using law Inl \<open>holds f _ _\<close> by (auto simp: holds_def word_unat_eq_iff)
      then have "cur_files (r\<lparr>mdf_file := Some f1\<rparr>) s1 b seg"
        using seg(2) opened law Inl p ok holds_cong [of s1 _ "fs e"] by (auto simp: cur_files_def)
      then have "sim (r\<lparr>mdf_file := Some f1\<rparr>, e\<lparr>fs := s1\<rparr>) A" using sim_keep [OF s c seg(1)] law p by simp
      then have "sim (degrade_if_failing (count_metric ''recorder_write_errors_total'' 1
          (count_failure (r\<lparr>mdf_file := Some f1\<rparr>, e\<lparr>fs := s1\<rparr>)))) A" by (intro degrade_sim)
      then show ?thesis using w opened a Inl archive_write.dropped [of frame A]
        by (auto simp: write_frame_def encode_frame_wf [OF wf])
    next
      case (Inr off)
      then have "frame_written frame off (length (frame_bytes frame)) (r\<lparr>mdf_file := Some f1\<rparr>, e\<lparr>fs := s1\<rparr>) = Some (r', e')"
        using w opened a by (simp add: write_frame_def encode_frame_wf [OF wf])
      from frame_written_sim [OF s c opened(2) wf a [unfolded Inr] this] show ?thesis using c by (auto intro: archive_write.written)
    qed
  qed (use s w in \<open>auto simp: write_frame_def dest!: sym [of _ "(r', e')"]
        intro!: exI [of _ A] archive_write.dropped degrade_sim\<close>)
qed

inductive archive_step :: "string \<Rightarrow> Frame \<Rightarrow> archive \<Rightarrow> archive \<Rightarrow> bool" for dir f where
  step: "archive_roll dir (frame_ts (body f)) A A1 \<Longrightarrow> archive_write f A1 A2 \<Longrightarrow> archive_step dir f A A2"

inductive archive_run :: "string \<Rightarrow> Frame list \<Rightarrow> archive \<Rightarrow> archive \<Rightarrow> bool" for dir where
  run_Nil: "archive_run dir [] A A"
| run_Cons: "archive_step dir f A A1 \<Longrightarrow> archive_run dir fr A1 A2 \<Longrightarrow> archive_run dir (f # fr) A A2"

lemma record_frame_sim:
  assumes s: "sim (r, e) A" and wf: "wf_frame frame" and w: "record_frame frame (r, e) = Some (r', e')"
  shows "\<exists>A'. archive_step (data_dir r) frame A A' \<and> sim (r', e') A'"
proof -
  obtain t0 e1 where t0: "steady_now e = (t0, e1)" by fastforce
  let ?r1 = "if 0 < frame_symbol (body frame) then r\<lparr>unique_symbols := insert (frame_symbol (body frame)) (unique_symbols r)\<rparr> else r"
  obtain r2 e2 where roll: "roll_file_if_needed (frame_ts (body frame)) (?r1, e1) = Some (r2, e2)"
    using w t0 by (auto simp: record_frame_def Let_def bind_eq_Some_conv)
  obtain r3 e3 where wr': "write_frame frame (r2, e2) = Some (r3, e3)"
    using w t0 roll by (auto simp: record_frame_def Let_def bind_eq_Some_conv)
  obtain t1 e4 where t1: "steady_now e3 = (t1, e4)" by fastforce
  have wr: "write_frame frame (r2, e2) = Some (r', e3)" and e': "disk (fs e') = disk (fs e3)"
    using w t0 roll wr' t1 by (auto simp: record_frame_def Let_def bind_eq_Some_conv)
  have d: "data_dir ?r1 = data_dir r" by simp
  have "sim (?r1, e1) A" using s by (rule sim_cong) (use t0 in auto)
  from roll_file_if_needed_sim [OF this roll, unfolded d] obtain A1
    where A1: "archive_roll (data_dir r) (frame_ts (body frame)) A A1" "sim (r2, e2) A1" by blast
  from write_frame_sim [OF A1(2) wf wr] obtain A2 where "archive_write frame A1 A2" "sim (r', e3) A2" by blast
  then show ?thesis using A1(1) sim_cong [of r' e3 A2 r' e'] e' by (blast intro: archive_step.step)
qed

text \<open>The data directory is never changed.\<close>

lemma keep_dir_helpers [simp]:
  "data_dir (fst (count_metric m n st)) = data_dir (fst st)" "data_dir (fst (with_stats g st)) = data_dir (fst st)"
  "data_dir (fst (gauge_metric m v st)) = data_dir (fst st)" "data_dir (fst (count_failure st)) = data_dir (fst st)"
  "data_dir (fst (degrade_if_failing st)) = data_dir (fst st)"
  by (cases st; simp add: count_metric_def with_stats_def gauge_metric_def count_failure_def degrade_if_failing_def)+

lemma update_mdf_header_dir: "update_mdf_header st = Some st' \<Longrightarrow> fst st' = fst st"
  by (cases st) (auto simp: update_mdf_header_def split: option.splits prod.splits)

lemma write_index_entry_dir: "write_index_entry ts off st = Some st' \<Longrightarrow> data_dir (fst st') = data_dir (fst st)"
  by (cases st) (auto simp: write_index_entry_def split: option.splits sum.splits)

lemma close_current_files_dir: "close_current_files st = Some st' \<Longrightarrow> data_dir (fst st') = data_dir (fst st)"
  by (cases st) (auto simp: close_current_files_def bind_eq_Some_conv Let_def dest!: update_mdf_header_dir)

lemma retry_dir:
  assumes "retry_operation operation m d st = Some (ok, st')"
    and "\<And>st1 ok1 st2. operation st1 = Some (ok1, st2) \<Longrightarrow> data_dir (fst st2) = data_dir (fst st1)"
  shows "data_dir (fst st') = data_dir (fst st)"
proof -
  have "if ok then data_dir (fst st') = data_dir (fst st) else data_dir (fst st') = data_dir (fst st)"
    by (rule retry_from_rule [OF assms(1) [unfolded retry_operation_def]]) (auto dest: assms(2))
  then show ?thesis by simp
qed

lemma open_dir:
  "open_mdf p ts st = Some (ok, st') \<Longrightarrow> data_dir (fst st') = data_dir (fst st)"
  "open_idx p st = Some (ok, st') \<Longrightarrow> data_dir (fst st') = data_dir (fst st)"
  by (cases st; auto simp: open_mdf_def open_idx_def Let_def split: prod.splits option.splits sum.splits if_splits)+

lemma open_new_files_dir:
  assumes "open_new_files ts st = Some (ok, st')"
  shows "data_dir (fst st') = data_dir (fst st)"
proof -
  let ?b = "generate_filename (data_dir (fst st)) ts"
  obtain space st1 where sp: "check_disk_space 104857600 st = (space, st1)" by (cases "check_disk_space 104857600 st")
  note a = assms [unfolded open_new_files_def Let_def, simplified, unfolded sp, simplified] and d1 = check_disk_space_state [OF sp]
  have d2: "data_dir (fst st2) = data_dir (fst st1)" if "retry_operation (open_mdf (?b @ ''.mdf'') ts) 3 100 st1 = Some (ok2, st2)" for ok2 st2
    using that open_dir(1) by (rule retry_dir)
  have d3: "data_dir (fst st3) = data_dir (fst st2)" if "retry_operation (open_idx (?b @ ''.idx'')) 3 100 st2 = Some (ok3, st3)" for ok3 st2 st3
    using that open_dir(2) by (rule retry_dir)
  show ?thesis using a d1
    by (auto simp: bind_eq_Some_conv case_prod_beta dest!: d2 d3 split: if_splits option.splits)
qed

lemma roll_file_if_needed_dir: "roll_file_if_needed ts st = Some st' \<Longrightarrow> data_dir (fst st') = data_dir (fst st)"
  by (auto simp: roll_file_if_needed_def bind_eq_Some_conv dest!: open_new_files_dir close_current_files_dir split: if_splits)

lemma frame_written_dir: "frame_written f off n st = Some st' \<Longrightarrow> data_dir (fst st') = data_dir (fst st)"
  by (cases st) (auto simp: frame_written_def Let_def bind_eq_Some_conv case_prod_beta
      dest!: write_index_entry_dir update_mdf_header_dir split: if_splits)

lemma write_frame_dir:
  assumes "write_frame f st = Some st'"
  shows "data_dir (fst st') = data_dir (fst st)"
proof (cases "degraded_mode (stats (fst st)) \<or> mdf_file (fst st) = None")
  case True
  then show ?thesis using assms by (auto simp: write_frame_def split: if_splits)
next
  case False
  then obtain res :: "unit + u64" and x :: "byte list" and f1 s1 where "(case res of
        Inl _ \<Rightarrow> Some (degrade_if_failing (count_metric ''recorder_write_errors_total'' 1
          (count_failure ((fst st)\<lparr>mdf_file := Some f1\<rparr>, (snd st)\<lparr>fs := s1\<rparr>))))
      | Inr offset \<Rightarrow> frame_written f offset (length x) ((fst st)\<lparr>mdf_file := Some f1\<rparr>, (snd st)\<lparr>fs := s1\<rparr>)) = Some st'"
    using assms by (auto simp: write_frame_def bind_eq_Some_conv Let_def)
  then show ?thesis by (cases res) (auto dest!: frame_written_dir)
qed

lemma record_frame_dir: "record_frame f st = Some st' \<Longrightarrow> data_dir (fst st') = data_dir (fst st)"
  by (auto simp: record_frame_def Let_def bind_eq_Some_conv case_prod_beta dest!: roll_file_if_needed_dir write_frame_dir
      split: if_splits)

lemma record_frames_sim:
  "sim (r, e) A \<Longrightarrow> \<forall>f \<in> set frames. wf_frame f \<Longrightarrow> record_frames frames (r, e) = Some (r', e')
   \<Longrightarrow> \<exists>A'. archive_run (data_dir r) frames A A' \<and> sim (r', e') A'"
proof (induction frames arbitrary: r e A)
  case Nil
  then show ?case by (auto intro: archive_run.run_Nil)
next
  case (Cons f fr)
  then obtain r1 e1 where 1: "record_frame f (r, e) = Some (r1, e1)" "record_frames fr (r1, e1) = Some (r', e')"
    by (auto simp: bind_eq_Some_conv)
  obtain A1 where A1: "archive_step (data_dir r) f A A1" "sim (r1, e1) A1"
    using record_frame_sim [OF Cons.prems(1) _ 1(1)] Cons.prems(2) by auto
  moreover have "data_dir r1 = data_dir r" using record_frame_dir [OF 1(1)] by simp
  ultimately show ?case using Cons.IH [OF A1(2) _ 1(2)] Cons.prems(2) by (auto intro: archive_run.run_Cons)
qed

lemma fsync_if_due_sim:
  assumes "sim st A" "fsync_if_due st = Some st'"
  shows "sim st' A"
proof -
  obtain r e where st: "st = (r, e)" by (cases st)
  obtain now e1 where n: "steady_now e = (now, e1)" by fastforce
  have "sim (r, e1) A" using assms(1) [unfolded st] by (rule sim_cong) (use n in auto)
  then show ?thesis using assms(2) n fsync_files_sim [of r e1 A "fst st'" "snd st'"]
    by (auto simp: st fsync_if_due_def split: if_splits)
qed

lemma fsync_dir: "fsync_files st = Some st' \<Longrightarrow> data_dir (fst st') = data_dir (fst st)"
  by (auto simp: fsync_files_def bind_eq_Some_conv Let_def case_prod_beta dest!: update_mdf_header_dir)

lemma fsync_if_due_dir: "fsync_if_due st = Some st' \<Longrightarrow> data_dir (fst st') = data_dir (fst st)"
  by (cases st) (auto simp: fsync_if_due_def Let_def case_prod_beta dest!: fsync_dir split: if_splits)

lemma record_frames_dir: "record_frames fr st = Some st' \<Longrightarrow> data_dir (fst st') = data_dir (fst st)"
  by (induction fr arbitrary: st) (auto simp: bind_eq_Some_conv dest!: record_frame_dir)

lemma recording_pass_sim:
  assumes s: "sim st A" and wf: "\<forall>f \<in> set queue. wf_frame f" and p: "recording_pass queue st = Some (rest, st')"
  shows "\<exists>frames A'. queue = frames @ rest \<and> archive_run (data_dir (fst st)) frames A A' \<and> sim st' A' \<and> data_dir (fst st') = data_dir (fst st)"
proof (cases "take 100 queue = []")
  case True
  then have "rest = queue" "fsync_if_due st = Some st'" using p by (auto simp: recording_pass_def)
  then show ?thesis using fsync_if_due_sim [OF s] fsync_if_due_dir run_Nil by (metis append_Nil)
next
  case False
  then obtain st1 st2 where 1: "record_frames (take 100 queue) st = Some st1" "fsync_if_due st1 = Some st2" and r: "rest = drop 100 queue"
    and st': "st' = (let n = of_nat (length (take 100 queue));
      st3 = count_metric ''recorder_records_written_total'' n (count_metric ''recorder_frames_total'' n st2)
      in gauge_metric ''recorder_current_file_bytes'' (double_of_nat (unat (current_file_bytes (fst st3)))) st3)"
    using p unfolding recording_pass_def Let_def bind_eq_Some_conv by (auto simp only: if_False option.inject prod.inject bind_eq_Some_conv)
  have "\<forall>f \<in> set (take 100 queue). wf_frame f" using wf by (meson in_set_takeD)
  then obtain A' where "archive_run (data_dir (fst st)) (take 100 queue) A A'" "sim st1 A'"
    using record_frames_sim [of "fst st" "snd st" A "take 100 queue" "fst st1" "snd st1"] s 1(1) by auto
  moreover have "sim st' A'" unfolding st' Let_def by (intro degrade_sim fsync_if_due_sim [OF calculation(2) 1(2)])
  moreover have "data_dir (fst st') = data_dir (fst st)"
    using record_frames_dir [OF 1(1)] fsync_if_due_dir [OF 1(2)] by (simp add: st' Let_def)
  ultimately show ?thesis using r by (metis append_take_drop_id)
qed

lemma archive_run_append: "archive_run dir xs A B \<Longrightarrow> archive_run dir ys B C \<Longrightarrow> archive_run dir (xs @ ys) A C"
  by (induction rule: archive_run.induct) (auto intro: archive_run.run_Cons)

lemma recording_loop_sim:
  "sim st A \<Longrightarrow> \<forall>f \<in> set (queue @ concat polls). wf_frame f \<Longrightarrow> recording_loop polls queue st = Some (rest, st')
   \<Longrightarrow> \<exists>frames A'. queue @ concat polls = frames @ rest \<and> archive_run (data_dir (fst st)) frames A A' \<and> sim st' A'
     \<and> data_dir (fst st') = data_dir (fst st)"
proof (induction polls arbitrary: queue st A)
  case Nil
  then show ?case by (auto intro: archive_run.run_Nil exI [of _ "[]"])
next
  case (Cons x polls)
  then obtain queue1 st1 where 1: "recording_pass (queue @ x) st = Some (queue1, st1)" "recording_loop polls queue1 st1 = Some (rest, st')"
    by (auto simp: bind_eq_Some_conv)
  obtain fr A1 where A1: "queue @ x = fr @ queue1" "archive_run (data_dir (fst st)) fr A A1" "sim st1 A1" "data_dir (fst st1) = data_dir (fst st)"
    using recording_pass_sim [OF Cons.prems(1) _ 1(1)] Cons.prems(2) by auto
  have "set queue1 \<subseteq> set (queue @ x)" using A1(1) by simp
  then have "\<forall>f \<in> set (queue1 @ concat polls). wf_frame f" using Cons.prems(2) by auto
  from Cons.IH [OF A1(3) this 1(2)] obtain fr2 A2 where A2: "queue1 @ concat polls = fr2 @ rest"
    "archive_run (data_dir (fst st)) fr2 A1 A2" "sim st' A2" "data_dir (fst st') = data_dir (fst st)" using A1(4) by auto
  have "queue @ concat (x # polls) = (fr @ fr2) @ rest" using A1(1) A2(1) by (metis append_assoc concat.simps(2))
  then show ?case using archive_run_append [OF A1(2) A2(2)] A2(3,4) by blast
qed

lemma recording_thread_sim:
  assumes "sim st A" "\<forall>f \<in> set (concat polls). wf_frame f" "recording_thread polls st = Some (rest, st')"
  shows "\<exists>frames A'. concat polls = frames @ rest \<and> archive_run (data_dir (fst st)) frames A A' \<and> sim st' A'"
proof -
  obtain r e where st: "st = (r, e)" by (cases st)
  obtain now e1 where n: "steady_now e = (now, e1)" by fastforce
  obtain st2 where l: "recording_loop polls [] (r\<lparr>last_fsync := now\<rparr>, e1) = Some (rest, st2)"
    and f: "(if needs_fsync (fst st2) then fsync_files st2 else Some st2) = Some st'"
    using assms(3) n by (auto simp: st recording_thread_def bind_eq_Some_conv)
  have "sim (r\<lparr>last_fsync := now\<rparr>, e1) A" using assms(1) [unfolded st] by (rule sim_cong) (use n in auto)
  from recording_loop_sim [OF this _ l] obtain frames A'
    where "concat polls = frames @ rest" "archive_run (data_dir r) frames A A'" "sim st2 A'" using assms(2) by auto
  moreover have "sim st' A'"
    using f calculation(3) fsync_files_sim [of "fst st2" "snd st2" A' "fst st'" "snd st'"] by (auto split: if_splits)
  ultimately show ?thesis using st by auto
qed

lemma rec_stop_sim:
  assumes "sim st A" "rec_stop st = Some st'"
  shows "\<exists>A'. segments A' = segments A \<and> sim st' A'"
proof (cases "rec_running (fst st)")
  case True
  then obtain st1 where c: "close_current_files ((fst st)\<lparr>rec_running := False\<rparr>, snd st) = Some st1"
    and st': "st' = with_stats (\<lambda>s. s\<lparr>is_recording := False\<rparr>) st1"
    using assms(2) by (auto simp: rec_stop_def case_prod_beta)
  have "sim ((fst st)\<lparr>rec_running := False\<rparr>, snd st) A"
    by (rule sim_cong [of "fst st" "snd st"]) (use assms(1) in auto)
  then have "sim st1 (A\<lparr>cur := None\<rparr>)" using close_current_files_sim c by (metis prod.collapse)
  then show ?thesis using st' degrade_sim(4) by (intro exI [of _ "A\<lparr>cur := None\<rparr>"]) simp
qed (use assms in \<open>auto simp: rec_stop_def case_prod_beta\<close>)

text \<open>Whatever the archive does, a segment only ever holds frames of the input, in their order.\<close>

definition from_input :: "archive \<Rightarrow> Frame list \<Rightarrow> bool" where
  "from_input A frames \<longleftrightarrow> (\<forall>b seg. segments A b = Some seg \<longrightarrow> subseq (seg_frames seg) frames)"

lemma archive_step_input:
  assumes "archive_step dir f A A'" "from_input A frames"
  shows "from_input A' (frames @ [f])"
  using assms
proof (cases rule: archive_step.cases)
  case (step A1)
  from step(1) have i: "from_input A1 frames"
    by cases (use assms(2) in \<open>auto simp: from_input_def empty_segment_def split: if_splits\<close>)
  from step(2) show ?thesis
    by cases (use i in \<open>auto simp: from_input_def add_frame_def intro: subseq_rev_drop_many split: if_splits\<close>)
qed

lemma archive_run_input: "archive_run dir fr A A' \<Longrightarrow> from_input A frames \<Longrightarrow> from_input A' (frames @ fr)"
proof (induction arbitrary: frames rule: archive_run.induct)
  case (run_Cons f A A1 fr A2)
  then show ?case using archive_step_input [OF run_Cons.hyps(1)] by fastforce
qed simp

definition empty_archive :: archive where
  "empty_archive = \<lparr>segments = Map.empty, cur = None\<rparr>"

end
