(* ===== verification/Recorder_Progress.thy ===== *)
theory Recorder_Progress
  imports Archive
begin

text \<open>
  The recorder at work: while system calls succeed, there is space and the files stay below $2^{62}$
  bytes, every operation of the recorder returns, and every frame ends up in the current segment.
\<close>

section \<open>Healthy states\<close>

definition healthy :: "rec_state \<Rightarrow> bool" where
  "healthy st \<longleftrightarrow> faults (fs (snd st)) = [] \<and> free_space (snd st) = [] \<and> \<not> degraded_mode (stats (fst st))
     \<and> metrics_ok (rmetrics (snd st))
     \<and> (\<forall>f. mdf_file (fst st) = Some f \<longrightarrow> is_open f \<and> current_file_bytes (fst st) = fsize f) \<and> (\<forall>g. idx_file (fst st) = Some g \<longrightarrow> is_open g)"

definition seg_size :: "segment \<Rightarrow> nat" where
  "seg_size seg = 68 * (length (seg_frames seg) + 2)"

section \<open>Health of states\<close>

lemma healthy_metric [simp]:
  "healthy (count_metric n d st) = healthy st" "healthy (gauge_metric n v st) = healthy st"
  by (cases st; simp add: healthy_def count_metric_def gauge_metric_def)+

lemma now_fields:
  "wall_now e = (t, e') \<Longrightarrow> fs e' = fs e \<and> free_space e' = free_space e \<and> rmetrics e' = rmetrics e"
  "steady_now e = (t, e') \<Longrightarrow> fs e' = fs e \<and> free_space e' = free_space e \<and> rmetrics e' = rmetrics e"
  by (auto simp: wall_now_def steady_now_def split: list.splits)

lemma healthy_wall: "wall_now e = (t, e') \<Longrightarrow> healthy (r, e') = healthy (r, e)"
  by (drule now_fields) (simp add: healthy_def)

lemma healthy_steady: "steady_now e = (t, e') \<Longrightarrow> healthy (r, e') = healthy (r, e)"
  by (drule now_fields) (simp add: healthy_def)

section \<open>Files\<close>

lemma write_at_progress:
  assumes "holds f s d" "is_open f" "unat off + length x \<le> length d"
  shows "\<exists>s'. write_at off x (f, s) = Some (True, s') \<and> faults s' = faults s"
proof -
  have l: "length d = unat (fsize f)" using assms(1) by (simp add: holds_def)
  obtain pad where pad: "disk s (mpath f) = Some (d @ replicate pad 0)" "length d + pad = unat (capacity f)"
    using assms(1,2) by (auto simp: holds_def is_open_def)
  have "unat off + length x < 2 ^ 64" using assms(3) l unat_u64_less [of "fsize f"] by simp
  then have e: "unat (off + of_nat (length x)) = unat off + length x" by (simp add: unat_word_ariths unat_of_nat)
  then have "\<not> off + of_nat (length x) > fsize f" "\<not> off + of_nat (length x) > capacity f"
    using assms(3) l pad(2) by (simp_all add: word_less_nat_alt)
  then show ?thesis
    using assms pad(1) by (auto simp: write_at_def Let_def store_def memcpy_at_def)
qed

lemma close_file_exact:
  assumes "holds f (fs e) d" "is_open f" "faults (fs e) = []" "fsize f \<le> n" "length d < 9223372036854775808"
  shows "disk (fs (close_file n f e)) (mpath f) = Some d \<and> faults (fs (close_file n f e)) = []
    \<and> (\<forall>p. p \<noteq> mpath f \<longrightarrow> disk (fs (close_file n f e)) p = disk (fs e) p)"
proof -
  let ?n = "if n > fsize f then fsize f else n"
  have n: "?n = fsize f" using assms(4) by auto
  have l: "length d = unat (fsize f)" using assms(1) by (simp add: holds_def)
  then have "0 \<le> sint (fsize f)" using assms(5) by (simp add: sint_nonneg_iff)
  moreover obtain pad where "disk (fs e) (mpath f) = Some (d @ replicate pad 0)" using assms(1) by (auto simp: holds_def)
  ultimately show ?thesis
    using assms(2,3) n l
    by (simp add: close_file_def destroy_file_def close_and_truncate_def flush_def sys_ftruncate_def is_open_def resize_def Let_def)
qed

lemma update_mdf_header_progress:
  assumes s: "sim (r, e) A" and h: "healthy (r, e)"
  shows "\<exists>e'. update_mdf_header (r, e) = Some (r, e') \<and> healthy (r, e')"
proof (cases "cur A")
  case None
  then show ?thesis using s h by (auto simp: sim_def update_mdf_header_def)
next
  case (Some b)
  obtain f d where f: "mdf_file r = Some f" "holds f (fs e) (MdfHeader_bytes d @ concat (map frame_bytes (seg_frames (the (segments A b)))))"
    using simD_current [OF s Some] by (auto simp: cur_files_def mdf_data_def)
  obtain now e1 where w: "wall_now e = (now, e1)" by fastforce
  have "is_open f" using h f(1) by (auto simp: healthy_def)
  let ?x = "MdfHeader_bytes (mdf_header (current_file_start_ts r) now (of_nat (card (unique_symbols r))) (current_frame_count r))"
  obtain s' where "write_at 0 ?x (f, fs e) = Some (True, s')" "faults s' = faults (fs e)"
    using write_at_progress [OF f(2) \<open>is_open f\<close>, of 0 ?x] by auto
  then show ?thesis using f(1) w h healthy_wall [OF w, of r] now_fields(1) [OF w]
    by (simp add: update_mdf_header_def healthy_def)
qed

section \<open>Sizes\<close>

lemma length_frame_bytes_le: "length (frame_bytes f) \<le> 68"
  by (cases "body f") (simp_all add: length_frame_bytes)

lemma length_frames_le: "length (concat (map frame_bytes fr)) \<le> 68 * length fr"
  by (induction fr) (simp_all add: add_mono [OF length_frame_bytes_le])

lemma length_mdf_data: "length (mdf_data h seg) + 68 \<le> seg_size seg"
  using length_frames_le [of "seg_frames seg"] by (simp add: mdf_data_def seg_size_def)

lemma length_concat_const: "(\<And>x. length (g x) = n) \<Longrightarrow> length (concat (map g xs)) = n * length xs"
  by (induction xs) simp_all

lemma length_idx_data:
  assumes "wf_segment seg"
  shows "length (idx_data seg) + 68 \<le> seg_size seg"
proof -
  have "set (seg_index seg) \<subseteq> {..<length (seg_frames seg)}" "distinct (seg_index seg)"
    using assms by (auto simp: wf_segment_def strict_sorted_iff)
  then have "length (seg_index seg) \<le> length (seg_frames seg)"
    using card_mono [of "{..<length (seg_frames seg)}" "set (seg_index seg)"] by (simp add: distinct_card)
  then show ?thesis by (simp add: idx_data_def seg_size_def length_concat_const [of _ 16])
qed

section \<open>Writing a frame\<close>

lemma write_index_entry_progress:
  assumes s: "sim (r, e) A" and c: "cur A = Some b" "segments A b = Some seg" and h: "healthy (r, e)"
    and l: "seg_size seg \<le> 4611686018427387904"
  shows "\<exists>r' e'. write_index_entry ts off (r, e) = Some (r', e') \<and> healthy (r', e')
    \<and> (\<exists>g n. r' = r\<lparr>idx_file := Some g, current_idx_bytes := n\<rparr>)"
proof -
  obtain g where g: "idx_file r = Some g" "holds g (fs e) (idx_data seg)" and wf: "wf_segment seg"
    using simD_current [OF s c(1)] c(2) by (auto simp: cur_files_def)
  let ?x = "IndexEntry_bytes \<lparr>ts_ns_first = ts, file_offset = off\<rparr>"
  have h': "is_open g" "faults (fs e) = []" using h g(1) by (simp_all add: healthy_def)
  have "length (idx_data seg) + length ?x \<le> 4611686018427387904" using l length_idx_data [OF wf] by simp
  from append_data_progress [OF g(2) h' this] obtain o2 g2 s2
    where a: "append_data ?x (g, fs e) = Some (Inr o2, g2, s2)" "faults s2 = []" by blast
  then show ?thesis using append_data_law [OF g(2) a(1)] g(1) h by (auto simp: write_index_entry_def healthy_def)
qed

text \<open>The index phase of \<open>frame_written\<close>, from a state whose data file already has the frame.\<close>

lemma index_phase_progress:
  assumes s: "sim (r, e) (A\<lparr>segments := (segments A)(b \<mapsto> add_frame frame False seg)\<rparr>)" and c: "cur A = Some b"
    and wf: "wf_segment seg" and off: "off = of_nat (frame_offset (add_frame frame False seg) (length (seg_frames seg)))"
    and h: "healthy (r, e)" and l: "seg_size (add_frame frame False seg) \<le> 4611686018427387904"
  shows "\<exists>r' e' ix. (if index_interval r \<le> frames_since_last_index r
       then Option.bind (write_index_entry (frame_ts (body frame)) off (r, e)) (\<lambda>(r2, e2). Some (r2\<lparr>frames_since_last_index := 0\<rparr>, e2))
       else Some (r, e)) = Some (r', e') \<and> healthy (r', e') \<and> stats r' = stats r \<and> roll_bytes r' = roll_bytes r
    \<and> sim (r', e') (A\<lparr>segments := (segments A)(b \<mapsto> add_frame frame ix seg)\<rparr>)"
proof (cases "index_interval r \<le> frames_since_last_index r")
  case True
  let ?A = "A\<lparr>segments := (segments A)(b \<mapsto> add_frame frame False seg)\<rparr>"
  have cA: "cur ?A = Some b" "segments ?A b = Some (add_frame frame False seg)" using c by simp_all
  from write_index_entry_progress [OF s cA h l, of "frame_ts (body frame)" off] obtain r3 e3 g n
    where 3: "write_index_entry (frame_ts (body frame)) off (r, e) = Some (r3, e3)" "healthy (r3, e3)"
      "r3 = r\<lparr>idx_file := Some g, current_idx_bytes := n\<rparr>" by blast
  from index_phase_sim [OF s c wf off 3(1)] obtain ix
    where "sim (r3, e3) (A\<lparr>segments := (segments A)(b \<mapsto> add_frame frame ix seg)\<rparr>)" by blast
  then have "sim (r3\<lparr>frames_since_last_index := 0\<rparr>, e3) (A\<lparr>segments := (segments A)(b \<mapsto> add_frame frame ix seg)\<rparr>)"
    by (rule sim_cong) simp_all
  moreover have "healthy (r3\<lparr>frames_since_last_index := 0\<rparr>, e3)" using 3(2) by (simp add: healthy_def)
  ultimately show ?thesis using 3(1,3) True by auto
qed (use h s in auto)

lemma append_size:
  assumes "holds f s d" "append_data x (f, s) = Some (Inr off, f', s')"
  shows "fsize f' = off + of_nat (length x)"
proof -
  have "unat (fsize f') = unat off + length x" using append_data_law [OF assms] by (simp add: holds_def)
  then have "of_nat (unat (fsize f')) = (of_nat (unat off + length x) :: u64)" by simp
  then show ?thesis by simp
qed

lemma frame_written_progress:
  assumes s: "sim (r, e) A" and c: "cur A = Some b" "segments A b = Some seg" and f: "mdf_file r = Some f" and wf: "wf_frame frame"
    and a: "append_data (frame_bytes frame) (f, fs e) = Some (Inr off, f1, s1)" and h: "healthy (r, e)" "faults s1 = []"
    and l: "seg_size (add_frame frame False seg) \<le> 4611686018427387904"
  shows "\<exists>r' e'. frame_written frame off (length (frame_bytes frame)) (r\<lparr>mdf_file := Some f1\<rparr>, e\<lparr>fs := s1\<rparr>) = Some (r', e')
    \<and> healthy (r', e') \<and> frames_written (stats r') = frames_written (stats r) + 1 \<and> roll_bytes r' = roll_bytes r"
proof -
  let ?n = "length (frame_bytes frame)" and ?e1 = "e\<lparr>fs := s1\<rparr>"
  define r1 where "r1 = r\<lparr>mdf_file := Some f1, consecutive_failures := 0, current_file_bytes := off + of_nat ?n,
       current_frame_count := current_frame_count r + 1, frames_since_last_index := frames_since_last_index r + 1,
       needs_fsync := True, stats := (stats r)\<lparr>frames_written := frames_written (stats r) + 1, bytes_written := bytes_written (stats r) + of_nat ?n\<rparr>\<rparr>"
  have off: "off = of_nat (frame_offset (add_frame frame False seg) (length (seg_frames seg)))" and ws: "wf_segment seg"
    and s1: "sim (r1, ?e1) (A\<lparr>segments := (segments A)(b \<mapsto> add_frame frame False seg)\<rparr>)"
    using appended_sim [OF s c(1) f wf a r1_def, of ?e1] c(2) by auto
  obtain d where d: "holds f (fs e) d" using simD_current [OF s c(1)] f by (auto simp: cur_files_def)
  have h1: "healthy (r1, ?e1)" using h append_data_law [OF d a] append_size [OF d a] by (simp add: healthy_def r1_def)
  from index_phase_progress [OF s1 c(1) ws off h1 l] obtain r2 e2 ix
    where w2: "(if index_interval r1 \<le> frames_since_last_index r1
       then Option.bind (write_index_entry (frame_ts (body frame)) off (r1, ?e1)) (\<lambda>(r2, e2). Some (r2\<lparr>frames_since_last_index := 0\<rparr>, e2))
       else Some (r1, ?e1)) = Some (r2, e2)" and h2: "healthy (r2, e2)"
      and s2: "sim (r2, e2) (A\<lparr>segments := (segments A)(b \<mapsto> add_frame frame ix seg)\<rparr>)"
      and k: "stats r2 = stats r1" "roll_bytes r2 = roll_bytes r1" by blast
  obtain e3 where e3: "update_mdf_header (r2, e2) = Some (r2, e3)" "healthy (r2, e3)"
    using update_mdf_header_progress [OF s2 h2] by blast
  have "frame_written frame off ?n (r\<lparr>mdf_file := Some f1\<rparr>, ?e1) =
      (if current_frame_count r2 mod 1000 = 0 then update_mdf_header (r2, e2) else Some (r2, e2))"
    using w2 by (simp add: frame_written_def Let_def r1_def cong: if_cong)
  then show ?thesis using e3 h2 k by (auto simp: r1_def split: if_splits)
qed

lemma write_frame_progress:
  assumes s: "sim (r, e) A" and c: "cur A = Some b" "segments A b = Some seg" and wf: "wf_frame frame" and h: "healthy (r, e)"
    and l: "seg_size (add_frame frame False seg) \<le> 4611686018427387904"
  shows "\<exists>r' e' ix. write_frame frame (r, e) = Some (r', e') \<and> healthy (r', e')
    \<and> sim (r', e') (A\<lparr>segments := (segments A)(b \<mapsto> add_frame frame ix seg)\<rparr>)
    \<and> frames_written (stats r') = frames_written (stats r) + 1 \<and> roll_bytes r' = roll_bytes r"
proof -
  obtain f hd where f: "mdf_file r = Some f" "holds f (fs e) (mdf_data hd seg)"
    using simD_current [OF s c(1)] c(2) by (auto simp: cur_files_def)
  have h': "is_open f" "faults (fs e) = []" "\<not> degraded_mode (stats r)" using h f(1) by (simp_all add: healthy_def)
  have "seg_size seg \<le> 4611686018427387904" using l by (simp add: seg_size_def add_frame_def)
  then have "length (mdf_data hd seg) + length (frame_bytes frame) \<le> 4611686018427387904"
    using length_mdf_data [of hd seg] length_frame_bytes_le [of frame] by linarith
  from append_data_progress [OF f(2) h'(1,2) this] obtain off f1 s1
    where a: "append_data (frame_bytes frame) (f, fs e) = Some (Inr off, f1, s1)" "faults s1 = []" by blast
  from frame_written_progress [OF s c f(1) wf a(1) h a(2) l] obtain r' e'
    where w: "frame_written frame off (length (frame_bytes frame)) (r\<lparr>mdf_file := Some f1\<rparr>, e\<lparr>fs := s1\<rparr>) = Some (r', e')"
      and k: "healthy (r', e')" "frames_written (stats r') = frames_written (stats r) + 1" "roll_bytes r' = roll_bytes r" by blast
  have "write_frame frame (r, e) = Some (r', e')"
    using h'(3) f(1) a(1) w by (simp add: write_frame_def encode_frame_wf [OF wf])
  then show ?thesis using k frame_written_sim [OF s c(1) f(1) wf a(1) w] c(2) by auto
qed

section \<open>Rolling\<close>

lemma close_file_fields:
  "faults (fs e) = [] \<Longrightarrow> faults (fs (close_file n f e)) = [] \<and> free_space (close_file n f e) = free_space e \<and> rmetrics (close_file n f e) = rmetrics e"
  by (auto simp: close_file_def destroy_file_def close_and_truncate_def flush_def sys_ftruncate_def is_open_def Let_def)

lemma close_current_files_progress:
  assumes s: "sim (r, e) A" and h: "healthy (r, e)"
  shows "\<exists>r' e'. close_current_files (r, e) = Some (r', e') \<and> healthy (r', e') \<and> mdf_file r' = None \<and> idx_file r' = None
    \<and> stats r' = stats r \<and> roll_bytes r' = roll_bytes r \<and> data_dir r' = data_dir r"
proof -
  obtain e1 where u: "update_mdf_header (r, e) = Some (r, e1)" "healthy (r, e1)" using update_mdf_header_progress [OF s h] by blast
  define e2 where "e2 = (case mdf_file r of None \<Rightarrow> e1 | Some f \<Rightarrow> close_file (current_file_bytes r) f e1)"
  define e3 where "e3 = (case idx_file r of None \<Rightarrow> e2 | Some f \<Rightarrow> close_file (current_idx_bytes r) f e2)"
  have "faults (fs e2) = [] \<and> free_space e2 = free_space e1 \<and> rmetrics e2 = rmetrics e1"
    using close_file_fields [of e1] u(2) by (auto simp: e2_def healthy_def split: option.splits)
  then have "faults (fs e3) = [] \<and> free_space e3 = free_space e1 \<and> rmetrics e3 = rmetrics e1"
    using close_file_fields [of e2] by (auto simp: e3_def split: option.splits)
  moreover have "close_current_files (r, e) = Some (if current_mdf_path r \<noteq> ''''
      then r\<lparr>mdf_file := None, idx_file := None, current_mdf_path := '''', current_idx_path := ''''\<rparr>
      else r\<lparr>mdf_file := None, idx_file := None\<rparr>, e3)"
    unfolding e3_def e2_def using u(1) by (simp add: close_current_files_def Let_def)
  ultimately show ?thesis using u(2) by (auto simp: healthy_def)
qed

lemma retry_first: "operation st = Some (True, st') \<Longrightarrow> 0 < m \<Longrightarrow> retry_operation operation m d st = Some (True, st')"
  by (simp add: retry_operation_def retry_from.simps)

lemma open_mdf_progress:
  assumes "faults (fs e) = []"
  shows "\<exists>f s. open_mdf p ts (r, e) = Some (True, r\<lparr>mdf_file := Some f, current_mdf_path := p\<rparr>, e\<lparr>fs := s\<rparr>) \<and> faults s = [] \<and> is_open f \<and> fsize f = 32"
proof -
  obtain f s where o: "open_file p (64 * 1024 * 1024) (new_mapped_file, fs e) = (True, f, s)" "faults s = []"
    using open_file_progress [of new_mapped_file "fs e" "64 * 1024 * 1024" p] assms by (auto simp: new_mapped_file_def)
  have h: "holds f s []" "is_open f" using open_file_law [OF _ o(1)] by (simp_all add: new_mapped_file_def)
  have "length ([] :: byte list) + length (MdfHeader_bytes (mdf_header ts ts 0 0)) \<le> 4611686018427387904" by simp
  from append_data_progress [OF h o(2) this] obtain off f1 s1
    where a: "append_data (MdfHeader_bytes (mdf_header ts ts 0 0)) (f, s) = Some (Inr off, f1, s1)" "faults s1 = []" by blast
  have "unat off = 0" using append_data_law [OF h(1) a(1)] by simp
  then have "fsize f1 = 32" using append_size [OF h(1) a(1)] by (simp add: unat_eq_0)
  then show ?thesis using o a append_data_law [OF h(1) a(1)] by (auto simp: open_mdf_def Let_def)
qed

lemma open_idx_progress:
  assumes "faults (fs e) = []"
  shows "\<exists>f s. open_idx p (r, e) = Some (True, r\<lparr>idx_file := Some f, current_idx_path := p\<rparr>, e\<lparr>fs := s\<rparr>) \<and> faults s = [] \<and> is_open f"
proof -
  obtain f s where o: "open_file p (4 * 1024 * 1024) (new_mapped_file, fs e) = (True, f, s)" "faults s = []"
    using open_file_progress [of new_mapped_file "fs e" "4 * 1024 * 1024" p] assms by (auto simp: new_mapped_file_def)
  then show ?thesis using open_file_law [OF _ o(1)] by (auto simp: open_idx_def new_mapped_file_def)
qed

lemma open_new_files_progress:
  assumes h: "healthy (r, e)"
  shows "\<exists>r' e'. open_new_files ts (r, e) = Some (True, r', e') \<and> healthy (r', e') \<and> stats r' = stats r \<and> roll_bytes r' = roll_bytes r"
proof -
  let ?b = "generate_filename (data_dir r) ts"
  obtain f s where m: "open_mdf (?b @ ''.mdf'') ts (r, e) = Some (True, r\<lparr>mdf_file := Some f, current_mdf_path := ?b @ ''.mdf''\<rparr>, e\<lparr>fs := s\<rparr>)"
    "faults s = []" "is_open f" "fsize f = 32" using open_mdf_progress [of e "?b @ ''.mdf''" ts r] h by (auto simp: healthy_def)
  let ?r = "r\<lparr>mdf_file := Some f, current_mdf_path := ?b @ ''.mdf''\<rparr>"
  obtain g s2 where i: "open_idx (?b @ ''.idx'') (?r, e\<lparr>fs := s\<rparr>)
      = Some (True, ?r\<lparr>idx_file := Some g, current_idx_path := ?b @ ''.idx''\<rparr>, e\<lparr>fs := s\<rparr>\<lparr>fs := s2\<rparr>)" "faults s2 = []" "is_open g"
    using open_idx_progress [of "e\<lparr>fs := s\<rparr>" "?b @ ''.idx''" ?r] m(2) by auto
  have sp: "check_disk_space 104857600 (r, e) = (True, r, e)" using h by (simp add: check_disk_space_def healthy_def)
  show ?thesis using h m i
    by (simp add: open_new_files_def sp retry_first [where operation = "open_mdf (?b @ ''.mdf'') ts", OF m(1)]
        retry_first [where operation = "open_idx (?b @ ''.idx'')", OF i(1)] healthy_def Let_def)
qed

text \<open>The archive after making room for a frame.\<close>

definition next_archive :: "string \<Rightarrow> bool \<Rightarrow> u64 \<Rightarrow> archive \<Rightarrow> archive" where
  "next_archive dir roll ts A =
     (if roll then \<lparr>segments = (segments A)(generate_filename dir ts \<mapsto> empty_segment ts), cur = Some (generate_filename dir ts)\<rparr> else A)"

lemma roll_progress:
  assumes s: "sim (r, e) A" and h: "healthy (r, e)"
  shows "\<exists>r' e'. roll_file_if_needed ts (r, e) = Some (r', e') \<and> healthy (r', e')
    \<and> frames_written (stats r') = frames_written (stats r) \<and> roll_bytes r' = roll_bytes r
    \<and> sim (r', e') (next_archive (data_dir r) (cur A = None \<or> roll_bytes r \<le> current_file_bytes r) ts A)"
proof (cases "cur A = None \<or> roll_bytes r \<le> current_file_bytes r")
  case False
  then have "mdf_file r \<noteq> None" "idx_file r \<noteq> None" using s by (auto simp: sim_def cur_files_def)
  then show ?thesis using False s h by (auto simp: roll_file_if_needed_def next_archive_def)
next
  case True
  then have need: "mdf_file r = None \<or> idx_file r = None \<or> roll_bytes r \<le> current_file_bytes r"
    using s by (cases "cur A") (auto simp: sim_def)
  obtain r1 e1 where 1: "close_current_files (r, e) = Some (r1, e1)" "healthy (r1, e1)" "stats r1 = stats r" "roll_bytes r1 = roll_bytes r"
    "data_dir r1 = data_dir r" using close_current_files_progress [OF s h] by blast
  obtain r2 e2 where 2: "open_new_files ts (r1, e1) = Some (True, r2, e2)" "healthy (r2, e2)" "stats r2 = stats r1" "roll_bytes r2 = roll_bytes r1"
    using open_new_files_progress [OF 1(2)] by blast
  let ?A = "next_archive (data_dir r) (cur A = None \<or> roll_bytes r \<le> current_file_bytes r) ts A"
  have "sim (r1, e1) (A\<lparr>cur := None\<rparr>)" using close_current_files_sim [OF s 1(1)] by simp
  from open_new_files_sim [OF this _ 2(1)] have "sim (r2, e2) ?A" using 1(5) True by (simp add: next_archive_def)
  then have "sim (with_stats (\<lambda>s. s\<lparr>files_rolled := files_rolled s + 1\<rparr>) (r2\<lparr>consecutive_failures := 0\<rparr>, e2)) ?A"
    by (intro degrade_sim(4)) (rule sim_cong, simp_all)
  then show ?thesis using need 1 2 by (auto simp: roll_file_if_needed_def with_stats_def healthy_def)
qed

text \<open>One frame: it ends up as the last frame of the segment that is then current.\<close>

lemma record_frame_progress:
  assumes s: "sim (r, e) A" and h: "healthy (r, e)" and wf: "wf_frame f"
    and A1: "A1 = next_archive (data_dir r) (cur A = None \<or> roll_bytes r \<le> current_file_bytes r) (frame_ts (body f)) A"
    and c: "cur A1 = Some b" "segments A1 b = Some seg" and l: "seg_size (add_frame f False seg) \<le> 4611686018427387904"
  shows "\<exists>r' e' ix. record_frame f (r, e) = Some (r', e') \<and> healthy (r', e')
    \<and> sim (r', e') (A1\<lparr>segments := (segments A1)(b \<mapsto> add_frame f ix seg)\<rparr>)
    \<and> frames_written (stats r') = frames_written (stats r) + 1 \<and> roll_bytes r' = roll_bytes r \<and> data_dir r' = data_dir r"
proof -
  obtain t0 e1 where t0: "steady_now e = (t0, e1)" by fastforce
  define r1 where "r1 = (if 0 < frame_symbol (body f) then r\<lparr>unique_symbols := insert (frame_symbol (body f)) (unique_symbols r)\<rparr> else r)"
  have r1: "data_dir r1 = data_dir r" "roll_bytes r1 = roll_bytes r" "current_file_bytes r1 = current_file_bytes r" "stats r1 = stats r"
    by (simp_all add: r1_def)
  have "sim (r1, e1) A" using s by (rule sim_cong) (use t0 in \<open>auto simp: r1_def\<close>)
  moreover have "healthy (r1, e1)" using h healthy_steady [OF t0, of r] by (simp add: r1_def healthy_def)
  ultimately obtain r2 e2 where 2: "roll_file_if_needed (frame_ts (body f)) (r1, e1) = Some (r2, e2)" "healthy (r2, e2)" "sim (r2, e2) A1"
    "frames_written (stats r2) = frames_written (stats r)" "roll_bytes r2 = roll_bytes r"
    using roll_progress [of r1 e1 A "frame_ts (body f)"] A1 r1 by auto
  from write_frame_progress [OF 2(3) c wf 2(2) l] obtain r3 e3 ix
    where 3: "write_frame f (r2, e2) = Some (r3, e3)" "healthy (r3, e3)" "sim (r3, e3) (A1\<lparr>segments := (segments A1)(b \<mapsto> add_frame f ix seg)\<rparr>)"
      "frames_written (stats r3) = frames_written (stats r2) + 1" "roll_bytes r3 = roll_bytes r2" by blast
  obtain t1 e4 where t1: "steady_now e3 = (t1, e4)" by fastforce
  have h4: "healthy (r3, e4)" using 3(2) healthy_steady [OF t1] by simp
  then obtain m where m: "record_latency ''recorder_write_frame_ns'' (t1 - t0) (rmetrics e4) = Some m" "metrics_ok m"
    using record_latency_returns [of "rmetrics e4" "''recorder_write_frame_ns''" "t1 - t0"] by (auto simp: healthy_def)
  have "record_frame f (r, e) = Some (r3, e4\<lparr>rmetrics := m\<rparr>)"
    using t0 2(1) 3(1) t1 m(1) by (simp add: record_frame_def Let_def timer_destroy_def r1_def)
  moreover have "sim (r3, e4\<lparr>rmetrics := m\<rparr>) (A1\<lparr>segments := (segments A1)(b \<mapsto> add_frame f ix seg)\<rparr>)"
    using 3(3) by (rule sim_cong) (use t1 in auto)
  moreover have "healthy (r3, e4\<lparr>rmetrics := m\<rparr>)" using h4 m(2) by (simp add: healthy_def)
  moreover have "data_dir r3 = data_dir r" using record_frame_dir [OF calculation(1)] by simp
  ultimately show ?thesis using 2 3 by auto
qed

section \<open>Recording a sequence of frames\<close>

text \<open>
  The ideal recorder keeps the frames of each file by the file's base name and the name of the current
  one: a frame goes to the current file unless there is none or it has reached the roll limit, in
  which case a new file named after the frame's second is started, replacing one of that name.
\<close>

type_synonym ideal = "(string \<rightharpoonup> Frame list) \<times> string option"

definition frames_of :: "(string \<rightharpoonup> Frame list) \<Rightarrow> string \<Rightarrow> Frame list" where
  "frames_of m b = (case m b of None \<Rightarrow> [] | Some fr \<Rightarrow> fr)"

definition file_bytes :: "Frame list \<Rightarrow> nat" where
  "file_bytes fr = sizeof_MdfHeader + length (concat (map frame_bytes fr))"

fun ideal_step :: "string \<Rightarrow> u64 \<Rightarrow> ideal \<Rightarrow> Frame \<Rightarrow> ideal" where
  "ideal_step dir limit (m, None) f =
     (m(generate_filename dir (frame_ts (body f)) \<mapsto> [f]), Some (generate_filename dir (frame_ts (body f))))"
| "ideal_step dir limit (m, Some b) f =
     (if unat limit \<le> file_bytes (frames_of m b)
      then (m(generate_filename dir (frame_ts (body f)) \<mapsto> [f]), Some (generate_filename dir (frame_ts (body f))))
      else (m(b \<mapsto> frames_of m b @ [f]), Some b))"

definition view :: "archive \<Rightarrow> ideal" where
  "view A = ((\<lambda>b. map_option seg_frames (segments A b)), cur A)"

lemma current_bytes:
  assumes s: "sim (r, e) A" and h: "healthy (r, e)" and c: "cur A = Some b" "segments A b = Some seg"
  shows "unat (current_file_bytes r) = file_bytes (seg_frames seg)"
proof -
  obtain f hd where f: "mdf_file r = Some f" "holds f (fs e) (mdf_data hd seg)"
    using simD_current [OF s c(1)] c(2) by (auto simp: cur_files_def)
  then have "current_file_bytes r = fsize f" using h by (simp add: healthy_def)
  then show ?thesis using f(2) by (simp add: holds_def mdf_data_def file_bytes_def)
qed

definition frames_bound :: "archive \<Rightarrow> nat \<Rightarrow> bool" where
  "frames_bound A n \<longleftrightarrow> (\<forall>b seg. segments A b = Some seg \<longrightarrow> length (seg_frames seg) \<le> n)"

lemma record_frame_ideal:
  assumes s: "sim (r, e) A" and h: "healthy (r, e)" and wf: "wf_frame f" and n: "frames_bound A n" "n \<le> 67000000000000000"
  shows "\<exists>r' e' A'. record_frame f (r, e) = Some (r', e') \<and> healthy (r', e') \<and> sim (r', e') A' \<and> frames_bound A' (n + 1)
    \<and> view A' = ideal_step (data_dir r) (roll_bytes r) (view A) f
    \<and> frames_written (stats r') = frames_written (stats r) + 1 \<and> roll_bytes r' = roll_bytes r \<and> data_dir r' = data_dir r"
proof -
  let ?roll = "cur A = None \<or> roll_bytes r \<le> current_file_bytes r" and ?new = "generate_filename (data_dir r) (frame_ts (body f))"
  define A1 where "A1 = next_archive (data_dir r) ?roll (frame_ts (body f)) A"
  obtain b seg where c: "cur A1 = Some b" "segments A1 b = Some seg"
    and v: "ideal_step (data_dir r) (roll_bytes r) (view A) f = ((\<lambda>x. map_option seg_frames (segments A1 x))(b \<mapsto> seg_frames seg @ [f]), Some b)"
  proof (cases ?roll)
    case True
    then have "ideal_step (data_dir r) (roll_bytes r) (view A) f = ((\<lambda>x. map_option seg_frames (segments A x))(?new \<mapsto> [f]), Some ?new)"
      using current_bytes [OF s h] simD_current [OF s]
      by (cases "cur A") (auto simp: view_def frames_of_def word_le_nat_alt)
    then show ?thesis using True that [of ?new "empty_segment (frame_ts (body f))"]
      by (auto simp: A1_def next_archive_def empty_segment_def fun_upd_def cong: if_cong)
  next
    case False
    then obtain b seg where "cur A = Some b" "segments A b = Some seg" using simD_current [OF s] by auto
    then show ?thesis using False that [of b seg] current_bytes [OF s h]
      by (auto simp: A1_def next_archive_def view_def frames_of_def word_le_nat_alt)
  qed
  have nb: "frames_bound A1 n" using n(1) by (auto simp: frames_bound_def A1_def next_archive_def empty_segment_def)
  then have "length (seg_frames seg) \<le> n" using c(2) by (simp add: frames_bound_def)
  then have "seg_size (add_frame f False seg) \<le> 4611686018427387904" using n(2) by (simp add: seg_size_def add_frame_def)
  from record_frame_progress [OF s h wf A1_def c this] obtain r' e' ix
    where 1: "record_frame f (r, e) = Some (r', e')" "healthy (r', e')" "sim (r', e') (A1\<lparr>segments := (segments A1)(b \<mapsto> add_frame f ix seg)\<rparr>)"
      "frames_written (stats r') = frames_written (stats r) + 1" "roll_bytes r' = roll_bytes r" "data_dir r' = data_dir r" by blast
  have "view (A1\<lparr>segments := (segments A1)(b \<mapsto> add_frame f ix seg)\<rparr>) = ideal_step (data_dir r) (roll_bytes r) (view A) f"
    unfolding v using c by (auto simp: view_def add_frame_def)
  moreover have "frames_bound (A1\<lparr>segments := (segments A1)(b \<mapsto> add_frame f ix seg)\<rparr>) (n + 1)"
    using nb c(2) by (auto simp: frames_bound_def add_frame_def le_SucI)
  ultimately show ?thesis using 1 by blast
qed

lemma record_frames_ideal:
  "sim (r, e) A \<Longrightarrow> healthy (r, e) \<Longrightarrow> \<forall>f \<in> set frames. wf_frame f \<Longrightarrow> frames_bound A n \<Longrightarrow> n + length frames \<le> 67000000000000000
   \<Longrightarrow> \<exists>r' e' A'. record_frames frames (r, e) = Some (r', e') \<and> healthy (r', e') \<and> sim (r', e') A'
    \<and> view A' = foldl (ideal_step (data_dir r) (roll_bytes r)) (view A) frames
    \<and> frames_written (stats r') = frames_written (stats r) + of_nat (length frames)"
proof (induction frames arbitrary: r e A n)
  case (Cons f fr)
  have "wf_frame f" "n \<le> 67000000000000000" using Cons.prems by auto
  from record_frame_ideal [OF Cons.prems(1,2) this(1) Cons.prems(4) this(2)] obtain r1 e1 A1
    where 1: "record_frame f (r, e) = Some (r1, e1)" "healthy (r1, e1)" "sim (r1, e1) A1" "frames_bound A1 (n + 1)"
      "view A1 = ideal_step (data_dir r) (roll_bytes r) (view A) f" "frames_written (stats r1) = frames_written (stats r) + 1"
      "roll_bytes r1 = roll_bytes r" "data_dir r1 = data_dir r" by blast
  have "\<forall>f \<in> set fr. wf_frame f" "n + 1 + length fr \<le> 67000000000000000" using Cons.prems by auto
  from Cons.IH [OF 1(3,2) this(1) 1(4) this(2)] show ?case using 1 by (auto simp: algebra_simps)
qed auto

text \<open>Closing the current files of a healthy recorder leaves exactly the segment on disk.\<close>

lemma close_current_exact:
  assumes s: "sim (r, e) A" and h: "healthy (r, e)" and c: "cur A = Some b" "segments A b = Some seg"
    and l: "seg_size seg \<le> 4611686018427387904" and cl: "close_current_files (r, e) = Some (r', e')"
  shows "\<exists>hd. mdf_ok hd seg \<and> disk (fs e') (b @ ''.mdf'') = Some (mdf_data hd seg) \<and> disk (fs e') (b @ ''.idx'') = Some (idx_data seg)"
proof -
  obtain e1 where u: "update_mdf_header (r, e) = Some (r, e1)" "healthy (r, e1)" using update_mdf_header_progress [OF s h] by blast
  have s1: "sim (r, e1) A" using update_mdf_header_sim [OF s u(1)] by simp
  then obtain f g hd where f: "mdf_file r = Some f" "idx_file r = Some g" "mpath f = b @ ''.mdf''" "mpath g = b @ ''.idx''"
    "mdf_ok hd seg" "holds f (fs e1) (mdf_data hd seg)" "holds g (fs e1) (idx_data seg)" "fsize f \<le> current_file_bytes r"
    "fsize g \<le> current_idx_bytes r" and wf: "wf_segment seg"
    using simD_current [OF s1 c(1)] c(2) by (auto simp: cur_files_def)
  have o: "is_open f" "is_open g" "faults (fs e1) = []" using u(2) f by (auto simp: healthy_def)
  let ?e2 = "close_file (current_file_bytes r) f e1"
  have e': "e' = close_file (current_idx_bytes r) g ?e2" using cl u(1) f by (simp add: close_current_files_def Let_def)
  note c1 = close_file_exact [OF f(6) o(1) o(3) f(8)]
  have m: "length (mdf_data hd seg) < 9223372036854775808" "length (idx_data seg) < 9223372036854775808"
    using length_mdf_data [of hd seg] length_idx_data [OF wf] l by linarith+
  have "holds g (fs ?e2) (idx_data seg)" using c1 [OF m(1)] f holds_cong [of "fs ?e2" g "fs e1"] by simp
  then have "disk (fs e') (b @ ''.idx'') = Some (idx_data seg) \<and> (\<forall>p. p \<noteq> b @ ''.idx'' \<longrightarrow> disk (fs e') p = disk (fs ?e2) p)"
    using close_file_exact [of g ?e2 "idx_data seg" "current_idx_bytes r"] o(2) c1 [OF m(1)] f m(2) e' by simp
  then show ?thesis using c1 [OF m(1)] f(3,5) by auto
qed

section \<open>Degraded mode\<close>

text \<open>The two facts about the statistics that degraded mode rests on.\<close>

definition written_and_mode :: "Recorder \<Rightarrow> u64 \<times> bool" where
  "written_and_mode r = (frames_written (stats r), degraded_mode (stats r))"

lemma written_and_mode_helpers [simp]:
  "written_and_mode (fst (count_metric m n st)) = written_and_mode (fst st)"
  "written_and_mode (fst (open_failed m st)) = written_and_mode (fst st)"
  by (cases st; simp add: count_metric_def open_failed_def with_stats_def written_and_mode_def)+

lemma retry_keeps:
  assumes "retry_operation operation m d st = Some (ok, st')"
    and "\<And>st1 ok1 st2. operation st1 = Some (ok1, st2) \<Longrightarrow> written_and_mode (fst st2) = written_and_mode (fst st1)"
  shows "written_and_mode (fst st') = written_and_mode (fst st)"
proof -
  have "if ok then written_and_mode (fst st') = written_and_mode (fst st) else written_and_mode (fst st') = written_and_mode (fst st)"
    by (rule retry_from_rule [OF assms(1) [unfolded retry_operation_def]]) (auto dest: assms(2))
  then show ?thesis by simp
qed

lemma open_keeps:
  "open_mdf p ts st = Some (ok, st') \<Longrightarrow> written_and_mode (fst st') = written_and_mode (fst st)"
  "open_idx p st = Some (ok, st') \<Longrightarrow> written_and_mode (fst st') = written_and_mode (fst st)"
  by (cases st; auto simp: open_mdf_def open_idx_def Let_def written_and_mode_def split: prod.splits option.splits sum.splits if_splits)+

lemma open_new_files_keeps:
  assumes "open_new_files ts st = Some (ok, st')"
  shows "written_and_mode (fst st') = written_and_mode (fst st)"
proof -
  let ?b = "generate_filename (data_dir (fst st)) ts"
  obtain space st1 where sp: "check_disk_space 104857600 st = (space, st1)" by (cases "check_disk_space 104857600 st")
  note a = assms [unfolded open_new_files_def Let_def, simplified, unfolded sp, simplified] and d1 = check_disk_space_state [OF sp]
  have d2: "written_and_mode (fst st2) = written_and_mode (fst st1)" if "retry_operation (open_mdf (?b @ ''.mdf'') ts) 3 100 st1 = Some (ok2, st2)" for ok2 st2
    using that open_keeps(1) by (rule retry_keeps)
  have d3: "written_and_mode (fst st3) = written_and_mode (fst st2)" if "retry_operation (open_idx (?b @ ''.idx'')) 3 100 st2 = Some (ok3, st3)" for ok3 st2 st3
    using that open_keeps(2) by (rule retry_keeps)
  have upd: "written_and_mode (r\<lparr>mdf_file := x, current_mdf_path := y\<rparr>) = written_and_mode r" for r x y by (simp add: written_and_mode_def)
  have upd2: "written_and_mode (r\<lparr>current_file_start_ts := a1, current_file_bytes := a2, current_idx_bytes := a3, current_frame_count := a4,
      frames_since_last_index := a5, unique_symbols := a6\<rparr>) = written_and_mode r" for r a1 a2 a3 a4 a5 a6 by (simp add: written_and_mode_def)
  show ?thesis using a d1
    by (auto simp: bind_eq_Some_conv case_prod_beta upd upd2 dest!: d2 d3 split: if_splits option.splits)
qed

lemma close_current_files_keeps: "close_current_files st = Some st' \<Longrightarrow> written_and_mode (fst st') = written_and_mode (fst st)"
  by (cases st) (auto simp: close_current_files_def bind_eq_Some_conv Let_def written_and_mode_def dest!: update_mdf_header_dir split: if_splits)

lemma roll_file_if_needed_keeps:
  assumes "roll_file_if_needed ts st = Some st'"
  shows "written_and_mode (fst st') = written_and_mode (fst st)"
proof (cases "mdf_file (fst st) = None \<or> idx_file (fst st) = None \<or> roll_bytes (fst st) \<le> current_file_bytes (fst st)")
  case True
  then obtain st1 ok r e where 1: "close_current_files st = Some st1" "open_new_files ts st1 = Some (ok, r, e)"
    and st': "st' = (if \<not> ok then (r\<lparr>consecutive_failures := consecutive_failures r + 1\<rparr>, e)
      else with_stats (\<lambda>s. s\<lparr>files_rolled := files_rolled s + 1\<rparr>) (r\<lparr>consecutive_failures := 0\<rparr>, e))"
    using assms by (auto simp: roll_file_if_needed_def bind_eq_Some_conv split: if_splits)
  have "written_and_mode (fst st') = written_and_mode r" by (simp add: st' written_and_mode_def with_stats_def)
  then show ?thesis using close_current_files_keeps [OF 1(1)] open_new_files_keeps [OF 1(2)] by simp
qed (use assms in \<open>auto simp: roll_file_if_needed_def\<close>)

lemma degraded_record_frame:
  assumes "degraded_mode (stats (fst st))" "record_frame f st = Some st'"
  shows "degraded_mode (stats (fst st')) \<and> frames_written (stats (fst st')) = frames_written (stats (fst st))"
proof -
  obtain r e t0 e1 where st: "st = (r, e)" "steady_now e = (t0, e1)" by (metis surj_pair)
  let ?r1 = "if 0 < frame_symbol (body f) then r\<lparr>unique_symbols := insert (frame_symbol (body f)) (unique_symbols r)\<rparr> else r"
  obtain st2 st3 where 2: "roll_file_if_needed (frame_ts (body f)) (?r1, e1) = Some st2" "write_frame f st2 = Some st3" "fst st' = fst st3"
    using assms(2) st by (auto simp: record_frame_def Let_def bind_eq_Some_conv case_prod_beta cong: if_cong)
  have "written_and_mode (fst st2) = written_and_mode r"
    using roll_file_if_needed_keeps [OF 2(1)] by (auto simp: written_and_mode_def split: if_splits)
  then have "degraded_mode (stats (fst st2))" "frames_written (stats (fst st2)) = frames_written (stats r)"
    using assms(1) st by (simp_all add: written_and_mode_def)
  then show ?thesis using 2(2,3) st by (auto simp: write_frame_def count_metric_def with_stats_def case_prod_beta)
qed

lemma flush_no_faults: "faults s = [] \<Longrightarrow> faults (snd (flush (f, s))) = []"
  by (simp add: flush_def)

lemma flush_file_fields:
  "faults (fs e) = [] \<Longrightarrow> faults (fs (flush_file f e)) = [] \<and> free_space (flush_file f e) = free_space e \<and> rmetrics (flush_file f e) = rmetrics e"
  by (auto simp: flush_file_def flush_no_faults split: option.splits)

lemma fsync_files_progress:
  assumes s: "sim (r, e) A" and h: "healthy (r, e)"
  shows "\<exists>r' e'. fsync_files (r, e) = Some (r', e') \<and> healthy (r', e') \<and> rec_running r' = rec_running r"
proof -
  obtain e1 where u: "update_mdf_header (r, e) = Some (r, e1)" "healthy (r, e1)" using update_mdf_header_progress [OF s h] by blast
  let ?e2 = "flush_file (idx_file r) (flush_file (mdf_file r) e1)"
  obtain t e3 where t: "steady_now ?e2 = (t, e3)" by fastforce
  have "faults (fs e3) = [] \<and> free_space e3 = [] \<and> metrics_ok (rmetrics e3)"
    using u(2) flush_file_fields [of e1 "mdf_file r"] flush_file_fields [of "flush_file (mdf_file r) e1" "idx_file r"] now_fields(2) [OF t]
    by (simp add: healthy_def)
  then show ?thesis using u t by (simp add: fsync_files_def count_metric_def with_stats_def healthy_def)
qed

lemma fsync_if_due_progress:
  assumes s: "sim (r, e) A" and h: "healthy (r, e)"
  shows "\<exists>r' e'. fsync_if_due (r, e) = Some (r', e') \<and> healthy (r', e') \<and> rec_running r' = rec_running r"
proof -
  obtain t e1 where t: "steady_now e = (t, e1)" by fastforce
  have "sim (r, e1) A" using s by (rule sim_cong) (use t in auto)
  then show ?thesis using fsync_files_progress [of r e1 A] healthy_steady [OF t, of r] h t by (auto simp: fsync_if_due_def)
qed

text \<open>A run of the recorder from start to stop over one poll of up to 100 frames.\<close>

lemma one_poll_run:
  assumes wf: "\<forall>f \<in> set frames. wf_frame f" "length frames \<le> 100" "frames \<noteq> []"
    and e: "faults (fs e) = []" "free_space e = []" "rmetrics e = no_metrics"
  shows "\<exists>st st'. recording_thread [frames] (snd (rec_start (new_recorder dir roll index fsync)), e) = Some ([], st) \<and> rec_stop st = Some st'"
proof -
  obtain t e0 where t: "steady_now e = (t, e0)" by fastforce
  note e0 = now_fields(2) [OF t]
  let ?r = "(snd (rec_start (new_recorder dir roll index fsync)))\<lparr>last_fsync := t\<rparr>"
  have s: "sim (?r, e0) empty_archive" by (simp add: sim_def empty_archive_def new_recorder_def rec_start_def)
  have h: "healthy (?r, e0)" using e e0 metrics_ok_none by (simp add: healthy_def new_recorder_def rec_start_def)
  have b: "frames_bound empty_archive 0" by (simp add: frames_bound_def empty_archive_def)
  have l: "0 + length frames \<le> 67000000000000000" using wf(2) by simp
  obtain r1 e1 A1 where 1: "record_frames frames (?r, e0) = Some (r1, e1)" "healthy (r1, e1)" "sim (r1, e1) A1"
    using record_frames_ideal [OF s h wf(1) b l] by blast
  obtain r2 e2 where 2: "fsync_if_due (r1, e1) = Some (r2, e2)" "healthy (r2, e2)" using fsync_if_due_progress [OF 1(3,2)] by blast
  have s2: "sim (r2, e2) A1" using fsync_if_due_sim [OF 1(3) 2(1)] .
  let ?n = "of_nat (length frames) :: u64"
  let ?c = "count_metric ''recorder_records_written_total'' ?n (count_metric ''recorder_frames_total'' ?n (r2, e2))"
  let ?g = "gauge_metric ''recorder_current_file_bytes'' (double_of_nat (unat (current_file_bytes (fst ?c)))) ?c"
  have p: "recording_pass frames (?r, e0) = Some ([], ?g)" using wf(2,3) 1(1) 2(1) by (simp add: recording_pass_def Let_def)
  obtain r3 e3 where g: "?g = (r3, e3)" by fastforce
  have "sim ?g A1" by (intro degrade_sim s2)
  then have s3: "sim (r3, e3) A1" and h3: "healthy (r3, e3)" using g 2(2) healthy_metric by (metis, metis)
  obtain r4 e4 where 4: "fsync_files (r3, e3) = Some (r4, e4)" "healthy (r4, e4)" using fsync_files_progress [OF s3 h3] by blast
  have s4: "sim (r4, e4) A1" using fsync_files_sim [OF s3 4(1)] .
  have stop: "\<exists>st'. rec_stop (r, e) = Some st'" if "sim (r, e) A1" "healthy (r, e)" for r e
  proof -
    have "sim (r\<lparr>rec_running := False\<rparr>, e) A1" using that(1) by (rule sim_cong) simp_all
    moreover have "healthy (r\<lparr>rec_running := False\<rparr>, e)" using that(2) by (simp add: healthy_def)
    ultimately show ?thesis using close_current_files_progress by (fastforce simp: rec_stop_def)
  qed
  have "\<exists>st. recording_thread [frames] (snd (rec_start (new_recorder dir roll index fsync)), e) = Some ([], st) \<and> (st = (r3, e3) \<or> st = (r4, e4))"
    using t p g 4(1) by (simp add: recording_thread_def)
  then show ?thesis using stop [OF s3 h3] stop [OF s4 4(2)] by blast
qed

text \<open>With no file open and no space, a frame is dropped and counts as two failures.\<close>

lemma record_frame_disk_full:
  assumes n: "mdf_file r = None" "idx_file r = None" and d: "\<not> degraded_mode (stats r)" and m: "metrics_ok (rmetrics e)"
    and sp: "free_space e = Some a # ss" "a < 104857600"
  shows "\<exists>r' e'. record_frame f (r, e) = Some (r', e') \<and> mdf_file r' = None \<and> idx_file r' = None \<and> metrics_ok (rmetrics e')
    \<and> free_space e' = ss \<and> consecutive_failures r' = consecutive_failures r + 2 \<and> disk (fs e') = disk (fs e)
    \<and> degraded_mode (stats r') = (10 \<le> consecutive_failures r + 2)"
proof -
  obtain t0 e1 where t0: "steady_now e = (t0, e1)" by fastforce
  note e1 = now_fields(2) [OF t0]
  define r1 where "r1 = (if 0 < frame_symbol (body f) then r\<lparr>unique_symbols := insert (frame_symbol (body f)) (unique_symbols r)\<rparr> else r)"
  have r1: "mdf_file r1 = None" "idx_file r1 = None" "stats r1 = stats r" "consecutive_failures r1 = consecutive_failures r"
    using n by (simp_all add: r1_def)
  have "\<exists>r2 e2. roll_file_if_needed (frame_ts (body f)) (r1, e1) = Some (r2, e2) \<and> mdf_file r2 = None \<and> idx_file r2 = None
      \<and> metrics_ok (rmetrics e2) \<and> free_space e2 = ss \<and> consecutive_failures r2 = consecutive_failures r + 1 \<and> fs e2 = fs e
      \<and> degraded_mode (stats r2) = degraded_mode (stats r)"
    using r1 e1 sp m
    by (simp add: roll_file_if_needed_def close_current_files_def update_mdf_header_def open_new_files_def check_disk_space_def
        open_failed_def count_metric_def with_stats_def Let_def)
  then obtain r2 e2 where 2: "roll_file_if_needed (frame_ts (body f)) (r1, e1) = Some (r2, e2)" "mdf_file r2 = None" "idx_file r2 = None"
    "metrics_ok (rmetrics e2)" "free_space e2 = ss" "consecutive_failures r2 = consecutive_failures r + 1" "fs e2 = fs e" "\<not> degraded_mode (stats r2)"
    using d by auto
  have "\<exists>r3 e3. write_frame f (r2, e2) = Some (r3, e3) \<and> mdf_file r3 = None \<and> idx_file r3 = None \<and> metrics_ok (rmetrics e3)
      \<and> free_space e3 = ss \<and> consecutive_failures r3 = consecutive_failures r + 2 \<and> fs e3 = fs e
      \<and> degraded_mode (stats r3) = (10 \<le> consecutive_failures r + 2)"
    using 2 by (simp add: write_frame_def count_failure_def degrade_if_failing_def gauge_metric_def with_stats_def max_consecutive_failures_def add.commute [of 2])
  then obtain r3 e3 where 3: "write_frame f (r2, e2) = Some (r3, e3)" "mdf_file r3 = None" "idx_file r3 = None" "metrics_ok (rmetrics e3)"
    "free_space e3 = ss" "consecutive_failures r3 = consecutive_failures r + 2" "fs e3 = fs e"
    "degraded_mode (stats r3) = (10 \<le> consecutive_failures r + 2)" by blast
  obtain t1 e4 where t1: "steady_now e3 = (t1, e4)" by fastforce
  note e4 = now_fields(2) [OF t1]
  obtain m' where m': "record_latency ''recorder_write_frame_ns'' (t1 - t0) (rmetrics e4) = Some m'" "metrics_ok m'"
    using record_latency_returns [of "rmetrics e4" "''recorder_write_frame_ns''" "t1 - t0"] 3(4) e4 by auto
  have "record_frame f (r, e) = Some (r3, e4\<lparr>rmetrics := m'\<rparr>)"
    using t0 2(1) 3(1) t1 m'(1) by (simp add: record_frame_def Let_def timer_destroy_def r1_def)
  then show ?thesis using 3 m' e4 by auto
qed

lemma recorder_archive:
  assumes "\<forall>f \<in> set (concat polls). wf_frame f"
    and "recording_thread polls (snd (rec_start (new_recorder dir roll index fsync)), e) = Some (rest, st)"
    and "rec_stop st = Some st'"
  shows "\<exists>frames A. concat polls = frames @ rest \<and> archive_run dir frames empty_archive A
    \<and> (\<forall>b seg. segments A b = Some seg \<longrightarrow> shows_segment (disk (fs (snd st'))) b seg \<and> subseq (seg_frames seg) frames)"
proof -
  let ?r = "snd (rec_start (new_recorder dir roll index fsync))"
  have r: "mdf_file ?r = None" "idx_file ?r = None" "data_dir ?r = dir" by (simp_all add: rec_start_def new_recorder_def)
  have "sim (?r, e) empty_archive" using r by (simp add: sim_def empty_archive_def)
  from recording_thread_sim [OF this assms(1,2)] obtain frames A
    where A: "concat polls = frames @ rest" "archive_run dir frames empty_archive A" "sim st A" using r by auto
  have "from_input A frames" using archive_run_input [OF A(2), of "[]"] by (simp add: from_input_def empty_archive_def)
  then have "\<forall>b seg. segments A b = Some seg \<longrightarrow> shows_segment (disk (fs (snd st'))) b seg \<and> subseq (seg_frames seg) frames"
    using rec_stop_sim [OF A(3) assms(3)] by (auto simp: from_input_def sim_def)
  then show ?thesis using A by blast
qed

section \<open>Properties\<close>


definition example_env :: rec_env where
  "example_env = \<lparr>fs = \<lparr>disk = Map.empty, faults = []\<rparr>, rmetrics = no_metrics, wall_clock = [], steady_clock = [], free_space = [], slept_ms = 0\<rparr>"


text \<open>
  C25: nothing is lost while nothing fails. A fresh recorder whose system calls succeed handles any
  sequence of up to $10^{15}$ well-formed frames: every call returns, each frame is appended to the
  current file or, when that has reached the roll limit, to a new one, and all frames are counted.
\<close>

theorem recorder_records_everything:
  assumes "\<forall>f \<in> set frames. wf_frame f" "length frames \<le> 1000000000000000"
    and "faults (fs e) = []" "free_space e = []" "rmetrics e = no_metrics"
  shows "\<exists>r' e' A. record_frames frames (new_recorder dir roll index fsync, e) = Some (r', e') \<and> sim (r', e') A
    \<and> view A = foldl (ideal_step dir roll) (Map.empty, None) frames \<and> frames_written (stats r') = of_nat (length frames)"
proof -
  let ?r = "new_recorder dir roll index fsync"
  have s: "sim (?r, e) empty_archive" by (simp add: sim_def empty_archive_def new_recorder_def)
  have h: "healthy (?r, e)" using assms metrics_ok_none by (simp add: healthy_def new_recorder_def)
  have b: "frames_bound empty_archive 0" by (simp add: frames_bound_def empty_archive_def)
  have v: "view empty_archive = (Map.empty, None)" by (simp add: view_def empty_archive_def)
  have l: "0 + length frames \<le> 67000000000000000" using assms(2) by simp
  from record_frames_ideal [OF s h assms(1) b l] show ?thesis by (auto simp: v new_recorder_def)
qed

theorem recorder_records_everything_witness:
  "\<exists>r' e' A. record_frames [mk_frame 0 (BTrade example_trade)] (new_recorder ''d'' 1000 1 50, example_env) = Some (r', e')
     \<and> view A = foldl (ideal_step ''d'' 1000) (Map.empty, None) [mk_frame 0 (BTrade example_trade)] \<and> frames_written (stats r') = 1"
  using recorder_records_everything [of "[mk_frame 0 (BTrade example_trade)]" example_env "''d''" 1000 1 50]
  by (auto simp: example_env_def simp del: mk_frame.simps ideal_step.simps)


definition degraded_recorder :: Recorder where
  "degraded_recorder = (new_recorder ''d'' 64 1 1)\<lparr>stats := (stats (new_recorder ''d'' 64 1 1))\<lparr>degraded_mode := True\<rparr>\<rparr>"


text \<open>
  A full disk degrades the recorder at the fifth frame, because a failed roll counts twice: once in
  \<open>roll_file_if_needed\<close> and once in \<open>write_frame\<close>.
\<close>

theorem disk_full_degrades_at_fifth_frame:
  assumes "free_space e = replicate 5 (Some a)" "a < 104857600" "rmetrics e = no_metrics"
  shows "\<exists>r4 e4 r5 e5. record_frames [f1, f2, f3, f4] (new_recorder dir roll index fsync, e) = Some (r4, e4) \<and> \<not> degraded_mode (stats r4)
    \<and> record_frame f5 (r4, e4) = Some (r5, e5) \<and> degraded_mode (stats r5) \<and> disk (fs e5) = disk (fs e)"
proof -
  let ?r = "new_recorder dir roll index fsync"
  have sp: "free_space e = Some a # [Some a, Some a, Some a, Some a]" using assms(1) by (simp add: eval_nat_numeral)
  have n: "mdf_file ?r = None" "idx_file ?r = None" "\<not> degraded_mode (stats ?r)" "metrics_ok (rmetrics e)" "consecutive_failures ?r = 0"
    using assms(3) metrics_ok_none by (simp_all add: new_recorder_def)
  note step = record_frame_disk_full [where a = a, OF _ _ _ _ _ assms(2)]
  obtain r1 e1 where 1: "record_frame f1 (?r, e) = Some (r1, e1)" "mdf_file r1 = None" "idx_file r1 = None" "metrics_ok (rmetrics e1)"
    "free_space e1 = Some a # [Some a, Some a, Some a]" "consecutive_failures r1 = 2" "disk (fs e1) = disk (fs e)" "\<not> degraded_mode (stats r1)"
    using step [OF n(1-4) sp, of f1] n(5) by auto
  obtain r2 e2 where 2: "record_frame f2 (r1, e1) = Some (r2, e2)" "mdf_file r2 = None" "idx_file r2 = None" "metrics_ok (rmetrics e2)"
    "free_space e2 = Some a # [Some a, Some a]" "consecutive_failures r2 = 4" "disk (fs e2) = disk (fs e)" "\<not> degraded_mode (stats r2)"
    using step [OF 1(2,3,8,4,5), of f2] 1 by auto
  obtain r3 e3 where 3: "record_frame f3 (r2, e2) = Some (r3, e3)" "mdf_file r3 = None" "idx_file r3 = None" "metrics_ok (rmetrics e3)"
    "free_space e3 = Some a # [Some a]" "consecutive_failures r3 = 6" "disk (fs e3) = disk (fs e)" "\<not> degraded_mode (stats r3)"
    using step [OF 2(2,3,8,4,5), of f3] 2 by auto
  obtain r4 e4 where 4: "record_frame f4 (r3, e3) = Some (r4, e4)" "mdf_file r4 = None" "idx_file r4 = None" "metrics_ok (rmetrics e4)"
    "free_space e4 = Some a # []" "consecutive_failures r4 = 8" "disk (fs e4) = disk (fs e)" "\<not> degraded_mode (stats r4)"
    using step [OF 3(2,3,8,4,5), of f4] 3 by auto
  show ?thesis using step [OF 4(2,3,8,4,5), of f5] 1 2 3 4 by auto
qed

theorem disk_full_degrades_at_fifth_frame_witness:
  "\<exists>r4 e4 r5 e5. record_frames [mk_frame 0 (BTrade example_trade), mk_frame 0 (BTrade example_trade), mk_frame 0 (BTrade example_trade),
      mk_frame 0 (BTrade example_trade)] (new_recorder ''d'' 1000 1 50, example_env\<lparr>free_space := replicate 5 (Some 7)\<rparr>) = Some (r4, e4)
     \<and> record_frame (mk_frame 0 (BTrade example_trade)) (r4, e4) = Some (r5, e5) \<and> degraded_mode (stats r5)"
proof -
  let ?f = "mk_frame 0 (BTrade example_trade)" and ?e = "example_env\<lparr>free_space := replicate 5 (Some 7)\<rparr>"
  have "free_space ?e = replicate 5 (Some 7)" "(7 :: u64) < 104857600" "rmetrics ?e = no_metrics" by (simp_all add: example_env_def)
  from disk_full_degrades_at_fifth_frame [OF this, of ?f ?f ?f ?f "''d''" 1000 1 50 ?f] show ?thesis by blast
qed

end
