(* ===== verification/Replay_Archive.thy ===== *)
theory Replay_Archive
  imports Replayer Recorder_Progress
begin

text \<open>
  What a replay reads from the files the recorder leaves: seeking through the index, reading frames
  across files, and the frames a session publishes.
\<close>

section \<open>Binary search\<close>

lemma lower_bound_spec:
  assumes "\<And>i j. i \<le> j \<Longrightarrow> j < length xs \<Longrightarrow> P (xs ! j) \<Longrightarrow> P (xs ! i)"
    and "first + len \<le> length xs" "\<And>i. i < first \<Longrightarrow> P (xs ! i)" "\<And>i. first + len \<le> i \<Longrightarrow> i < length xs \<Longrightarrow> \<not> P (xs ! i)"
  shows "let r = lower_bound P xs first len in r \<le> length xs \<and> (\<forall>i < r. P (xs ! i)) \<and> (\<forall>i. r \<le> i \<longrightarrow> i < length xs \<longrightarrow> \<not> P (xs ! i))"
  using assms
proof (induction P xs first len rule: lower_bound.induct)
  case (1 P xs first len)
  show ?case
  proof (cases "len = 0")
    case True
    then show ?thesis using 1(3-6) by (subst lower_bound.simps) (auto simp: Let_def)
  next
    case False
    let ?m = "first + len div 2"
    have m: "?m < length xs" using False 1(4) by linarith
    show ?thesis
    proof (cases "P (xs ! ?m)")
      case True
      have "\<And>i. i < ?m + 1 \<Longrightarrow> P (xs ! i)" using 1(3) [OF _ m True] by simp
      moreover have "\<And>i. ?m + 1 + (len - len div 2 - 1) \<le> i \<Longrightarrow> i < length xs \<Longrightarrow> \<not> P (xs ! i)" using 1(6) False by simp
      ultimately show ?thesis
        using 1(1) [OF False refl refl True 1(3)] False True 1(4) by (subst lower_bound.simps) (simp add: Let_def)
    next
      case F: False
      have "\<And>i. first + len div 2 \<le> i \<Longrightarrow> i < length xs \<Longrightarrow> \<not> P (xs ! i)" using 1(3) F by blast
      then show ?thesis
        using 1(2) [OF False refl refl F 1(3)] False F 1(4,5) by (subst lower_bound.simps) (simp add: Let_def)
    qed
  qed
qed

lemma lower_bound_0 [simp]: "lower_bound P xs first 0 = first"
  by (subst lower_bound.simps) simp

lemma lower_bound_le: "lower_bound P xs first len \<le> first + len"
proof (induction P xs first len rule: lower_bound.induct)
  case (1 P xs first len)
  then show ?case by (subst lower_bound.simps) (force simp: Let_def)
qed

section \<open>The index\<close>

lemma index_entries_data: "index_entries (length ks) (concat (map (\<lambda>k. IndexEntry_bytes (e k)) ks) @ rest) = map e ks"
  by (induction ks) simp_all

lemma length_idx_bytes: "length (concat (map (\<lambda>k. IndexEntry_bytes (e k)) ks)) = 16 * length ks"
  by (induction ks) simp_all

lemma replay_ts_frame_ts [simp]: "replay_ts b = frame_ts b"
  by (cases b) simp_all

definition stamps :: "segment \<Rightarrow> u64 list" where
  "stamps seg = map (\<lambda>f. frame_ts (body f)) (seg_frames seg)"

lemma frame_offset_mono: "j \<le> k \<Longrightarrow> frame_offset seg j \<le> frame_offset seg k"
proof -
  assume "j \<le> k"
  then have "take k (seg_frames seg) = take j (seg_frames seg) @ take (k - j) (drop j (seg_frames seg))"
    by (metis take_add le_add_diff_inverse)
  then show ?thesis by (simp add: frame_offset_def)
qed

lemma stamps_mono: "sorted (stamps seg) \<Longrightarrow> i \<le> j \<Longrightarrow> j < length (seg_frames seg) \<Longrightarrow> stamps seg ! i \<le> stamps seg ! j"
  by (rule sorted_nth_mono) (auto simp: stamps_def)

lemma indexed_stamp:
  "wf_segment seg \<Longrightarrow> i < length (seg_index seg) \<Longrightarrow> ts_ns_first (map (index_entry seg) (seg_index seg) ! i) = stamps seg ! (seg_index seg ! i)"
  by (auto simp: wf_segment_def index_entry_def stamps_def)

text \<open>The frame position the index search chooses.\<close>

definition seek_frame :: "segment \<Rightarrow> u64 \<Rightarrow> nat" where
  "seek_frame seg target = (let r = lower_bound (\<lambda>e. ts_ns_first e < target) (map (index_entry seg) (seg_index seg)) 0 (length (seg_index seg))
     in if r = 0 then 0 else seg_index seg ! (r - 1))"

lemma seek_frame_spec:
  assumes wf: "wf_segment seg" and sorted: "sorted (stamps seg)"
  shows "seek_frame seg target \<le> length (seg_frames seg) \<and> (\<forall>i < seek_frame seg target. stamps seg ! i < target)"
proof -
  let ?ks = "seg_index seg" and ?es = "map (index_entry seg) (seg_index seg)" and ?P = "\<lambda>e. ts_ns_first e < target"
  let ?r = "lower_bound ?P ?es 0 (length ?ks)"
  have ks: "?ks ! j < length (seg_frames seg)" if "j < length ?ks" for j using wf that by (simp add: wf_segment_def)
  have "?P (?es ! i)" if "i \<le> j" "j < length ?es" "?P (?es ! j)" for i j
  proof -
    have "?ks ! i \<le> ?ks ! j" using wf that sorted_wrt_nth_less [of "(<)" ?ks i j] by (auto simp: wf_segment_def le_less)
    then have "stamps seg ! (?ks ! i) \<le> stamps seg ! (?ks ! j)" using ks [of j] that by (intro stamps_mono [OF sorted]) auto
    then show ?thesis using that indexed_stamp [OF wf, of i] indexed_stamp [OF wf, of j] by simp
  qed
  then have r: "?r \<le> length ?ks" "\<forall>i < ?r. ?P (?es ! i)"
    using lower_bound_spec [of ?es ?P 0 "length ?ks"] by (auto simp: Let_def)
  show ?thesis
  proof (cases "?r = 0")
    case False
    then have k: "seek_frame seg target = ?ks ! (?r - 1)" "?r - 1 < length ?ks" using r(1) by (auto simp: seek_frame_def)
    have "stamps seg ! (?ks ! (?r - 1)) < target" using r(2) [rule_format, of "?r - 1"] False indexed_stamp [OF wf k(2)] by simp
    moreover have "stamps seg ! i \<le> stamps seg ! (?ks ! (?r - 1))" if "i < ?ks ! (?r - 1)" for i
      using that ks [OF k(2)] by (intro stamps_mono [OF sorted]) auto
    ultimately show ?thesis using k ks [OF k(2)] by (auto intro: le_less_trans)
  qed (simp add: seek_frame_def)
qed

text \<open>Seeking in a closed segment moves to the frame chosen.\<close>

lemma seek_in_segment:
  assumes wf: "wf_segment seg" and sorted: "sorted (stamps seg)" and small: "frame_offset seg (length (seg_frames seg)) < 2 ^ 63"
    and idx: "ifs_good (rs_idx_file s)" "contents dk (rs_idx_file s) = idx_data seg" and mdf: "\<not> if_fail (rs_mdf_file s)"
  shows "\<exists>f. seek_to_timestamp dk target s
    = Inr (True, s\<lparr>rs_idx_file := f, rs_mdf_file := (rs_mdf_file s)\<lparr>if_eof := False, if_pos := frame_offset seg (seek_frame seg target)\<rparr>\<rparr>)"
proof -
  let ?n = "length (seg_index seg)" and ?k = "seek_frame seg target"
  have len: "length (idx_data seg) = 16 * ?n" by (simp add: idx_data_def length_idx_bytes)
  have "frame_offset seg ?k < 2 ^ 63"
    using seek_frame_spec [OF wf sorted, of target] frame_offset_mono [of ?k "length (seg_frames seg)" seg] small by simp
  then have pos: "ifs_seek (of_nat (frame_offset seg ?k)) (rs_mdf_file s) = (rs_mdf_file s)\<lparr>if_eof := False, if_pos := frame_offset seg ?k\<rparr>"
    by (rule ifs_seek_small [OF mdf])
  define idx1 where "idx1 = ifs_seek_end dk (rs_idx_file s)"
  have idx1: "\<not> if_fail idx1" "ifs_tell idx1 = Some (16 * ?n)" "contents dk idx1 = idx_data seg"
    using idx len by (auto simp: idx1_def ifs_seek_end_def ifs_good_def ifs_tell_def)
  show ?thesis
  proof (cases "?n = 0")
    case True
    then show ?thesis
      using pos idx1 mdf by (auto simp: seek_to_timestamp_def Let_def seek_frame_def frame_offset_def ifs_good_def simp flip: idx1_def)
  next
    case False
    let ?g = "idx1\<lparr>if_eof := False, if_pos := 0\<rparr>"
    have g: "ifs_seek 0 idx1 = ?g" using ifs_seek_small [OF idx1(1), of 0] by simp
    have rd: "ifs_read dk (16 * ?n) ?g = (idx_data seg, ?g\<lparr>if_pos := 16 * ?n, gcount := 16 * ?n\<rparr>)"
      using ifs_read_whole [of ?g dk "idx_data seg" "[]"] idx1 len by (simp add: ifs_good_def)
    have es: "index_entries ?n (resize (16 * ?n) (idx_data seg)) = map (index_entry seg) (seg_index seg)"
      using index_entries_data [of "seg_index seg" "index_entry seg" "[]"] len by (simp add: resize_def idx_data_def)
    define r where "r = lower_bound (\<lambda>e. ts_ns_first e < target) (map (index_entry seg) (seg_index seg)) 0 ?n"
    have "r \<le> ?n" unfolding r_def using lower_bound_le [of _ _ 0] by simp
    then have off: "(if r = 0 then 32 else file_offset (map (index_entry seg) (seg_index seg) ! (r - 1))) = (of_nat (frame_offset seg ?k) :: u64)"
      using False by (auto simp: seek_frame_def index_entry_def frame_offset_def simp flip: r_def)
    show ?thesis
      using False pos mdf
      by (simp add: seek_to_timestamp_def Let_def idx1(2) g rd es ifs_good_def off del: One_nat_def flip: idx1_def r_def split del: if_split cong: if_cong) blast
  qed
qed

section \<open>Reading across files\<close>

definition file_of :: "files \<Rightarrow> path \<Rightarrow> Frame list \<Rightarrow> bool" where
  "file_of dk p gs \<longleftrightarrow> (\<exists>h. dk p = Some (MdfHeader_bytes h @ concat (map frame_bytes gs))) \<and> (\<forall>f \<in> set gs. wf_frame f)"

text \<open>The frames a session has in front of it: the rest of its current file, then the following files.\<close>

definition reads_split :: "files \<Rightarrow> ReplaySession \<Rightarrow> Frame list \<Rightarrow> Frame list list \<Rightarrow> bool" where
  "reads_split dk s fs1 rest \<longleftrightarrow> ifs_good (rs_mdf_file s) \<and> drop (if_pos (rs_mdf_file s)) (contents dk (rs_mdf_file s)) = concat (map frame_bytes fs1)
     \<and> (\<forall>f \<in> set fs1. wf_frame f) \<and> list_all2 (file_of dk) (drop (Suc (current_file_index s)) (mdf_paths s)) rest"

definition reads :: "files \<Rightarrow> ReplaySession \<Rightarrow> Frame list \<Rightarrow> bool" where
  "reads dk s xs \<longleftrightarrow> (\<exists>fs1 rest. reads_split dk s fs1 rest \<and> xs = fs1 @ concat rest)"

lemma readsI: "reads_split dk s fs1 rest \<Longrightarrow> reads dk s (fs1 @ concat rest)"
  by (auto simp: reads_def)

text \<open>Reading changes only the streams and the position in the list of files.\<close>

definition same_session :: "ReplaySession \<Rightarrow> ReplaySession \<Rightarrow> bool" where
  "same_session s s' \<longleftrightarrow> (\<exists>f g p q i. s' = s\<lparr>rs_mdf_file := f, rs_idx_file := g, mdf_path := p, idx_path := q, current_file_index := i\<rparr>)"

lemma same_session_fields:
  assumes "same_session s s'"
  shows "rs_end_ts_ns s' = rs_end_ts_ns s" "rs_running s' = rs_running s" "paused s' = paused s" "in_playback s' = in_playback s"
    "first_timestamp_ns s' = first_timestamp_ns s" "rate_multiplier s' = rate_multiplier s" "topics s' = topics s" "mdf_paths s' = mdf_paths s"
  using assms by (auto simp: same_session_def)

lemma same_session_mdf: "same_session s (s\<lparr>rs_mdf_file := f\<rparr>)"
proof -
  have "s\<lparr>rs_mdf_file := f\<rparr> = s\<lparr>rs_mdf_file := f, rs_idx_file := rs_idx_file s, mdf_path := mdf_path s, idx_path := idx_path s,
    current_file_index := current_file_index s\<rparr>" by simp
  then show ?thesis unfolding same_session_def by blast
qed

lemma same_session_trans: "same_session s t \<Longrightarrow> same_session t u \<Longrightarrow> same_session s u"
  unfolding same_session_def by fastforce

lemma same_session_next: "same_session s (at_first_frame (next_file dk s))"
proof -
  have "at_first_frame (next_file dk s) = s\<lparr>rs_mdf_file := rs_mdf_file (at_first_frame (next_file dk s)), rs_idx_file := rs_idx_file (next_file dk s),
    mdf_path := mdf_path (next_file dk s), idx_path := idx_path (next_file dk s), current_file_index := current_file_index (next_file dk s)\<rparr>"
    by (simp add: at_first_frame_def next_file_def Let_def)
  then show ?thesis unfolding same_session_def by blast
qed

lemma frame_bytes_parts:
  assumes "wf_frame f"
  obtains hb where "frame_bytes f = hb @ body_bytes (body f)" "length hb = 16" "FrameHeader_of hb = header (sealed f)"
    "fh_magic (FrameHeader_of hb) = 0x4D444146" "fh_version (FrameHeader_of hb) = 1"
    "unat (fh_body_len (FrameHeader_of hb)) = length (body_bytes (body f))"
proof (rule that)
  show "frame_bytes f = FrameHeader_bytes (header (sealed f)) @ body_bytes (body f)" by (simp add: frame_bytes_def)
qed (use assms in \<open>auto simp: wf_frame_def sealed_def\<close>)

lemma read_next_here:
  assumes "reads_split dk s (f # fs1) rest"
  shows "\<exists>s'. read_next_frame dk s = (Some (sealed f), s') \<and> reads_split dk s' fs1 rest \<and> same_session s s'"
proof -
  let ?m = "rs_mdf_file s" and ?b = "body_bytes (body f)"
  have good: "ifs_good ?m" and bytes: "drop (if_pos ?m) (contents dk ?m) = frame_bytes f @ concat (map frame_bytes fs1)" and wf: "wf_frame f"
    using assms by (simp_all add: reads_split_def)
  obtain hb where hb: "frame_bytes f = hb @ ?b" "length hb = 16" "FrameHeader_of hb = header (sealed f)"
    "fh_magic (FrameHeader_of hb) = 0x4D444146" "fh_version (FrameHeader_of hb) = 1"
    "unat (fh_body_len (FrameHeader_of hb)) = length ?b" using frame_bytes_parts [OF wf] by blast
  let ?m1 = "?m\<lparr>if_pos := if_pos ?m + 16, gcount := 16\<rparr>"
  let ?m2 = "?m1\<lparr>if_pos := if_pos ?m + 16 + length ?b, gcount := length ?b\<rparr>"
  have r1: "ifs_read dk 16 ?m = (hb, ?m1)" using ifs_read_whole [OF good, of dk hb "?b @ concat (map frame_bytes fs1)" 16] bytes hb by simp
  have d1: "drop (if_pos ?m1) (contents dk ?m1) = ?b @ concat (map frame_bytes fs1)"
    using arg_cong [OF bytes, of "drop 16"] hb(1,2) by (simp add: add.commute)
  have r2: "ifs_read dk (length ?b) ?m1 = (?b, ?m2)" using ifs_read_whole [OF _ d1 refl] good by simp
  have d2: "drop (if_pos ?m2) (contents dk ?m2) = concat (map frame_bytes fs1)"
    using arg_cong [OF d1, of "drop (length ?b)"] by (simp add: add.commute add.left_commute)
  have "decode_frame (hb @ ?b) = Some (sealed f)" using decode_frame_bytes [OF wf, of "[]"] hb(1) by simp
  then have "read_next_frame dk s = (Some (sealed f), s\<lparr>rs_mdf_file := ?m2\<rparr>)"
    using good r1 r2 hb(4-6) by (subst read_next_frame.simps) (simp add: read_body_def Let_def)
  then show ?thesis using assms d2 same_session_mdf [of s ?m2] by (auto simp: reads_split_def)
qed

lemma next_file_reads:
  assumes "list_all2 (file_of dk) (drop (Suc (current_file_index s)) (mdf_paths s)) (gs # rest)"
  shows "if_open (rs_mdf_file (next_file dk s))" "reads_split dk (at_first_frame (next_file dk s)) gs rest"
    "Suc (current_file_index s) < length (mdf_paths s)"
proof -
  let ?i = "Suc (current_file_index s)"
  show l: "?i < length (mdf_paths s)" using assms by (cases "?i < length (mdf_paths s)") simp_all
  then have "drop ?i (mdf_paths s) = mdf_paths s ! ?i # drop (Suc ?i) (mdf_paths s)" by (simp add: Cons_nth_drop_Suc)
  then have f: "file_of dk (mdf_paths s ! ?i) gs" "list_all2 (file_of dk) (drop (Suc ?i) (mdf_paths s)) rest" using assms by simp_all
  then obtain h where h: "dk (mdf_paths s ! ?i) = Some (MdfHeader_bytes h @ concat (map frame_bytes gs))" by (auto simp: file_of_def)
  then show "if_open (rs_mdf_file (next_file dk s))" by (simp add: next_file_def Let_def ifs_open_def)
  have "ifs_seek 32 (ifs_open dk (mdf_paths s ! ?i)) = (ifs_open dk (mdf_paths s ! ?i))\<lparr>if_eof := False, if_pos := 32\<rparr>"
    using ifs_seek_small [of "ifs_open dk (mdf_paths s ! ?i)" 32] h by (simp add: ifs_open_def)
  then show "reads_split dk (at_first_frame (next_file dk s)) gs rest"
    using f h by (simp add: reads_split_def at_first_frame_def next_file_def Let_def ifs_good_def ifs_open_def contents_def file_of_def)
qed

lemma read_next_advance:
  assumes "reads_split dk s [] (gs # rest)"
  shows "read_next_frame dk s = read_next_frame dk (at_first_frame (next_file dk s))"
proof -
  let ?m = "rs_mdf_file s" and ?t = "next_file dk s"
  have good: "ifs_good ?m" and e: "drop (if_pos ?m) (contents dk ?m) = []"
    and l: "list_all2 (file_of dk) (drop (Suc (current_file_index s)) (mdf_paths s)) (gs # rest)"
    using assms by (simp_all add: reads_split_def)
  note n = next_file_reads [OF l]
  have "next_file dk (s\<lparr>rs_mdf_file := f\<rparr>) = ?t" for f by (simp add: next_file_def Let_def)
  moreover have "ifs_good (rs_mdf_file (at_first_frame ?t))" using n(2) by (simp add: reads_split_def)
  ultimately show ?thesis
    using good n(1,3) ifs_read_end [OF good e, of 16] by (subst read_next_frame.simps) (simp add: Let_def)
qed

lemma read_next_end: "reads_split dk s [] [] \<Longrightarrow> fst (read_next_frame dk s) = None"
  using ifs_read_end [of "rs_mdf_file s" dk 16] by (subst read_next_frame.simps) (auto simp: reads_split_def Let_def)

lemma read_next_cons:
  "reads_split dk s fs1 rest \<Longrightarrow> fs1 @ concat rest = f # xs \<Longrightarrow>
     \<exists>s'. read_next_frame dk s = (Some (sealed f), s') \<and> reads dk s' xs \<and> same_session s s'"
proof (induction rest arbitrary: s fs1)
  case Nil
  then show ?case using read_next_here [of dk s f xs "[]"] readsI [of dk _ xs "[]"] by auto
next
  case (Cons gs rest)
  show ?case
  proof (cases fs1)
    case Nil
    let ?t = "at_first_frame (next_file dk s)"
    have "reads_split dk ?t gs rest" using Cons.prems(1) Nil next_file_reads(2) [of dk s gs rest] by (simp add: reads_split_def)
    moreover have "gs @ concat rest = f # xs" using Cons.prems(2) Nil by simp
    ultimately obtain s' where "read_next_frame dk ?t = (Some (sealed f), s')" "reads dk s' xs" "same_session ?t s'"
      using Cons.IH by blast
    then show ?thesis
      using read_next_advance [of dk s gs rest] Cons.prems(1) Nil same_session_trans [OF same_session_next] by auto
  next
    case (Cons g gs')
    then show ?thesis using Cons.prems read_next_here [of dk s f gs' "gs # rest"] readsI [of dk _ gs' "gs # rest"] by auto
  qed
qed

lemma read_next_nil: "reads_split dk s fs1 rest \<Longrightarrow> fs1 @ concat rest = [] \<Longrightarrow> fst (read_next_frame dk s) = None"
proof (induction rest arbitrary: s fs1)
  case Nil
  then show ?case by (simp add: read_next_end)
next
  case (Cons gs rest)
  then have "reads_split dk (at_first_frame (next_file dk s)) gs rest"
    using next_file_reads(2) [of dk s gs rest] by (simp add: reads_split_def)
  then show ?case using Cons read_next_advance [of dk s gs rest] by auto
qed

lemma read_next_reads: "reads dk s (f # xs) \<Longrightarrow> \<exists>s'. read_next_frame dk s = (Some (sealed f), s') \<and> reads dk s' xs \<and> same_session s s'"
  using read_next_cons unfolding reads_def [of dk s] by metis

section \<open>Playing a session\<close>

text \<open>The frames that successive passes of a session read and emit, for at most \<open>n\<close> passes.\<close>

fun played :: "nat \<Rightarrow> files \<Rightarrow> SymbolRegistry option \<Rightarrow> ReplaySession \<Rightarrow> (Frame \<times> string) list option" where
  "played 0 dk sr s = Some []"
| "played (Suc n) dk sr s = (case playback_read dk sr s of
     None \<Rightarrow> None
   | Some (Emit s1 frame topic) \<Rightarrow> map_option ((#) (frame, topic)) (played n dk sr s1)
   | Some (Idle s1) \<Rightarrow> played n dk sr s1
   | Some (Finished s1) \<Rightarrow> Some [])"

text \<open>Pacing never fails for the supported rates and timestamps below $2^{63}$.\<close>

lemma valid_rate_bound: "valid_rate r \<Longrightarrow> 3/4 \<le> r"
proof -
  assume v: "valid_rate r"
  have eps: "rnd (1 / 10 ^ 9) \<le> 1/4" using rnd_mono [of "1 / 10 ^ 9" "1/4"] rnd_exact [of 1 "-2"] by (simp add: power_int_def power2_eq_square)
  show ?thesis
  proof (rule ccontr)
    assume "\<not> 3/4 \<le> r"
    then have "dsub r 1 \<le> - (1/4)" "dsub r 10 \<le> - (1/4)" "dsub r 100 \<le> - (1/4)"
      using rnd_mono [of "r - 1" "- (1/4)"] rnd_mono [of "r - 10" "- (1/4)"] rnd_mono [of "r - 100" "- (1/4)"] rnd_exact [of "-1" "-2"]
      by (simp_all add: dsub_def power_int_def power2_eq_square)
    then show False using v eps by (auto simp: valid_rate_def Let_def)
  qed
qed

lemma paced_conversion:
  assumes "3/4 \<le> r" "d \<le> 2 ^ 63"
  shows "double_to_u64 (ddiv (double_of_nat d) r) \<noteq> None"
proof -
  have "rnd (2 ^ 63) = 2 ^ 63" "rnd (3 * 2 ^ 62) = 3 * 2 ^ 62" using rnd_exact [of 1 63] rnd_exact [of 3 62] by (simp_all add: power_int_def)
  have "(of_nat d :: rat) \<le> 2 ^ 63" using assms(2) by (metis of_nat_le_iff of_nat_numeral of_nat_power)
  then have x: "0 \<le> double_of_nat d" "double_of_nat d \<le> 2 ^ 63"
    using rnd_mono [of "of_nat d" "2 ^ 63"] \<open>rnd (2 ^ 63) = 2 ^ 63\<close> by (auto simp: double_of_nat_def rnd_nonneg)
  have "double_of_nat d / r \<le> 3 * 2 ^ 62"
    using x assms(1) by (simp add: divide_le_eq)
  then have "ddiv (double_of_nat d) r \<le> 3 * 2 ^ 62" "0 \<le> ddiv (double_of_nat d) r"
    using rnd_mono [of "double_of_nat d / r" "3 * 2 ^ 62"] \<open>rnd (3 * 2 ^ 62) = 3 * 2 ^ 62\<close> x assms(1)
    by (auto simp: ddiv_def intro!: rnd_nonneg divide_nonneg_pos)
  then have "0 \<le> trunc (ddiv (double_of_nat d) r)" "trunc (ddiv (double_of_nat d) r) < 2 ^ 64"
    by (auto simp: trunc_def floor_less_iff)
  then show ?thesis by (simp add: double_to_u64_def)
qed

lemma pace_returns:
  assumes "valid_rate (rate_multiplier s)" "unat ts \<le> 2 ^ 63"
  shows "\<exists>t w. pace ts s = Some (s\<lparr>first_timestamp_ns := t, target_wall_ns := w\<rparr>)"
proof (cases "first_timestamp_ns s")
  case None
  then show ?thesis by (intro exI [of _ "Some ts"] exI [of _ "target_wall_ns s"]) (simp add: pace_def)
next
  case (Some t0)
  have "unat (ts - t0) \<le> unat ts" if "ts > t0" using that by (simp add: unat_sub less_imp_le)
  then have "ts > t0 \<longrightarrow> double_to_u64 (ddiv (double_of_nat (unat (ts - t0))) (rate_multiplier s)) \<noteq> None"
    using assms paced_conversion [OF valid_rate_bound] by (meson le_trans)
  then obtain w where "ts > t0 \<longrightarrow> double_to_u64 (ddiv (double_of_nat (unat (ts - t0))) (rate_multiplier s)) = Some w" by auto
  then show ?thesis
    using Some by (intro exI [of _ "Some t0"] exI [of _ "if ts > t0 then w else target_wall_ns s"]) (simp add: pace_def)
qed

lemma playing_reads:
  assumes "in_playback s" "rs_running s" "\<not> paused s" "valid_rate (rate_multiplier s)"
    and "reads dk s xs" "\<forall>f \<in> set xs. unat (frame_ts (body f)) \<le> 2 ^ 63" "length xs < n"
  shows "played n dk sr s = Some (map (\<lambda>f. (sealed f, base_topic sr (body f))) (takeWhile (\<lambda>f. frame_ts (body f) \<le> rs_end_ts_ns s) xs))"
  using assms
proof (induction xs arbitrary: s n)
  case Nil
  obtain m where "n = Suc m" using Nil.prems(7) by (cases n) auto
  moreover have "fst (read_next_frame dk s) = None" using Nil.prems(5) read_next_nil by (fastforce simp: reads_def)
  then obtain s1 where "read_next_frame dk s = (None, s1)" by (cases "read_next_frame dk s") simp
  ultimately show ?case using Nil.prems by (simp add: playback_read_def)
next
  case (Cons f xs)
  obtain m where n: "n = Suc m" using Cons.prems(7) by (cases n) auto
  obtain s1 where s1: "read_next_frame dk s = (Some (sealed f), s1)" "reads dk s1 xs" "same_session s s1"
    using read_next_reads [OF Cons.prems(5)] by blast
  note sf = same_session_fields [OF s1(3)]
  let ?ts = "frame_ts (body f)" and ?s2 = "s1\<lparr>current_ts_ns := frame_ts (body f)\<rparr>"
  show ?case
  proof (cases "?ts > rs_end_ts_ns s")
    case True
    then show ?thesis using Cons.prems(1-3) n s1(1) sf by (simp add: playback_read_def Let_def not_le [symmetric])
  next
    case False
    obtain t w where p: "pace ?ts ?s2 = Some (?s2\<lparr>first_timestamp_ns := t, target_wall_ns := w\<rparr>)"
      using pace_returns [of ?s2 ?ts] Cons.prems(4,6) sf by auto
    let ?s3 = "?s2\<lparr>first_timestamp_ns := t, target_wall_ns := w\<rparr>"
    have "reads dk ?s3 xs" using s1(2) by (simp add: reads_def reads_split_def)
    then have "played m dk sr ?s3 = Some (map (\<lambda>f. (sealed f, base_topic sr (body f))) (takeWhile (\<lambda>f. frame_ts (body f) \<le> rs_end_ts_ns s) xs))"
      using Cons.IH [of ?s3 m] Cons.prems(1-4,6,7) sf n by simp
    then show ?thesis using Cons.prems(1-3) n s1(1) sf p False by (simp add: playback_read_def Let_def)
  qed
qed

section \<open>Starting a session on recorded segments\<close>

definition closed_segment :: "files \<Rightarrow> string \<Rightarrow> segment \<Rightarrow> bool" where
  "closed_segment dk b seg \<longleftrightarrow> wf_segment seg \<and> (\<exists>h. dk (b @ ''.mdf'') = Some (mdf_data h seg)) \<and> dk (b @ ''.idx'') = Some (idx_data seg)"

lemma idx_of_mdf [simp]: "idx_of (b @ ''.mdf'') = b @ ''.idx''"
  by (simp add: idx_of_def)

lemma closed_file_of: "closed_segment dk b seg \<Longrightarrow> file_of dk (b @ ''.mdf'') (seg_frames seg)"
  by (auto simp: closed_segment_def file_of_def mdf_data_def wf_segment_def)

text \<open>The frames of a range of files from the position a seek chooses.\<close>

definition frames_from :: "u64 \<Rightarrow> segment list \<Rightarrow> Frame list" where
  "frames_from from_ts segs = drop (seek_frame (hd segs) from_ts) (seg_frames (hd segs)) @ concat (map seg_frames (tl segs))"

lemma drop_mdf_frames:
  "drop (frame_offset seg k) (mdf_data h seg) = concat (map frame_bytes (drop k (seg_frames seg)))"
proof -
  have "mdf_data h seg = (MdfHeader_bytes h @ concat (map frame_bytes (take k (seg_frames seg)))) @ concat (map frame_bytes (drop k (seg_frames seg)))"
    by (simp add: mdf_data_def flip: concat_append map_append)
  moreover have "length (MdfHeader_bytes h @ concat (map frame_bytes (take k (seg_frames seg)))) = frame_offset seg k"
    by (simp add: frame_offset_def)
  ultimately show ?thesis by (metis append_eq_conv_conj)
qed

lemma session_reads:
  assumes segs: "list_all2 (closed_segment dk) (b # bs) (seg # rest)" and sorted: "sorted (stamps seg)"
    and small: "frame_offset seg (length (seg_frames seg)) < 2 ^ 63"
    and s: "s = new_session dk sid from_ts to_ts tps rate (map (\<lambda>b. b @ ''.mdf'') (b # bs)) (map (\<lambda>b. b @ ''.idx'') (b # bs))"
  shows "\<exists>s1. seek_to_timestamp dk from_ts s = Inr (True, s1) \<and> same_session s s1 \<and> reads dk s1 (frames_from from_ts (seg # rest))"
proof -
  obtain h where h: "dk (b @ ''.mdf'') = Some (mdf_data h seg)" "dk (b @ ''.idx'') = Some (idx_data seg)" and wf: "wf_segment seg"
    using segs by (auto simp: closed_segment_def)
  have o: "ifs_good (rs_idx_file s)" "contents dk (rs_idx_file s) = idx_data seg" "\<not> if_fail (rs_mdf_file s)" "contents dk (rs_mdf_file s) = mdf_data h seg"
    using h by (simp_all add: s new_session_def ifs_open_def ifs_good_def contents_def)
  let ?k = "seek_frame seg from_ts"
  obtain f where sk: "seek_to_timestamp dk from_ts s
      = Inr (True, s\<lparr>rs_idx_file := f, rs_mdf_file := (rs_mdf_file s)\<lparr>if_eof := False, if_pos := frame_offset seg ?k\<rparr>\<rparr>)"
    using seek_in_segment [OF wf sorted small o(1-3)] by blast
  let ?s1 = "s\<lparr>rs_idx_file := f, rs_mdf_file := (rs_mdf_file s)\<lparr>if_eof := False, if_pos := frame_offset seg ?k\<rparr>\<rparr>"
  have "list_all2 (file_of dk) (map (\<lambda>b. b @ ''.mdf'') bs) (map seg_frames rest)"
    using segs closed_file_of [of dk] by (auto simp: list_all2_map1 list_all2_map2 elim!: list_all2_mono)
  then have "list_all2 (file_of dk) (drop (Suc (current_file_index s)) (mdf_paths s)) (map seg_frames rest)"
    by (simp add: s new_session_def)
  then have "reads_split dk ?s1 (drop ?k (seg_frames seg)) (map seg_frames rest)"
    using o wf drop_mdf_frames [of seg ?k h]
    by (auto simp: reads_split_def ifs_good_def wf_segment_def dest: in_set_dropD)
  from readsI [OF this] have "reads dk ?s1 (frames_from from_ts (seg # rest))" by (simp add: frames_from_def)
  moreover have "same_session s ?s1"
  proof -
    have "?s1 = s\<lparr>rs_mdf_file := rs_mdf_file ?s1, rs_idx_file := f, mdf_path := mdf_path s, idx_path := idx_path s, current_file_index := current_file_index s\<rparr>" by simp
    then show ?thesis unfolding same_session_def by blast
  qed
  ultimately show ?thesis using sk by blast
qed

lemma start_session_plays:
  assumes "sort (filter (candidate dk from_ts to_ts) ps) = map (\<lambda>b. b @ ''.mdf'') bs" "bs \<noteq> []" "list_all2 (closed_segment dk) bs segs"
    and "sorted (stamps (hd segs))" "frame_offset (hd segs) (length (seg_frames (hd segs))) < 2 ^ 63"
    and "from_ts < to_ts" "valid_rate rate" "tps \<noteq> []" "length (sessions rp) < 10"
    and "\<forall>seg \<in> set segs. \<forall>t \<in> set (stamps seg). unat t \<le> 2 ^ 63"
  shows "\<exists>rp' srv' s. start_session dk (Some ps) ds True from_ts to_ts tps rate (rp, srv) = Inr (generate_session_id ds, rp', srv')
    \<and> map_of (sessions rp') (generate_session_id ds) = Some s
    \<and> (\<forall>n > length (frames_from from_ts segs). played n dk (rp_registry rp') s =
         Some (map (\<lambda>f. (sealed f, base_topic (rp_registry rp') (body f))) (takeWhile (\<lambda>f. frame_ts (body f) \<le> to_ts) (frames_from from_ts segs))))"
proof -
  obtain b bs' seg segs' where bs: "bs = b # bs'" and segs: "segs = seg # segs'" using assms(2,3) by (cases bs; cases segs) auto
  let ?s = "new_session dk (generate_session_id ds) from_ts to_ts tps rate (map (\<lambda>b. b @ ''.mdf'') (b # bs')) (map (\<lambda>b. b @ ''.idx'') (b # bs'))"
  obtain s1 where s1: "seek_to_timestamp dk from_ts ?s = Inr (True, s1)" "same_session ?s s1" "reads dk s1 (frames_from from_ts segs)"
    using session_reads [OF _ _ _ refl, where dk = dk and b = b and bs = bs' and seg = seg and rest = segs' and from_ts = from_ts] assms(3-5) bs segs
    by fastforce
  let ?s2 = "s1\<lparr>rs_running := True, in_playback := True\<rparr>"
  note sf = same_session_fields [OF s1(2)]
  have ts: "\<forall>f \<in> set (frames_from from_ts segs). unat (frame_ts (body f)) \<le> 2 ^ 63"
    using assms(10) segs by (auto simp: frames_from_def stamps_def dest!: in_set_dropD)
  have "reads dk ?s2 (frames_from from_ts segs)" using s1(3) by (simp add: reads_def reads_split_def)
  then have pl: "played n dk sr ?s2 = Some (map (\<lambda>f. (sealed f, base_topic sr (body f))) (takeWhile (\<lambda>f. frame_ts (body f) \<le> to_ts) (frames_from from_ts segs)))"
    if "n > length (frames_from from_ts segs)" for n sr
    using playing_reads [of ?s2 dk "frames_from from_ts segs" n sr] ts that assms(7) sf by (simp add: new_session_def)
  have "find_files_for_range dk (Some ps) from_ts to_ts = Some (map (\<lambda>b. b @ ''.mdf'') (b # bs'), map (\<lambda>b. b @ ''.idx'') (b # bs'))"
    using assms(1) bs by (simp add: find_files_for_range_def Let_def comp_def)
  moreover have "if_open (rs_mdf_file ?s)" "if_open (rs_idx_file ?s)"
    using assms(3) bs segs by (auto simp: new_session_def ifs_open_def closed_segment_def)
  ultimately show ?thesis using assms(6-9) s1(1) pl
    by (simp add: start_session_def MAX_CONCURRENT_SESSIONS_def Let_def not_le update_conv' fun_upd_same)
qed

section \<open>Recording into one segment\<close>

lemma file_bytes_mono: "file_bytes xs \<le> file_bytes (xs @ ys)"
  by (simp add: file_bytes_def)

lemma ideal_single:
  "file_bytes (butlast (f # xs)) < unat limit \<Longrightarrow> foldl (ideal_step dir limit) (Map.empty, None) (f # xs)
     = ([generate_filename dir (frame_ts (body f)) \<mapsto> f # xs], Some (generate_filename dir (frame_ts (body f))))"
proof (induction xs rule: rev_induct)
  case (snoc x xs)
  have b: "file_bytes (f # xs) < unat limit" using snoc.prems by (simp add: butlast_append)
  moreover have "file_bytes (butlast (f # xs)) \<le> file_bytes (f # xs)"
    by (metis append_butlast_last_id file_bytes_mono list.distinct(1))
  ultimately have "file_bytes (butlast (f # xs)) < unat limit" by (rule order.strict_trans1 [rotated])
  note IH = snoc.IH [OF this]
  have "foldl (ideal_step dir limit) (Map.empty, None) ((f # xs) @ [x]) = ideal_step dir limit (foldl (ideal_step dir limit) (Map.empty, None) (f # xs)) x"
    by (simp only: foldl_append foldl_Cons foldl_Nil)
  then show ?case unfolding IH using b by (auto simp: frames_of_def fun_eq_iff)
qed (simp add: file_bytes_def)

lemma extension_mdf: "b \<noteq> [] \<Longrightarrow> last b \<noteq> CHR ''/'' \<Longrightarrow> extension (b @ ''.mdf'') = ''.mdf''"
proof -
  assume "b \<noteq> []" "last b \<noteq> CHR ''/''"
  then obtain c cs where r: "rev b = c # cs" "c \<noteq> CHR ''/''" by (cases "rev b") (auto simp: last_rev [symmetric])
  let ?x = "takeWhile (\<lambda>c. c \<noteq> CHR ''/'') (rev b)"
  have "filename (b @ ''.mdf'') = rev ?x @ ''.mdf''" by (simp add: filename_def)
  then show ?thesis using r by (simp add: extension_def Let_def)
qed

lemma extension_suffix: "extension p = [] \<or> (\<exists>q. p = q @ extension p)"
proof -
  have "rev (takeWhile P xs @ dropWhile P xs) = rev (dropWhile P xs) @ rev (takeWhile P xs)" for P and xs :: string by (rule rev_append)
  then have p: "p = rev (dropWhile (\<lambda>c. c \<noteq> CHR ''/'') (rev p)) @ filename p" by (simp add: filename_def)
  show ?thesis
  proof (cases "extension p = []")
    case False
    then obtain n where "extension p = drop n (filename p)" by (auto simp: extension_def Let_def split: if_splits)
    then have "filename p = take n (filename p) @ extension p" by simp
    then show ?thesis using p by (metis append.assoc)
  qed simp
qed

lemma idx_not_candidate [simp]: "\<not> candidate dk from_ts to_ts (b @ ''.idx'')"
  using extension_suffix [of "b @ ''.idx''"] by (auto simp: candidate_def)

lemma closed_candidate:
  assumes "b \<noteq> []" "last b \<noteq> CHR ''/''" "dk (b @ ''.mdf'') = Some (MdfHeader_bytes h @ rest)" "dk (b @ ''.idx'') \<noteq> None"
    "mdf_magic h = 0x4D444649" "mdf_version h = 1" "in_range from_ts to_ts h"
  shows "candidate dk from_ts to_ts (b @ ''.mdf'')"
  using assms ifs_read_whole [of "ifs_open dk (b @ ''.mdf'')" dk "MdfHeader_bytes h" rest 32]
  by (simp add: candidate_def extension_mdf ifs_open_def ifs_good_def contents_def)

lemma generate_filename_end: "generate_filename dir ts \<noteq> [] \<and> last (generate_filename dir ts) \<noteq> CHR ''/''"
proof -
  obtain w where w: "generate_filename dir ts = dir @ ''/md_'' @ w @ digits 2 (tm_sec (gmtime (unat ts div 1000000000)))"
    by (simp add: generate_filename_def put_time_def)
  have "last (digits 2 n) \<noteq> CHR ''/''" for n
  proof
    assume "last (digits 2 n) = CHR ''/''"
    then have "of_char (char_of (48 + n mod 10) :: char) = (47 :: nat)" by (simp add: numeral_2_eq_2)
    then show False by (simp add: of_char_mod_256)
  qed
  then show ?thesis by (simp add: w) (metis append_is_Nil_conv last_append length_digits length_0_conv zero_neq_numeral)
qed

lemma recorded_single_segment:
  assumes "frames \<noteq> []" "\<forall>f \<in> set frames. wf_frame f" "length frames \<le> 1000000000000000"
    and "faults (fs e) = []" "free_space e = []" "rmetrics e = no_metrics" "file_bytes (butlast frames) < unat roll"
    and "record_frames frames (new_recorder dir roll index fsync, e) = Some st" "close_current_files st = Some st'"
  shows "\<exists>seg h. seg_frames seg = frames \<and> wf_segment seg \<and> mdf_ok h seg
    \<and> disk (fs (snd st')) (generate_filename dir (frame_ts (body (hd frames))) @ ''.mdf'') = Some (mdf_data h seg)
    \<and> disk (fs (snd st')) (generate_filename dir (frame_ts (body (hd frames))) @ ''.idx'') = Some (idx_data seg)"
proof -
  let ?r = "new_recorder dir roll index fsync" and ?b = "generate_filename dir (frame_ts (body (hd frames)))"
  have s: "sim (?r, e) empty_archive" by (simp add: sim_def empty_archive_def new_recorder_def)
  have h: "healthy (?r, e)" using assms(4-6) metrics_ok_none by (simp add: healthy_def new_recorder_def)
  have b: "frames_bound empty_archive 0" by (simp add: frames_bound_def empty_archive_def)
  have l: "0 + length frames \<le> 67000000000000000" using assms(3) by simp
  obtain r1 e1 A where A: "st = (r1, e1)" "healthy (r1, e1)" "sim (r1, e1) A"
    "view A = foldl (ideal_step dir roll) (view empty_archive) frames"
    using record_frames_ideal [OF s h assms(2) b l] assms(8) by (auto simp: new_recorder_def)
  moreover obtain f xs where "frames = f # xs" using assms(1) by (cases frames) auto
  ultimately have "view A = ([?b \<mapsto> frames], Some ?b)" using ideal_single assms(7) by (simp add: view_def empty_archive_def)
  then obtain seg where seg: "cur A = Some ?b" "segments A ?b = Some seg" "seg_frames seg = frames"
    by (auto simp: view_def fun_eq_iff split: if_splits)
  have "seg_size seg \<le> 4611686018427387904" using seg(3) assms(3) by (simp add: seg_size_def)
  moreover obtain r2 e2 where "st' = (r2, e2)" by fastforce
  ultimately show ?thesis
    using close_current_exact [OF A(3,2) seg(1,2)] assms(9) A(1) seg simD_other [OF A(3) seg(2)] by auto
qed

section \<open>The index of a file that is still open\<close>

lemma lower_bound_all: "(\<And>i. first \<le> i \<Longrightarrow> i < first + len \<Longrightarrow> P (xs ! i)) \<Longrightarrow> lower_bound P xs first len = first + len"
proof (induction P xs first len rule: lower_bound.induct)
  case (1 P xs first len)
  show ?case
  proof (cases "len = 0")
    case False
    then have m: "P (xs ! (first + len div 2))" using 1(3) by simp
    then have "lower_bound P xs (first + len div 2 + 1) (len - len div 2 - 1) = first + len"
      using 1(1) [OF False refl refl m] 1(3) False by fastforce
    then show ?thesis using False m by (subst lower_bound.simps) (simp add: Let_def)
  qed simp
qed

lemma lower_bound_right: "(\<And>i. first + len div 2 \<le> i \<Longrightarrow> i < first + len \<Longrightarrow> P (xs ! i)) \<Longrightarrow> lower_bound P xs first len = first + len"
proof (cases "len = 0")
  case False
  assume P: "\<And>i. first + len div 2 \<le> i \<Longrightarrow> i < first + len \<Longrightarrow> P (xs ! i)"
  then have "lower_bound P xs (first + len div 2 + 1) (len - len div 2 - 1) = first + len"
    using False by (subst lower_bound_all) auto
  then show ?thesis using False P by (subst lower_bound.simps) (simp add: Let_def)
qed simp

definition zero_entry :: IndexEntry where
  "zero_entry = \<lparr>ts_ns_first = 0, file_offset = 0\<rparr>"

lemma le_word_zeros [simp]: "le_word (replicate n 0) = 0"
  by (induction n) simp_all

lemma index_entries_zeros: "index_entries m (replicate (16 * m) 0) = replicate m zero_entry"
  by (induction m) (simp_all add: IndexEntry_of_def zero_entry_def)

lemma index_entries_padded:
  "index_entries (length ks + m) (concat (map (\<lambda>k. IndexEntry_bytes (e k)) ks) @ replicate (16 * m) 0) = map e ks @ replicate m zero_entry"
  by (induction ks) (simp_all add: index_entries_zeros)

lemma mdf_magic_read: "fh_magic (FrameHeader_of (take 16 (MdfHeader_bytes h))) = mdf_magic h"
  by (simp add: FrameHeader_of_def MdfHeader_bytes_def)

section \<open>Properties\<close>




definition example_segment :: segment where
  "example_segment = \<lparr>seg_start = 5, seg_frames = [mk_frame 0 (BTrade example_trade)], seg_index = []\<rparr>"

definition example_header :: MdfHeader where
  "example_header = mdf_header 0 9 1 1"

definition example_files :: files where
  "example_files = [''d/x.mdf'' \<mapsto> mdf_data example_header example_segment, ''d/x.idx'' \<mapsto> idx_data example_segment]"

lemma example_segment_wf: "wf_segment example_segment"
  by (simp add: example_segment_def wf_segment_def del: mk_frame.simps)

lemma valid_rate_1: "valid_rate 1"
proof -
  have "rnd (1 / 2 ^ 40) = 1 / 2 ^ 40" using rnd_exact [of 1 "-40"] by (simp add: power_int_def power_divide)
  then have "0 < rnd (1 / 10 ^ 9)" using rnd_mono [of "1 / 2 ^ 40" "1 / 10 ^ 9"] by simp
  then show ?thesis by (simp add: valid_rate_def Let_def dsub_def rnd_of_int [of 0, simplified])
qed



definition open_session :: ReplaySession where
  "open_session = new_session [''d/x.mdf'' \<mapsto> mdf_data example_header example_segment, ''d/x.idx'' \<mapsto> replicate 16 0] ''rpl_0'' 1 2 [''*''] 1 [''d/x.mdf''] [''d/x.idx'']"


end
