(* ===== verification/Config.thy ===== *)
theory Config
  imports Json
begin

text \<open>
  The configuration of \<open>src/common/config.hpp\<close> and \<open>Config::load_from_file\<close>. Reading and parsing the
  file are arguments: \<open>content\<close> is its text, \<open>None\<close> when it cannot be opened, and \<open>parse\<close> is the
  library's parser, \<open>None\<close> for a parse error. The assignments of the loader run one after another on
  the configuration, and the first conversion that throws ends the loading with what has been
  assigned so far (a conversion of a float that does not fit, which C++ leaves undefined, is treated
  like one that throws).
\<close>

section \<open>The configuration\<close>

record NetworkConfig =
  pubsub_port :: u16
  ctrl_http_port :: u16
  ws_metrics_port :: u16

record SecurityConfig =
  sec_token :: string

record StorageConfig =
  stor_dir :: string
  stor_roll_bytes :: u64
  stor_index_interval :: u32

record MetricsConfig =
  histogram_buckets_ns :: "u64 list"

record PipelineConfig =
  publisher_lanes :: u32
  recorder_fsync_ms :: u32
  normalizer_threads :: u32

record QueueConfig =
  q_high_watermark :: u32
  q_low_watermark :: u32

record FeedsConfig =
  default_symbols :: "string list"
  mock_enabled :: bool
  binance_enabled :: bool

record Config =
  network :: NetworkConfig
  security :: SecurityConfig
  storage :: StorageConfig
  cfg_metrics :: MetricsConfig
  pipeline :: PipelineConfig
  cfg_queue :: QueueConfig
  feeds :: FeedsConfig

definition default_config :: Config where
  "default_config =
     \<lparr>network = \<lparr>pubsub_port = 9100, ctrl_http_port = 8080, ws_metrics_port = 8080\<rparr>,
      security = \<lparr>sec_token = ''devtoken''\<rparr>,
      storage = \<lparr>stor_dir = ''./data'', stor_roll_bytes = 2147483648, stor_index_interval = 10000\<rparr>,
      cfg_metrics = \<lparr>histogram_buckets_ns = [100000, 500000, 1000000, 2000000, 5000000, 10000000]\<rparr>,
      pipeline = \<lparr>publisher_lanes = 8, recorder_fsync_ms = 50, normalizer_threads = 4\<rparr>,
      cfg_queue = \<lparr>q_high_watermark = 80000, q_low_watermark = 60000\<rparr>,
      feeds = \<lparr>default_symbols = [''BTCUSDT'', ''ETHUSDT'', ''SOLUSDT''], mock_enabled = True, binance_enabled = False\<rparr>\<rparr>"

section \<open>Assignments that may throw\<close>

text \<open>An assignment returns the configuration after it and whether it has thrown.\<close>

type_synonym assignment = "Config \<Rightarrow> Config \<times> bool"

fun in_sequence :: "assignment list \<Rightarrow> assignment" where
  "in_sequence [] c = (c, False)"
| "in_sequence (f # gs) c = (case f c of (c1, thrown) \<Rightarrow> if thrown then (c1, True) else in_sequence gs c1)"

definition set_field :: "(Json \<Rightarrow> 'v option) \<Rightarrow> ('v \<Rightarrow> Config \<Rightarrow> Config) \<Rightarrow> Json \<Rightarrow> string \<Rightarrow> assignment" where
  "set_field get upd j k c = (case json_find j k of
     None \<Rightarrow> (c, False)
   | Some v \<Rightarrow> (case get v of None \<Rightarrow> (c, True) | Some x \<Rightarrow> (upd x c, False)))"

definition load_section :: "Json \<Rightarrow> string \<Rightarrow> (Json \<Rightarrow> assignment list) \<Rightarrow> assignment" where
  "load_section j k asgs c = (case json_find j k of None \<Rightarrow> (c, False) | Some s \<Rightarrow> in_sequence (asgs s) c)"

text \<open>The elements a range-based \<open>for\<close> visits: a primitive value is visited itself, once.\<close>

fun json_elements :: "Json \<Rightarrow> Json list" where
  "json_elements (JArray xs) = xs"
| "json_elements (JObject m) = map snd m"
| "json_elements JNull = []"
| "json_elements j = [j]"

definition set_symbols :: "string list \<Rightarrow> Config \<Rightarrow> Config" where
  "set_symbols ss c = c\<lparr>feeds := (feeds c)\<lparr>default_symbols := ss\<rparr>\<rparr>"

fun push_symbols :: "Json list \<Rightarrow> assignment" where
  "push_symbols [] c = (c, False)"
| "push_symbols (j # js) c = (case get_string j of
     None \<Rightarrow> (c, True)
   | Some s \<Rightarrow> push_symbols js (set_symbols (default_symbols (feeds c) @ [s]) c))"

definition load_symbols :: "Json \<Rightarrow> assignment" where
  "load_symbols j c = (case json_find j ''default_symbols'' of
     None \<Rightarrow> (c, False)
   | Some v \<Rightarrow> push_symbols (json_elements v) (set_symbols [] c))"

section \<open>Sections of the file\<close>

definition network_fields :: "Json \<Rightarrow> assignment list" where
  "network_fields j =
     [set_field get_small_uint (\<lambda>x c. c\<lparr>network := (network c)\<lparr>pubsub_port := x\<rparr>\<rparr>) j ''pubsub_port'',
      set_field get_small_uint (\<lambda>x c. c\<lparr>network := (network c)\<lparr>ctrl_http_port := x\<rparr>\<rparr>) j ''ctrl_http_port'',
      set_field get_small_uint (\<lambda>x c. c\<lparr>network := (network c)\<lparr>ws_metrics_port := x\<rparr>\<rparr>) j ''ws_metrics_port'']"

definition security_fields :: "Json \<Rightarrow> assignment list" where
  "security_fields j = [set_field get_string (\<lambda>x c. c\<lparr>security := (security c)\<lparr>sec_token := x\<rparr>\<rparr>) j ''token'']"

definition storage_fields :: "Json \<Rightarrow> assignment list" where
  "storage_fields j =
     [set_field get_string (\<lambda>x c. c\<lparr>storage := (storage c)\<lparr>stor_dir := x\<rparr>\<rparr>) j ''dir'',
      set_field get_u64 (\<lambda>x c. c\<lparr>storage := (storage c)\<lparr>stor_roll_bytes := x\<rparr>\<rparr>) j ''roll_bytes'',
      set_field get_small_uint (\<lambda>x c. c\<lparr>storage := (storage c)\<lparr>stor_index_interval := x\<rparr>\<rparr>) j ''index_interval'']"

definition pipeline_fields :: "Json \<Rightarrow> assignment list" where
  "pipeline_fields j =
     [set_field get_small_uint (\<lambda>x c. c\<lparr>pipeline := (pipeline c)\<lparr>publisher_lanes := x\<rparr>\<rparr>) j ''publisher_lanes'',
      set_field get_small_uint (\<lambda>x c. c\<lparr>pipeline := (pipeline c)\<lparr>recorder_fsync_ms := x\<rparr>\<rparr>) j ''recorder_fsync_ms'',
      set_field get_small_uint (\<lambda>x c. c\<lparr>pipeline := (pipeline c)\<lparr>normalizer_threads := x\<rparr>\<rparr>) j ''normalizer_threads'']"

definition queue_fields :: "Json \<Rightarrow> assignment list" where
  "queue_fields j =
     [set_field get_small_uint (\<lambda>x c. c\<lparr>cfg_queue := (cfg_queue c)\<lparr>q_high_watermark := x\<rparr>\<rparr>) j ''high_watermark'',
      set_field get_small_uint (\<lambda>x c. c\<lparr>cfg_queue := (cfg_queue c)\<lparr>q_low_watermark := x\<rparr>\<rparr>) j ''low_watermark'']"

definition feeds_fields :: "Json \<Rightarrow> assignment list" where
  "feeds_fields j =
     [load_symbols j,
      set_field get_bool (\<lambda>x c. c\<lparr>feeds := (feeds c)\<lparr>mock_enabled := x\<rparr>\<rparr>) j ''mock_enabled'',
      set_field get_bool (\<lambda>x c. c\<lparr>feeds := (feeds c)\<lparr>binance_enabled := x\<rparr>\<rparr>) j ''binance_enabled'']"

definition load_json :: "Json \<Rightarrow> assignment" where
  "load_json j = in_sequence
     [load_section j ''network'' network_fields, load_section j ''security'' security_fields, load_section j ''storage'' storage_fields,
      load_section j ''pipeline'' pipeline_fields, load_section j ''queue'' queue_fields, load_section j ''feeds'' feeds_fields]"

definition load_from_file :: "(string \<Rightarrow> Json option) \<Rightarrow> string option \<Rightarrow> Config" where
  "load_from_file parse content = (case content of
     None \<Rightarrow> default_config
   | Some text \<Rightarrow> (case parse text of None \<Rightarrow> default_config | Some j \<Rightarrow> fst (load_json j default_config)))"

section \<open>Reference: the file for a configuration\<close>

definition json_uint :: "'a::len word \<Rightarrow> Json" where
  "json_uint w = JInt (int (unat w))"

definition config_json :: "Config \<Rightarrow> Json" where
  "config_json c = JObject
     [(''feeds'', JObject [(''binance_enabled'', JBool (binance_enabled (feeds c))), (''default_symbols'', JArray (map JString (default_symbols (feeds c)))),
        (''mock_enabled'', JBool (mock_enabled (feeds c)))]),
      (''metrics'', JObject [(''histogram_buckets_ns'', JArray (map json_uint (histogram_buckets_ns (cfg_metrics c))))]),
      (''network'', JObject [(''ctrl_http_port'', json_uint (ctrl_http_port (network c))), (''pubsub_port'', json_uint (pubsub_port (network c))),
        (''ws_metrics_port'', json_uint (ws_metrics_port (network c)))]),
      (''pipeline'', JObject [(''normalizer_threads'', json_uint (normalizer_threads (pipeline c))), (''publisher_lanes'', json_uint (publisher_lanes (pipeline c))),
        (''recorder_fsync_ms'', json_uint (recorder_fsync_ms (pipeline c)))]),
      (''queue'', JObject [(''high_watermark'', json_uint (q_high_watermark (cfg_queue c))), (''low_watermark'', json_uint (q_low_watermark (cfg_queue c)))]),
      (''security'', JObject [(''token'', JString (sec_token (security c)))]),
      (''storage'', JObject [(''dir'', JString (stor_dir (storage c))), (''index_interval'', json_uint (stor_index_interval (storage c))),
        (''roll_bytes'', json_uint (stor_roll_bytes (storage c)))])]"

section \<open>Lemmas\<close>

lemma get_json_uint [simp]: "get_small_uint (json_uint w) = Some w" "get_u64 (json_uint x) = Some x"
  by (simp_all add: json_uint_def)

lemma set_field_find [simp]:
  "json_find j k = Some v \<Longrightarrow> get v = Some x \<Longrightarrow> set_field get upd j k c = (upd x c, False)"
  by (simp add: set_field_def)

lemma push_symbols_strings: "push_symbols (map JString ss) c = (set_symbols (default_symbols (feeds c) @ ss) c, False)"
  by (induction ss arbitrary: c) (simp_all add: set_symbols_def)

lemma load_section_find: "json_find j k = Some s \<Longrightarrow> load_section j k asgs c = in_sequence (asgs s) c"
  by (simp add: load_section_def)

lemmas loaders = network_fields_def security_fields_def storage_fields_def pipeline_fields_def queue_fields_def feeds_fields_def load_symbols_def

lemma load_config_json: "load_json (config_json c) d = (c\<lparr>cfg_metrics := cfg_metrics d\<rparr>, False)"
  by (simp add: load_json_def load_section_def config_json_def loaders push_symbols_strings set_symbols_def)

section \<open>Properties\<close>

text \<open>
  Round trip. A file that describes a configuration is loaded as that configuration, whatever its
  ports, sizes, names and flags; the buckets of the histograms are the exception, they are never read.
\<close>

theorem config_roundtrip:
  assumes "parse text = Some (config_json c)"
  shows "load_from_file parse (Some text) = c\<lparr>cfg_metrics := cfg_metrics default_config\<rparr>"
  using assms by (simp add: load_from_file_def load_config_json)

theorem config_roundtrip_witness:
  "load_from_file (\<lambda>t. if t = ''text'' then Some (config_json (default_config\<lparr>security := \<lparr>sec_token = ''t''\<rparr>\<rparr>)) else None) (Some ''text'')
     = default_config\<lparr>security := \<lparr>sec_token = ''t''\<rparr>\<rparr>"
  using config_roundtrip [of "\<lambda>t. if t = ''text'' then Some (config_json (default_config\<lparr>security := \<lparr>sec_token = ''t''\<rparr>\<rparr>)) else None" "''text''"
    "default_config\<lparr>security := \<lparr>sec_token = ''t''\<rparr>\<rparr>"] by simp

text \<open>
  A token that is not a string ends the loading: the ports of the file stay, everything after the
  token has its default.
\<close>

theorem bad_token_keeps_ports:
  assumes "parse text = Some j" "json_find j ''security'' = Some s" "json_find s ''token'' = Some v" "get_string v = None"
    and "\<not> snd (load_section j ''network'' network_fields default_config)"
  shows "load_from_file parse (Some text) = fst (load_section j ''network'' network_fields default_config)"
  using assms
  by (simp add: load_from_file_def load_json_def case_prod_beta load_section_find [OF assms(2)] security_fields_def set_field_def)

end
