(* ===== verification/Mock_Feed.thy ===== *)
theory Mock_Feed
  imports Frame Backpressure
begin

text \<open>
  \<open>MockFeed\<close> of \<open>src/feed\<close>: the generator of raw events. Random draws, clock readings and the depth
  samples of the queue are inputs; doubles are those of \<open>Float64\<close>, rounding every operation. The
  output queue is the list of the events enqueued by the feed's thread.
\<close>

section \<open>Raw events\<close>

datatype RawType = RL1 | RL2 | RTrade | RUnknown  \<comment> \<open>the last for a value outside the enumeration\<close>

record RawEvent =
  ev_type :: RawType
  ev_symbol :: string
  ev_timestamp_ns :: u64
  ev_bid_price :: double
  ev_ask_price :: double
  ev_bid_size :: double
  ev_ask_size :: double
  ev_action :: BookAction
  ev_side :: Side
  ev_level :: u16
  ev_price :: double
  ev_size :: double
  ev_trade_price :: double
  ev_trade_size :: double
  ev_aggressor_side :: u8
  ev_sequence :: u64

definition raw_event :: "RawType \<Rightarrow> string \<Rightarrow> u64 \<Rightarrow> u64 \<Rightarrow> RawEvent" where
  "raw_event ty symb ts sq = \<lparr>ev_type = ty, ev_symbol = symb, ev_timestamp_ns = ts, ev_bid_price = 0, ev_ask_price = 0, ev_bid_size = 0,
     ev_ask_size = 0, ev_action = Update, ev_side = Bid, ev_level = 0, ev_price = 0, ev_size = 0, ev_trade_price = 0, ev_trade_size = 0,
     ev_aggressor_side = 255, ev_sequence = sq\<rparr>"

section \<open>State\<close>

type_synonym levels = "(double \<times> double) list"

record SymbolState =
  mid_price :: double
  spread :: double
  bid_levels :: levels
  ask_levels :: levels
  sequence :: u64

record FeedStats =
  l1_count :: u64
  l2_count :: u64
  trade_count :: u64
  total_events :: u64

record MockFeed =
  feed_symbols :: "string list"
  feed_queue :: "RawEvent list"
  feed_running :: bool
  l1_rate :: u32
  l2_rate :: u32
  trade_rate :: u32
  symbol_states :: "SymbolState list"
  feed_stats :: FeedStats
  feed_backpressure :: QueueBackpressureController
  burst_mode :: bool
  burst_start :: u64  \<comment> \<open>steady clock, nanoseconds\<close>
  last_burst_check :: "u64 option"  \<comment> \<open>the static of \<open>run_loop\<close>, \<open>None\<close> before its first pass\<close>

type_synonym feed_state = "MockFeed \<times> bp_env"

text \<open>Literals of the source are the doubles nearest to them.\<close>

definition cent :: double where "cent = rnd (1 / 100)"

definition initial_levels :: "double list \<Rightarrow> SymbolState \<Rightarrow> SymbolState" where
  "initial_levels draws st =
     (let bid_base = dsub (mid_price st) (ddiv (spread st) 2); ask_base = dadd (mid_price st) (ddiv (spread st) 2)
      in st\<lparr>bid_levels := map (\<lambda>level. (dsub bid_base (dmul (of_nat level) cent), dmul (draws ! level) 100)) [0..<10],
            ask_levels := map (\<lambda>level. (dadd ask_base (dmul (of_nat level) cent), dmul (draws ! level) 100)) [0..<10]\<rparr>)"

definition new_symbol_state :: "double list \<Rightarrow> SymbolState" where
  "new_symbol_state draws = initial_levels draws \<lparr>mid_price = 100, spread = cent, bid_levels = [], ask_levels = [], sequence = 1\<rparr>"

text \<open>\<open>draws i\<close> are the ten sizes drawn for symbol \<open>i\<close>.\<close>

definition new_feed :: "string list \<Rightarrow> u32 \<Rightarrow> u32 \<Rightarrow> (nat \<Rightarrow> double list) \<Rightarrow> bp_env \<Rightarrow> feed_state" where
  "new_feed symbs high low draws env =
     (let (c, env1) = new_controller ''feed_to_normalizer'' high low env
      in (\<lparr>feed_symbols = symbs, feed_queue = [], feed_running = False, l1_rate = 50000, l2_rate = 30000, trade_rate = 5000,
           symbol_states = map (\<lambda>i. new_symbol_state (draws i)) [0..<length symbs],
           feed_stats = \<lparr>l1_count = 0, l2_count = 0, trade_count = 0, total_events = 0\<rparr>,
           feed_backpressure = c, burst_mode = False, burst_start = 0, last_burst_check = None\<rparr>, env1))"

definition feed_start :: "MockFeed \<Rightarrow> MockFeed" where
  "feed_start m = (if feed_running m then m else m\<lparr>feed_running := True\<rparr>)"

definition feed_stop :: "MockFeed \<Rightarrow> MockFeed" where
  "feed_stop m = (if \<not> feed_running m then m else m\<lparr>feed_running := False\<rparr>)"

definition set_rates :: "u32 \<Rightarrow> u32 \<Rightarrow> u32 \<Rightarrow> MockFeed \<Rightarrow> MockFeed" where
  "set_rates l1 l2 tr m = m\<lparr>l1_rate := l1, l2_rate := l2, trade_rate := tr\<rparr>"

section \<open>Generating one event\<close>

text \<open>The inputs of one event: draws, clock, and the samples of the wait for capacity.\<close>

record draw =
  dr_walk :: double
  dr_size1 :: double
  dr_size2 :: double
  dr_level :: u16
  dr_bit :: bool  \<comment> \<open>the parity drawn for a side\<close>
  dr_action :: nat
  dr_ts :: u64
  dr_depth :: nat
  dr_rounds :: "(bool \<times> nat) list"

definition symbol_index :: "string list \<Rightarrow> string \<Rightarrow> nat" where
  "symbol_index symbs symb = length (takeWhile (\<lambda>x. x \<noteq> symb) symbs)"

definition set_first :: "double \<times> double \<Rightarrow> levels \<Rightarrow> levels" where
  "set_first x ls = (case ls of [] \<Rightarrow> [] | _ # r \<Rightarrow> x # r)"

definition l1_event :: "string \<Rightarrow> draw \<Rightarrow> SymbolState \<Rightarrow> RawEvent \<times> SymbolState" where
  "l1_event symb d st =
     (let mid = max cent (dadd (mid_price st) (dr_walk d));
          spr = max (rnd (1 / 1000)) (dadd cent (dmul \<bar>dr_walk d\<bar> 10));
          ev = (raw_event RL1 symb (dr_ts d) (sequence st))\<lparr>ev_bid_price := dsub mid (ddiv spr 2), ev_ask_price := dadd mid (ddiv spr 2),
                 ev_bid_size := dmul (dr_size1 d) 1000, ev_ask_size := dmul (dr_size2 d) 1000\<rparr>
      in (ev, st\<lparr>mid_price := mid, spread := spr, sequence := sequence st + 1,
                 bid_levels := set_first (ev_bid_price ev, ev_bid_size ev) (bid_levels st),
                 ask_levels := set_first (ev_ask_price ev, ev_ask_size ev) (ask_levels st)\<rparr>))"

definition book_action :: "nat \<Rightarrow> BookAction" where
  "book_action r = (if r < 80 then Update else if r < 95 then Insert else Delete)"

text \<open>Indexing an empty side of the book is undefined (\<open>None\<close>); the constructor fills both sides.\<close>

definition l2_event :: "string \<Rightarrow> draw \<Rightarrow> SymbolState \<Rightarrow> (RawEvent \<times> SymbolState) option" where
  "l2_event symb d st =
     (let side = (if dr_bit d then Bid else Ask);
          ls = (if side = Bid then bid_levels st else ask_levels st);
          level = (if length ls \<le> unat (dr_level d) then of_nat (length ls) - 1 else dr_level d);
          action = book_action (dr_action d);
          ev = (raw_event RL2 symb (dr_ts d) (sequence st))\<lparr>ev_side := side, ev_action := action, ev_level := level\<rparr>;
          st1 = st\<lparr>sequence := sequence st + 1\<rparr>
      in if length ls \<le> unat level then None
         else if action = Delete then Some (ev\<lparr>ev_price := fst (ls ! unat level), ev_size := 0\<rparr>, st1)
         else let off = dmul (of_nat (unat level)) cent;
                  base = (if side = Bid then dsub (dsub (mid_price st) (ddiv (spread st) 2)) off
                          else dadd (dadd (mid_price st) (ddiv (spread st) 2)) off);
                  p = dadd base (dmul (dr_walk d) (rnd (1 / 10))); sz = dmul (dr_size1 d) 500;
                  ls1 = ls[unat level := (p, sz)]
              in Some (ev\<lparr>ev_price := p, ev_size := sz\<rparr>, if side = Bid then st1\<lparr>bid_levels := ls1\<rparr> else st1\<lparr>ask_levels := ls1\<rparr>))"

definition trade_event :: "string \<Rightarrow> draw \<Rightarrow> SymbolState \<Rightarrow> RawEvent \<times> SymbolState" where
  "trade_event symb d st =
     ((raw_event RTrade symb (dr_ts d) (sequence st))\<lparr>ev_trade_price := dadd (mid_price st) (dmul (dr_walk d) (1 / 2)),
        ev_trade_size := dmul (dr_size1 d) 100, ev_aggressor_side := (if dr_bit d then 0 else 1)\<rparr>,
      st\<lparr>sequence := sequence st + 1\<rparr>)"

fun make_event :: "RawType \<Rightarrow> string \<Rightarrow> draw \<Rightarrow> SymbolState \<Rightarrow> (RawEvent \<times> SymbolState) option" where
  "make_event RL1 symb d st = Some (l1_event symb d st)"
| "make_event RL2 symb d st = l2_event symb d st"
| "make_event RTrade symb d st = Some (trade_event symb d st)"
| "make_event RUnknown symb d st = None"

fun count_event :: "RawType \<Rightarrow> FeedStats \<Rightarrow> FeedStats" where
  "count_event RL1 s = s\<lparr>l1_count := l1_count s + 1, total_events := total_events s + 1\<rparr>"
| "count_event RL2 s = s\<lparr>l2_count := l2_count s + 1, total_events := total_events s + 1\<rparr>"
| "count_event RTrade s = s\<lparr>trade_count := trade_count s + 1, total_events := total_events s + 1\<rparr>"
| "count_event RUnknown s = s"

fun type_name :: "RawType \<Rightarrow> string" where
  "type_name RL1 = ''l1''"
| "type_name RL2 = ''l2''"
| "type_name RTrade = ''trade''"
| "type_name RUnknown = ''unknown''"

text \<open>\<open>generate_l1_event\<close>, \<open>generate_l2_event\<close> and \<open>generate_trade_event\<close>.\<close>

definition generate_event :: "RawType \<Rightarrow> string \<Rightarrow> draw \<Rightarrow> feed_state \<Rightarrow> feed_state option" where
  "generate_event ty symb d = (\<lambda>(m, env).
     let i = symbol_index (feed_symbols m) symb in
     if length (symbol_states m) \<le> i then None
     else case make_event ty symb d (symbol_states m ! i) of
       None \<Rightarrow> None
     | Some (ev, st) \<Rightarrow>
         (case wait_for_capacity (dr_depth d) (dr_rounds d) (feed_backpressure m, env) of
            None \<Rightarrow> None
          | Some (_, bp, env1) \<Rightarrow>
              Some (m\<lparr>symbol_states := (symbol_states m)[i := st], feed_backpressure := bp, feed_queue := feed_queue m @ [ev],
                      feed_stats := count_event ty (feed_stats m)\<rparr>,
                    bp_count (''mock_feed_'' @ type_name ty @ ''_total'')
                      (bp_count (''feed_'' @ type_name ty @ ''_events_total'') (bp_count ''feed_events_ingested_total'' env1)))))"

section \<open>The loop\<close>

definition update_burst :: "u64 \<Rightarrow> MockFeed \<Rightarrow> MockFeed" where
  "update_burst now m =
     (let last = (case last_burst_check m of None \<Rightarrow> now | Some t \<Rightarrow> t);
          m1 = (if now - last > 15000000000 then m\<lparr>burst_mode := True, burst_start := now, last_burst_check := Some now\<rparr>
                else m\<lparr>last_burst_check := Some last\<rparr>)
      in if burst_mode m1 \<and> now - burst_start m1 > 1000000000 then m1\<lparr>burst_mode := False\<rparr> else m1)"

definition share :: "u32 \<Rightarrow> nat \<Rightarrow> nat \<Rightarrow> nat" where
  "share rate n i = unat rate div n + (if i < unat rate mod n then 1 else 0)"

text \<open>The events of one pass in the order of the three loops.\<close>

definition tick_plan :: "string list \<Rightarrow> u32 \<Rightarrow> u32 \<Rightarrow> u32 \<Rightarrow> (RawType \<times> string) list" where
  "tick_plan symbs l1 l2 tr =
     concat (map (\<lambda>i. replicate (if l1 > 0 then share l1 (length symbs) i else 0) (RL1, symbs ! i)
                    @ replicate (if l2 > 0 then share l2 (length symbs) i else 0) (RL2, symbs ! i)
                    @ replicate (if tr > 0 then share tr (length symbs) i else 0) (RTrade, symbs ! i)) [0..<length symbs])"

fun generate_all :: "(RawType \<times> string) list \<Rightarrow> draw list \<Rightarrow> feed_state \<Rightarrow> feed_state option" where
  "generate_all [] ds st = Some st"
| "generate_all ((ty, symb) # plan) [] st = None"
| "generate_all ((ty, symb) # plan) (d # ds) st = (case generate_event ty symb d st of None \<Rightarrow> None | Some st1 \<Rightarrow> generate_all plan ds st1)"

text \<open>One pass of \<open>run_loop\<close>; \<open>elapsed\<close> are the seconds since the loop began.\<close>

definition feed_tick :: "u64 \<Rightarrow> double \<Rightarrow> draw list \<Rightarrow> feed_state \<Rightarrow> feed_state option" where
  "feed_tick now elapsed ds = (\<lambda>(m, env).
     if \<not> feed_running m then Some (m, env)
     else let m1 = update_burst now m; mult = (if burst_mode m1 then 10 else 1) in
       case generate_all (tick_plan (feed_symbols m1) (l1_rate m1 * mult) (l2_rate m1 * mult) (trade_rate m1 * mult)) ds (m1, env) of
         None \<Rightarrow> None
       | Some (m2, env2) \<Rightarrow>
           Some (m2, if elapsed > 0 then bp_gauge ''ingestion_rate'' (ddiv (double_of_nat (unat (total_events (feed_stats m2)))) elapsed) env2 else env2))"

section \<open>Lemmas\<close>

lemma symbol_index_less: "symb \<in> set symbs \<Longrightarrow> symbol_index symbs symb < length symbs"
  unfolding symbol_index_def by (induction symbs) auto

lemma symbol_index_inj: "s \<in> set symbs \<Longrightarrow> t \<in> set symbs \<Longrightarrow> symbol_index symbs s = symbol_index symbs t \<Longrightarrow> s = t"
  unfolding symbol_index_def by (induction symbs) (auto split: if_splits)

lemma make_event_SomeD:
  assumes "make_event ty symb d st = Some (ev, st')"
  shows "ev_type ev = ty \<and> ev_symbol ev = symb \<and> ev_sequence ev = sequence st \<and> sequence st' = sequence st + 1"
  using assms
  by (cases ty) (auto simp: l1_event_def l2_event_def trade_event_def raw_event_def Let_def split: if_splits)

lemma generate_event_SomeD:
  assumes "generate_event ty symb d (m, env) = Some (m', env')"
  shows "\<exists>ev st. make_event ty symb d (symbol_states m ! symbol_index (feed_symbols m) symb) = Some (ev, st)
    \<and> feed_queue m' = feed_queue m @ [ev] \<and> symbol_states m' = (symbol_states m)[symbol_index (feed_symbols m) symb := st]
    \<and> feed_symbols m' = feed_symbols m \<and> feed_stats m' = count_event ty (feed_stats m)"
  using assms by (auto simp: generate_event_def Let_def split: option.splits if_splits)

text \<open>Every symbol numbers its events 1, 2, 3 and so on.\<close>

definition numbered :: "MockFeed \<Rightarrow> string \<Rightarrow> bool" where
  "numbered m s \<longleftrightarrow> (let evs = filter (\<lambda>e. ev_symbol e = s) (feed_queue m) in
     map ev_sequence evs = map (\<lambda>k. of_nat k + 1) [0..<length evs] \<and> sequence (symbol_states m ! symbol_index (feed_symbols m) s) = of_nat (length evs) + 1)"

definition feed_ok :: "MockFeed \<Rightarrow> bool" where
  "feed_ok m \<longleftrightarrow> length (symbol_states m) = length (feed_symbols m) \<and> (\<forall>s \<in> set (feed_symbols m). numbered m s)
     \<and> (\<forall>e \<in> set (feed_queue m). ev_symbol e \<in> set (feed_symbols m))"

lemma generate_event_ok:
  assumes "feed_ok m" "symb \<in> set (feed_symbols m)" "generate_event ty symb d (m, env) = Some (m', env')"
  shows "feed_ok m'"
proof -
  let ?i = "symbol_index (feed_symbols m) symb"
  obtain ev st where g: "make_event ty symb d (symbol_states m ! ?i) = Some (ev, st)" "feed_queue m' = feed_queue m @ [ev]"
    "symbol_states m' = (symbol_states m)[?i := st]" "feed_symbols m' = feed_symbols m"
    using generate_event_SomeD [OF assms(3)] by blast
  note e = make_event_SomeD [OF g(1)]
  have i: "?i < length (symbol_states m)" using assms(1,2) symbol_index_less by (simp add: feed_ok_def)
  have "numbered m' s" if s: "s \<in> set (feed_symbols m)" for s
  proof (cases "s = symb")
    case True
    then show ?thesis using assms(1,2) g(2-4) e i by (simp add: feed_ok_def numbered_def Let_def)
  next
    case False
    then have "symbol_index (feed_symbols m) s \<noteq> ?i" using symbol_index_inj [OF s assms(2)] by blast
    then show ?thesis using assms(1) s False g(2-4) e by (simp add: feed_ok_def numbered_def Let_def)
  qed
  then show ?thesis using assms(1,2) g(2-4) e by (simp add: feed_ok_def)
qed

lemma generate_all_spec:
  "generate_all plan ds (m, env) = Some (m', env') \<Longrightarrow> feed_ok m \<Longrightarrow> \<forall>(ty, symb) \<in> set plan. symb \<in> set (feed_symbols m) \<Longrightarrow>
     feed_ok m' \<and> (\<exists>evs. feed_queue m' = feed_queue m @ evs \<and> map (\<lambda>e. (ev_type e, ev_symbol e)) evs = plan)"
proof (induction plan arbitrary: ds m env)
  case (Cons p plan)
  obtain ty symb where p: "p = (ty, symb)" by fastforce
  obtain d ds' m1 env1 where 1: "generate_event ty symb d (m, env) = Some (m1, env1)" "generate_all plan ds' (m1, env1) = Some (m', env')"
    using Cons.prems(1) p by (cases ds) (auto split: option.splits)
  obtain ev st where g: "make_event ty symb d (symbol_states m ! symbol_index (feed_symbols m) symb) = Some (ev, st)"
    "feed_queue m1 = feed_queue m @ [ev]" "feed_symbols m1 = feed_symbols m" using generate_event_SomeD [OF 1(1)] by blast
  have "feed_ok m1" using generate_event_ok [OF Cons.prems(2) _ 1(1)] Cons.prems(3) p by simp
  then obtain evs where "feed_ok m'" "feed_queue m' = feed_queue m1 @ evs" "map (\<lambda>e. (ev_type e, ev_symbol e)) evs = plan"
    using Cons.IH [OF 1(2)] Cons.prems(3) g(3) by auto
  then show ?case using g(2) make_event_SomeD [OF g(1)] p by (auto intro!: exI [of _ "ev # evs"])
qed simp

lemma tick_plan_symbols: "(ty, symb) \<in> set (tick_plan symbs l1 l2 tr) \<Longrightarrow> symb \<in> set symbs"
  by (auto simp: tick_plan_def)

lemma sum_shares: "0 < n \<Longrightarrow> sum_list (map (share rate n) [0..<n]) = unat rate"
proof -
  assume n: "0 < n"
  have "sum_list (map (\<lambda>i. if i < r then 1 else 0 :: nat) [0..<k]) = min r k" for r k by (induction k) auto
  from this [of "unat rate mod n" n] have "sum_list (map (\<lambda>i. if i < unat rate mod n then 1 else 0 :: nat) [0..<n]) = unat rate mod n"
    using n by (simp add: less_imp_le min_absorb1)
  then show ?thesis using n by (simp add: share_def [abs_def] sum_list_addf sum_list_triv)
qed

lemma filter_concat_count: "length (filter P (concat xss)) = sum_list (map (\<lambda>xs. length (filter P xs)) xss)"
  by (induction xss) simp_all

lemma tick_plan_count:
  assumes "symbs \<noteq> []"
  shows "length (filter (\<lambda>p. fst p = RL1) (tick_plan symbs l1 l2 tr)) = unat l1"
    "length (filter (\<lambda>p. fst p = RL2) (tick_plan symbs l1 l2 tr)) = unat l2"
    "length (filter (\<lambda>p. fst p = RTrade) (tick_plan symbs l1 l2 tr)) = unat tr"
proof -
  have s: "sum_list (map (\<lambda>i. if r > 0 then share r (length symbs) i else 0) [0..<length symbs]) = unat r" for r :: u32
    using sum_shares [of "length symbs" r] assms by (cases "r > 0") (simp_all add: word_gt_0 sum_list_0)
  show "length (filter (\<lambda>p. fst p = RL1) (tick_plan symbs l1 l2 tr)) = unat l1"
    "length (filter (\<lambda>p. fst p = RL2) (tick_plan symbs l1 l2 tr)) = unat l2"
    "length (filter (\<lambda>p. fst p = RTrade) (tick_plan symbs l1 l2 tr)) = unat tr"
    using s [of l1] s [of l2] s [of tr] by (simp_all add: tick_plan_def filter_concat_count comp_def cong: if_cong)
qed

lemma update_burst_fields [simp]:
  "feed_symbols (update_burst now m) = feed_symbols m" "feed_queue (update_burst now m) = feed_queue m" "symbol_states (update_burst now m) = symbol_states m"
  "l1_rate (update_burst now m) = l1_rate m" "l2_rate (update_burst now m) = l2_rate m" "trade_rate (update_burst now m) = trade_rate m"
  by (simp_all add: update_burst_def Let_def)

lemma feed_ok_cong: "feed_symbols m' = feed_symbols m \<Longrightarrow> feed_queue m' = feed_queue m \<Longrightarrow> symbol_states m' = symbol_states m \<Longrightarrow> feed_ok m' = feed_ok m"
  by (simp add: feed_ok_def numbered_def)

lemma feed_tick_SomeD:
  assumes "feed_tick now elapsed ds (m, env) = Some (m', env')" "feed_running m" "feed_ok m"
  shows "feed_ok m' \<and> (\<exists>evs. feed_queue m' = feed_queue m @ evs \<and> map (\<lambda>e. (ev_type e, ev_symbol e)) evs
    = (let mult = (if burst_mode (update_burst now m) then 10 else 1) in tick_plan (feed_symbols m) (l1_rate m * mult) (l2_rate m * mult) (trade_rate m * mult)))"
proof -
  let ?m = "update_burst now m"
  let ?mult = "if burst_mode ?m then 10 else 1"
  let ?plan = "tick_plan (feed_symbols m) (l1_rate m * ?mult) (l2_rate m * ?mult) (trade_rate m * ?mult)"
  obtain env2 where g: "generate_all ?plan ds (?m, env) = Some (m', env2)"
    using assms(1,2) by (auto simp: feed_tick_def Let_def split: option.splits)
  have "feed_ok ?m" using assms(3) by (subst feed_ok_cong) simp_all
  moreover have "\<forall>(ty, symb) \<in> set ?plan. symb \<in> set (feed_symbols ?m)" by (auto dest: tick_plan_symbols)
  ultimately have "feed_ok m' \<and> (\<exists>evs. feed_queue m' = feed_queue ?m @ evs \<and> map (\<lambda>e. (ev_type e, ev_symbol e)) evs = ?plan)"
    by (rule generate_all_spec [OF g])
  then show ?thesis by (simp add: Let_def)
qed

text \<open>The calls on a feed.\<close>

datatype feed_call = FStart | FStop | FRates u32 u32 u32 | FTick u64 double "draw list"

fun feed_run :: "feed_call list \<Rightarrow> feed_state \<Rightarrow> feed_state option" where
  "feed_run [] st = Some st"
| "feed_run (FStart # cs) st = feed_run cs (apfst feed_start st)"
| "feed_run (FStop # cs) st = feed_run cs (apfst feed_stop st)"
| "feed_run (FRates a b c # cs) st = feed_run cs (apfst (set_rates a b c) st)"
| "feed_run (FTick now elapsed ds # cs) st = (case feed_tick now elapsed ds st of None \<Rightarrow> None | Some st1 \<Rightarrow> feed_run cs st1)"

lemma feed_ok_calls [simp]: "feed_ok (feed_start m) = feed_ok m" "feed_ok (feed_stop m) = feed_ok m" "feed_ok (set_rates a b c m) = feed_ok m"
  by (rule feed_ok_cong; simp add: feed_start_def feed_stop_def set_rates_def)+

lemma generate_all_symbols: "generate_all plan ds st = Some st' \<Longrightarrow> feed_symbols (fst st') = feed_symbols (fst st)"
proof (induction plan ds st rule: generate_all.induct)
  case (3 ty symb plan d ds st)
  obtain m env where "st = (m, env)" by fastforce
  then show ?case using 3 generate_event_SomeD [of ty symb d m env] by (force split: option.splits)
qed auto

lemma feed_tick_ok: "feed_ok (fst st) \<Longrightarrow> feed_tick now elapsed ds st = Some st' \<Longrightarrow> feed_ok (fst st') \<and> feed_symbols (fst st') = feed_symbols (fst st)"
proof -
  assume a: "feed_ok (fst st)" "feed_tick now elapsed ds st = Some st'"
  obtain m env m' env' where st: "st = (m, env)" "st' = (m', env')" by fastforce
  show ?thesis
  proof (cases "feed_running m")
    case True
    then have "feed_symbols m' = feed_symbols m"
      using a(2) st by (auto simp: feed_tick_def Let_def split: option.splits dest!: generate_all_symbols)
    then show ?thesis using feed_tick_SomeD [of now elapsed ds m env m' env'] True a st by simp
  qed (use a st in \<open>auto simp: feed_tick_def\<close>)
qed

lemma feed_symbols_calls [simp]:
  "feed_symbols (feed_start m) = feed_symbols m" "feed_symbols (feed_stop m) = feed_symbols m" "feed_symbols (set_rates a b c m) = feed_symbols m"
  by (simp_all add: feed_start_def feed_stop_def set_rates_def)

lemma feed_run_ok: "feed_run cs st = Some st' \<Longrightarrow> feed_ok (fst st) \<Longrightarrow> feed_ok (fst st') \<and> feed_symbols (fst st') = feed_symbols (fst st)"
proof (induction cs st rule: feed_run.induct)
  case (5 now elapsed ds cs st)
  then obtain st1 where st1: "feed_tick now elapsed ds st = Some st1" "feed_run cs st1 = Some st'" by (auto split: option.splits)
  then show ?case using feed_tick_ok [OF 5(3) st1(1)] 5(1) [OF st1] by simp
qed auto

lemma new_feed_ok: "feed_ok (fst (new_feed symbs high low draws env)) \<and> feed_symbols (fst (new_feed symbs high low draws env)) = symbs"
  using symbol_index_less [of _ symbs]
  by (auto simp: feed_ok_def numbered_def new_feed_def new_symbol_state_def initial_levels_def case_prod_beta Let_def)

section \<open>Properties\<close>

text \<open>
  Sequence numbers. Whatever calls are made on a new feed, the events it has enqueued for a symbol
  carry the sequence numbers 1, 2, 3 and so on without gap, in the order of the queue.
\<close>

theorem feed_sequences_consecutive:
  assumes "feed_run calls (new_feed symbs high low draws env) = Some (m, env')" "s \<in> set symbs"
  shows "map ev_sequence (filter (\<lambda>e. ev_symbol e = s) (feed_queue m))
    = map (\<lambda>k. of_nat k + 1) [0..<length (filter (\<lambda>e. ev_symbol e = s) (feed_queue m))]"
proof -
  have "feed_ok m" "feed_symbols m = symbs" using feed_run_ok [OF assms(1)] new_feed_ok [of symbs high low draws env] by auto
  then have "numbered m s" using assms(2) by (simp add: feed_ok_def)
  then show ?thesis by (simp add: numbered_def Let_def)
qed

text \<open>
  The rates. One pass of the loop, which is repeated every millisecond, enqueues as many events of
  each kind as the configured rate says, ten times that in a burst: the rates are events per pass.
\<close>

theorem tick_emits_whole_rate:
  assumes "feed_ok m" "feed_running m" "feed_symbols m \<noteq> []" "feed_tick now elapsed ds (m, env) = Some (m', env')"
  shows "let mult = (if burst_mode (update_burst now m) then 10 else 1); evs = drop (length (feed_queue m)) (feed_queue m')
    in feed_queue m' = feed_queue m @ evs
      \<and> length (filter (\<lambda>e. ev_type e = RL1) evs) = unat (l1_rate m * mult)
      \<and> length (filter (\<lambda>e. ev_type e = RL2) evs) = unat (l2_rate m * mult)
      \<and> length (filter (\<lambda>e. ev_type e = RTrade) evs) = unat (trade_rate m * mult)"
proof -
  let ?mult = "if burst_mode (update_burst now m) then 10 else 1"
  let ?plan = "tick_plan (feed_symbols m) (l1_rate m * ?mult) (l2_rate m * ?mult) (trade_rate m * ?mult)"
  obtain evs where evs: "feed_queue m' = feed_queue m @ evs" "map (\<lambda>e. (ev_type e, ev_symbol e)) evs = ?plan"
    using feed_tick_SomeD [OF assms(4,2,1)] by (auto simp: Let_def)
  have "length (filter (\<lambda>e. ev_type e = ty) evs) = length (filter (\<lambda>p. fst p = ty) ?plan)" for ty
    by (simp add: filter_map comp_def flip: evs(2))
  then show ?thesis using evs(1) tick_plan_count [OF assms(3)] by (simp add: Let_def)
qed

definition example_draw :: draw where
  "example_draw = \<lparr>dr_walk = 0, dr_size1 = 1, dr_size2 = 1, dr_level = 0, dr_bit = True, dr_action = 0, dr_ts = 7, dr_depth = 0, dr_rounds = []\<rparr>"

definition example_feed :: feed_state where
  "example_feed = new_feed [''BTC''] 100 50 (\<lambda>_. replicate 10 1) \<lparr>metrics = no_metrics, active_queue_count = 0\<rparr>"

lemma example_feed_run:
  "\<exists>m env. feed_run [FStart, FRates 1 0 1, FTick 0 0 [example_draw, example_draw]] example_feed = Some (m, env) \<and> length (feed_queue m) = 2"
  by (simp add: example_feed_def new_feed_def new_controller_def case_prod_beta feed_start_def set_rates_def feed_tick_def update_burst_def
      tick_plan_def share_def generate_event_def symbol_index_def wait_for_capacity_def below_high_def example_draw_def Let_def)

theorem feed_sequences_consecutive_witness:
  "\<exists>m env. feed_run [FStart, FRates 1 0 1, FTick 0 0 [example_draw, example_draw]] example_feed = Some (m, env)
     \<and> map ev_sequence (filter (\<lambda>e. ev_symbol e = ''BTC'') (feed_queue m))
       = map (\<lambda>k. of_nat k + 1) [0..<length (filter (\<lambda>e. ev_symbol e = ''BTC'') (feed_queue m))]"
proof -
  obtain m env where r: "feed_run [FStart, FRates 1 0 1, FTick 0 0 [example_draw, example_draw]] example_feed = Some (m, env)"
    using example_feed_run by blast
  show ?thesis using feed_sequences_consecutive [OF r [unfolded example_feed_def], of "''BTC''"] r by auto
qed

theorem tick_emits_whole_rate_witness:
  "\<exists>m env m' env'. feed_tick 0 0 [example_draw, example_draw] (m, env) = Some (m', env')
     \<and> length (filter (\<lambda>e. ev_type e = RL1) (drop (length (feed_queue m)) (feed_queue m'))) = 1"
proof -
  let ?m = "set_rates 1 0 1 (feed_start (fst example_feed))"
  obtain m' env' where t: "feed_tick 0 0 [example_draw, example_draw] (?m, snd example_feed) = Some (m', env')"
    using example_feed_run by (auto simp: apfst_def map_prod_def case_prod_beta split: option.splits)
  have ok: "feed_ok ?m" unfolding example_feed_def using new_feed_ok by simp
  have m: "feed_running ?m" "feed_symbols ?m \<noteq> []" "\<not> burst_mode (update_burst 0 ?m)" "l1_rate ?m = 1"
    by (simp_all add: example_feed_def new_feed_def case_prod_beta feed_start_def set_rates_def update_burst_def Let_def)
  show ?thesis using tick_emits_whole_rate [OF ok m(1,2) t] m t by (auto simp: Let_def)
qed

end
