(* ===== verification/Normalizer.thy ===== *)
theory Normalizer
  imports Mock_Feed Symbol_Registry "HOL-Library.Monad_Syntax"
begin

text \<open>
  \<open>Normalizer\<close> of \<open>src/normalize\<close>: a routing thread that distributes raw events over partitions by a
  hash of the symbol, and one worker per partition that turns them into frames. The threads are the
  events of \<open>norm_exec\<close>, which interleave freely. The hash is the argument \<open>hash\<close>. The output queue
  keeps the order of each producing thread, so it is one list of frames per worker, all that the
  worker has enqueued; its depth is an input of the waiting worker.
\<close>

section \<open>Normalising one event\<close>

definition scale_price :: "double \<Rightarrow> i64 option" where
  "scale_price p = double_to_i64 (dmul p 100000000)"

definition scale_size :: "double \<Rightarrow> u64 option" where
  "scale_size s = double_to_u64 (dmul s 100000000)"

fun side_value :: "Side \<Rightarrow> u8" where
  "side_value Bid = 0"
| "side_value Ask = 1"

fun action_value :: "BookAction \<Rightarrow> u8" where
  "action_value Insert = 0"
| "action_value Update = 1"
| "action_value Delete = 2"

text \<open>\<open>None\<close>: a price or size whose conversion to 64 bits is undefined; \<open>Inl ()\<close>: the exception for an unknown type.\<close>

definition event_body :: "u32 \<Rightarrow> RawEvent \<Rightarrow> (unit + FrameBody) option" where
  "event_body symbol_id ev = (case ev_type ev of
     RL1 \<Rightarrow> (case (scale_price (ev_bid_price ev), scale_size (ev_bid_size ev), scale_price (ev_ask_price ev), scale_size (ev_ask_size ev)) of
        (Some bp, Some bs, Some ap, Some sz) \<Rightarrow>
          Some (Inr (BL1 \<lparr>l1_ts_ns = ev_timestamp_ns ev, l1_symbol_id = symbol_id, l1_bid_px = bp, l1_bid_sz = bs, l1_ask_px = ap, l1_ask_sz = sz, l1_seq = ev_sequence ev\<rparr>))
      | _ \<Rightarrow> None)
   | RL2 \<Rightarrow> (case (scale_price (ev_price ev), scale_size (ev_size ev)) of
        (Some p, Some s) \<Rightarrow> Some (Inr (BL2 \<lparr>l2_ts_ns = ev_timestamp_ns ev, l2_symbol_id = symbol_id, l2_side = side_value (ev_side ev),
            l2_action = action_value (ev_action ev), l2_level = ev_level ev, l2_price = p, l2_size = s, l2_seq = ev_sequence ev\<rparr>))
      | _ \<Rightarrow> None)
   | RTrade \<Rightarrow> (case (scale_price (ev_trade_price ev), scale_size (ev_trade_size ev)) of
        (Some p, Some s) \<Rightarrow> Some (Inr (BTrade \<lparr>tr_ts_ns = ev_timestamp_ns ev, tr_symbol_id = symbol_id, tr_price = p, tr_size = s,
            tr_aggressor_side = ev_aggressor_side ev, tr_seq = ev_sequence ev\<rparr>))
      | _ \<Rightarrow> None)
   | RUnknown \<Rightarrow> Some (Inl ()))"

definition normalize_event :: "u32 \<Rightarrow> RawEvent \<Rightarrow> SymbolRegistry \<Rightarrow> ((unit + Frame) \<times> SymbolRegistry) option" where
  "normalize_event ind ev r = (case get_or_add r (ev_symbol ev) of
     None \<Rightarrow> None
   | Some (symbol_id, r1) \<Rightarrow> map_option (\<lambda>b. (map_sum (\<lambda>x. x) (mk_frame ind) b, r1)) (event_body symbol_id ev))"

section \<open>State\<close>

record NormStats =
  events_processed :: u64
  frames_output :: u64
  n_errors :: u64

record Normalizer =
  n_input :: "RawEvent list"
  n_output :: "Frame list list"
  n_registry :: SymbolRegistry
  worker_count :: u32
  n_routing :: bool  \<comment> \<open>the routing thread runs\<close>
  n_workers :: "bool list"  \<comment> \<open>the worker threads that run\<close>
  n_running :: bool
  partition_queues :: "RawEvent list list"
  route_batch :: "RawEvent list"
  route_size :: nat  \<comment> \<open>\<open>events_batch.size()\<close> of the routing thread\<close>
  work_batches :: "RawEvent list list"
  out_backpressure :: QueueBackpressureController
  partition_backpressure :: QueueBackpressureController
  n_stats :: NormStats

type_synonym norm_state = "Normalizer \<times> bp_env"

definition new_normalizer :: "SymbolRegistry \<Rightarrow> u32 \<Rightarrow> u32 \<Rightarrow> u32 \<Rightarrow> bp_env \<Rightarrow> norm_state" where
  "new_normalizer r num_threads high low env =
     (let n = max 1 num_threads;
          (c1, env1) = new_controller ''normalizer_to_distributor'' high low env;
          (c2, env2) = new_controller ''ordering_partitions'' high low env1
      in (\<lparr>n_input = [], n_output = replicate (unat n) [], n_registry = r, worker_count = n, n_routing = False, n_workers = replicate (unat n) False, n_running = False,
           partition_queues = replicate (unat n) [], route_batch = [], route_size = 0, work_batches = replicate (unat n) [],
           out_backpressure = c1, partition_backpressure = c2, n_stats = \<lparr>events_processed = 0, frames_output = 0, n_errors = 0\<rparr>\<rparr>,
          bp_gauge ''partition_queue_depth'' 0 (bp_gauge ''ordering_partitions'' (double_of_nat (unat n)) env2)))"

definition norm_start :: "Normalizer \<Rightarrow> Normalizer" where
  "norm_start n = (if n_running n then n else n\<lparr>n_running := True, n_workers := replicate (unat (worker_count n)) True, n_routing := True\<rparr>)"

text \<open>
  \<open>stop\<close> clears the flag and asks the threads to stop; it returns when all have been joined. A thread
  ends at the head of its loop, when the flag is cleared and its own queue is empty; until the last
  has ended the caller is inside \<open>stop\<close>, so a new \<open>start\<close> comes after it.
\<close>

definition norm_stop :: "Normalizer \<Rightarrow> Normalizer" where
  "norm_stop n = (if \<not> n_running n then n else n\<lparr>n_running := False\<rparr>)"

definition route_exit :: "Normalizer \<Rightarrow> Normalizer" where
  "route_exit n = (if \<not> n_running n \<and> n_input n = [] \<and> route_batch n = [] then n\<lparr>n_routing := False\<rparr> else n)"

definition work_exit :: "nat \<Rightarrow> Normalizer \<Rightarrow> Normalizer" where
  "work_exit i n = (if \<not> n_running n \<and> partition_queues n ! i = [] \<and> work_batches n ! i = []
     then n\<lparr>n_workers := (n_workers n)[i := False]\<rparr> else n)"

definition norm_joined :: "Normalizer \<Rightarrow> bool" where
  "norm_joined n \<longleftrightarrow> \<not> n_routing n \<and> list_all Not (n_workers n)"

section \<open>Threads\<close>

definition worker_for_symbol :: "(string \<Rightarrow> u64) \<Rightarrow> Normalizer \<Rightarrow> string \<Rightarrow> nat" where
  "worker_for_symbol hash n symb = unat (hash symb) mod unat (worker_count n)"

definition update_partition_metrics :: "Normalizer \<Rightarrow> bp_env \<Rightarrow> bp_env" where
  "update_partition_metrics n = bp_gauge ''partition_queue_depth'' (double_of_nat (fold (\<lambda>q d. max d (length q)) (partition_queues n) 0))"

definition route_dequeue :: "Normalizer \<Rightarrow> Normalizer" where
  "route_dequeue n = (if n_routing n \<and> route_batch n = []
     then n\<lparr>route_batch := take 100 (n_input n), route_size := min 100 (length (n_input n)), n_input := drop 100 (n_input n)\<rparr> else n)"

definition route_next :: "(string \<Rightarrow> u64) \<Rightarrow> (bool \<times> nat) list \<Rightarrow> norm_state \<Rightarrow> norm_state option" where
  "route_next hash rounds = (\<lambda>(n, env). case route_batch n of
     [] \<Rightarrow> Some (n, env)
   | ev # rest \<Rightarrow>
       let w = worker_for_symbol hash n (ev_symbol ev) in
       (case wait_for_capacity (length (partition_queues n ! w)) rounds (partition_backpressure n, env) of
          None \<Rightarrow> None
        | Some (_, c, env1) \<Rightarrow>
            let n1 = n\<lparr>route_batch := rest, partition_backpressure := c,
                       partition_queues := (partition_queues n)[w := partition_queues n ! w @ [ev]]\<rparr>;
                env2 = update_partition_metrics n1 env1
            in Some (n1, if rest = [] then env2\<lparr>metrics := increment_counter ''normalizer_events_total'' (of_nat (route_size n1)) (metrics env2)\<rparr> else env2)))"

definition work_dequeue :: "nat \<Rightarrow> Normalizer \<Rightarrow> Normalizer" where
  "work_dequeue i n = (if n_workers n ! i \<and> work_batches n ! i = []
     then n\<lparr>work_batches := (work_batches n)[i := take 100 (partition_queues n ! i)],
            partition_queues := (partition_queues n)[i := drop 100 (partition_queues n ! i)]\<rparr> else n)"

text \<open>The inputs of one processed event: the indeterminate checksum, queue samples, allocation and clocks.\<close>

record work_inputs =
  wi_ind :: u32
  wi_depth :: nat
  wi_rounds :: "(bool \<times> nat) list"
  wi_enqueued :: bool
  wi_start :: u64
  wi_end :: u64
  wi_elapsed :: double

definition norm_error :: "string list \<Rightarrow> norm_state \<Rightarrow> norm_state" where
  "norm_error names = (\<lambda>(n, env). (n\<lparr>n_stats := (n_stats n)\<lparr>n_errors := n_errors (n_stats n) + 1\<rparr>\<rparr>, fold bp_count names env))"

definition output_frame :: "nat \<Rightarrow> work_inputs \<Rightarrow> Frame \<Rightarrow> norm_state \<Rightarrow> norm_state option" where
  "output_frame i w frame = (\<lambda>(n, env).
     case wait_for_capacity (wi_depth w) (wi_rounds w) (out_backpressure n, env) of
       None \<Rightarrow> None
     | Some (_, c, env1) \<Rightarrow>
         let n1 = n\<lparr>out_backpressure := c\<rparr> in
         Some (if \<not> wi_enqueued w then norm_error [''normalizer_enqueue_failures_total'', ''dropped_frames''] (n1, env1)
               else (n1\<lparr>n_output := (n_output n1)[i := n_output n1 ! i @ [frame]],
                        n_stats := (n_stats n1)\<lparr>frames_output := frames_output (n_stats n1) + 1\<rparr>\<rparr>, env1)))"

definition batch_metrics :: "double \<Rightarrow> norm_state \<Rightarrow> norm_state option" where
  "batch_metrics elapsed = (\<lambda>(n, env).
     let env1 = update_partition_metrics n env;
         env2 = (if elapsed > 0 then bp_gauge ''normalization_rate'' (ddiv (double_of_nat (unat (events_processed (n_stats n)))) elapsed) env1 else env1)
     in case get_latency_percentiles (metrics env2) ''normalizer_event_latency_ns'' of
          None \<Rightarrow> None
        | Some p \<Rightarrow> Some (n, bp_gauge ''p99_latency'' (double_of_nat (unat (p99 p))) (bp_gauge ''p50_latency'' (double_of_nat (unat (p50 p))) env2)))"

definition work_next :: "nat \<Rightarrow> work_inputs \<Rightarrow> norm_state \<Rightarrow> norm_state option" where
  "work_next i w = (\<lambda>(n, env). case work_batches n ! i of
     [] \<Rightarrow> Some (n, env)
   | ev # rest \<Rightarrow> do {
       (res, r) \<leftarrow> normalize_event (wi_ind w) ev (n_registry n);
       let n1 = n\<lparr>n_registry := r, work_batches := (work_batches n)[i := rest]\<rparr>;
       (n2, env2) \<leftarrow> (case res of
           Inl _ \<Rightarrow> Some (norm_error [''normalizer_errors_total'', ''normalizer_failures_total'', ''dropped_frames''] (n1, env))
         | Inr frame \<Rightarrow> output_frame i w frame (n1, env));
       let n3 = n2\<lparr>n_stats := (n_stats n2)\<lparr>events_processed := events_processed (n_stats n2) + 1\<rparr>\<rparr>;
       m \<leftarrow> timer_destroy \<lparr>metric_name = ''normalizer_event_latency_ns'', start_ns = wi_start w, cancelled = False\<rparr> (wi_end w) (metrics env2);
       let env3 = env2\<lparr>metrics := m\<rparr>;
       (if rest = [] then batch_metrics (wi_elapsed w) (n3, env3) else Some (n3, env3))
     })"

section \<open>The normalizer as a whole\<close>

datatype norm_event =
  NInput RawEvent
| NStart
| NStop
| NRouteExit
| NWorkExit nat
| NRouteDequeue
| NRoute "(bool \<times> nat) list"
| NWorkDequeue nat
| NWork nat work_inputs

fun norm_exec :: "(string \<Rightarrow> u64) \<Rightarrow> norm_event \<Rightarrow> norm_state \<Rightarrow> norm_state option" where
  "norm_exec hash (NInput ev) (n, env) = Some (n\<lparr>n_input := n_input n @ [ev]\<rparr>, env)"
| "norm_exec hash NStart (n, env) = Some (if n_running n \<or> norm_joined n then norm_start n else n, env)"
| "norm_exec hash NStop (n, env) = Some (norm_stop n, env)"
| "norm_exec hash NRouteExit (n, env) = Some (route_exit n, env)"
| "norm_exec hash (NWorkExit i) (n, env) = Some (work_exit i n, env)"
| "norm_exec hash NRouteDequeue (n, env) = Some (route_dequeue n, env)"
| "norm_exec hash (NRoute rounds) st = route_next hash rounds st"
| "norm_exec hash (NWorkDequeue i) (n, env) = (if i < unat (worker_count n) then Some (work_dequeue i n, env) else Some (n, env))"
| "norm_exec hash (NWork i w) (n, env) = (if i < unat (worker_count n) then work_next i w (n, env) else Some (n, env))"

fun norm_run :: "(string \<Rightarrow> u64) \<Rightarrow> norm_event list \<Rightarrow> norm_state \<Rightarrow> norm_state option" where
  "norm_run hash [] st = Some st"
| "norm_run hash (e # es) st = (case norm_exec hash e st of None \<Rightarrow> None | Some st1 \<Rightarrow> norm_run hash es st1)"

section \<open>Order\<close>

text \<open>The body an event is normalised to, by the ids of a registry.\<close>

definition body_in :: "SymbolRegistry \<Rightarrow> RawEvent \<Rightarrow> (unit + FrameBody) option" where
  "body_in r e = (case symbol_to_id r (ev_symbol e) of None \<Rightarrow> None | Some i \<Rightarrow> event_body i e)"

text \<open>
  The lane of worker \<open>i\<close>: the events for it are, in the order of the input, those it has output, those
  in its batch, in its partition, and those not yet routed.
\<close>

definition lane :: "(string \<Rightarrow> u64) \<Rightarrow> RawEvent list \<Rightarrow> Normalizer \<Rightarrow> nat \<Rightarrow> RawEvent list \<Rightarrow> bool" where
  "lane hash inputs n i processed \<longleftrightarrow>
     filter (\<lambda>e. worker_for_symbol hash n (ev_symbol e) = i) inputs = processed @ work_batches n ! i @ partition_queues n ! i
       @ filter (\<lambda>e. worker_for_symbol hash n (ev_symbol e) = i) (route_batch n @ n_input n)
     \<and> map (\<lambda>f. Some (Inr (body f))) (n_output n ! i) = map (body_in (n_registry n)) processed"

definition norm_ok :: "(string \<Rightarrow> u64) \<Rightarrow> RawEvent list \<Rightarrow> Normalizer \<Rightarrow> bool" where
  "norm_ok hash inputs n \<longleftrightarrow> registry_inv (n_registry n) \<and> 0 < worker_count n
     \<and> length (work_batches n) = unat (worker_count n) \<and> length (partition_queues n) = unat (worker_count n) \<and> length (n_output n) = unat (worker_count n)
     \<and> (\<forall>e \<in> set inputs. ev_type e \<noteq> RUnknown) \<and> (\<forall>i < unat (worker_count n). \<exists>processed. lane hash inputs n i processed)"

text \<open>Runs without unknown event types and failed allocations.\<close>

fun clean :: "norm_event \<Rightarrow> bool" where
  "clean (NInput ev) = (ev_type ev \<noteq> RUnknown)"
| "clean (NWork i w) = wi_enqueued w"
| "clean _ = True"

fun inputs_of :: "norm_event list \<Rightarrow> RawEvent list" where
  "inputs_of [] = []"
| "inputs_of (NInput ev # es) = ev # inputs_of es"
| "inputs_of (_ # es) = inputs_of es"

lemma body_in_stable:
  assumes "registry_inv r" "get_or_add r symb = Some (i, r1)" "body_in r e = Some (Inr b)"
  shows "body_in r1 e = Some (Inr b)"
proof -
  obtain j where j: "symbol_to_id r (ev_symbol e) = Some j" "event_body j e = Some (Inr b)"
    using assms(3) by (auto simp: body_in_def split: option.splits)
  have "symbol_to_id r1 (ev_symbol e) = Some j"
    using add_symbol_keeps [OF assms(1)] assms(2) j(1) by (simp add: get_or_add_eq)
  then show ?thesis using j(2) by (simp add: body_in_def)
qed

lemma event_body_known: "event_body i e = Some b \<Longrightarrow> ev_type e \<noteq> RUnknown \<Longrightarrow> \<exists>x. b = Inr x"
  by (auto simp: event_body_def split: RawType.splits option.splits)

lemma normalize_known:
  assumes "normalize_event ind ev r = Some (res, r1)" "ev_type ev \<noteq> RUnknown" "registry_inv r"
  shows "\<exists>b i. res = Inr (mk_frame ind b) \<and> get_or_add r (ev_symbol ev) = Some (i, r1) \<and> body_in r1 ev = Some (Inr b) \<and> registry_inv r1"
proof -
  obtain i where g: "get_or_add r (ev_symbol ev) = Some (i, r1)" and b: "map_option (map_sum (\<lambda>x. x) (mk_frame ind)) (event_body i ev) = Some res"
    using assms(1) by (auto simp: normalize_event_def split: option.splits)
  then obtain b where "event_body i ev = Some (Inr b)" "res = Inr (mk_frame ind b)"
    using event_body_known [of i ev] assms(2) by (auto simp: map_option_case split: option.splits)
  then show ?thesis
    using g add_symbol_lookup [OF assms(3)] add_symbol_inv [OF assms(3)] by (auto simp: get_or_add_eq body_in_def)
qed

lemma work_next_SomeD:
  assumes "work_next i w (n, env) = Some (n', env')" "work_batches n ! i = ev # rest" "ev_type ev \<noteq> RUnknown" "wi_enqueued w" "registry_inv (n_registry n)"
  shows "\<exists>b j r1. get_or_add (n_registry n) (ev_symbol ev) = Some (j, r1) \<and> body_in r1 ev = Some (Inr b) \<and> registry_inv r1 \<and> n_registry n' = r1
    \<and> work_batches n' = (work_batches n)[i := rest] \<and> n_output n' = (n_output n)[i := n_output n ! i @ [mk_frame (wi_ind w) b]]
    \<and> worker_count n' = worker_count n \<and> partition_queues n' = partition_queues n \<and> route_batch n' = route_batch n \<and> n_input n' = n_input n"
proof -
  obtain res r1 where nr: "normalize_event (wi_ind w) ev (n_registry n) = Some (res, r1)" using assms(1,2) by (auto simp: work_next_def bind_eq_Some_conv)
  from normalize_known [OF nr assms(3,5)] obtain b j where b: "res = Inr (mk_frame (wi_ind w) b)" "get_or_add (n_registry n) (ev_symbol ev) = Some (j, r1)"
    "body_in r1 ev = Some (Inr b)" "registry_inv r1" by blast
  then show ?thesis
    using assms(1,2,4) nr
    by (auto simp: work_next_def output_frame_def batch_metrics_def Let_def bind_eq_Some_conv split: option.splits if_splits)
qed

lemma norm_ok_lane: "norm_ok hash inputs n \<Longrightarrow> i < unat (worker_count n) \<Longrightarrow> \<exists>processed. lane hash inputs n i processed"
  by (simp add: norm_ok_def)

lemma norm_ok_lanes:
  assumes "norm_ok hash inputs n" "registry_inv (n_registry n')" "worker_count n' = worker_count n" "length (work_batches n') = length (work_batches n)"
    "length (partition_queues n') = length (partition_queues n)" "length (n_output n') = length (n_output n)"
    "\<And>i processed. lane hash inputs n i processed \<Longrightarrow> \<exists>q. lane hash inputs n' i q"
  shows "norm_ok hash inputs n'"
proof -
  have "\<exists>q. lane hash inputs n' i q" if "i < unat (worker_count n)" for i
    using norm_ok_lane [OF assms(1) that] assms(7) by blast
  then show ?thesis using assms(1-6) unfolding norm_ok_def by simp
qed

text \<open>Operations that keep the queues as they are.\<close>

lemma norm_ok_cong:
  assumes "norm_ok hash inputs n" "n_input n' = n_input n" "n_output n' = n_output n" "n_registry n' = n_registry n" "worker_count n' = worker_count n"
    "partition_queues n' = partition_queues n" "route_batch n' = route_batch n" "work_batches n' = work_batches n"
  shows "norm_ok hash inputs n'"
  using assms by (simp add: norm_ok_def lane_def worker_for_symbol_def)

lemma norm_ok_input:
  assumes "norm_ok hash inputs n" "ev_type ev \<noteq> RUnknown"
  shows "norm_ok hash (inputs @ [ev]) (n\<lparr>n_input := n_input n @ [ev]\<rparr>)"
  using assms by (fastforce simp: norm_ok_def lane_def worker_for_symbol_def)

lemma norm_ok_route_dequeue: "norm_ok hash inputs n \<Longrightarrow> norm_ok hash inputs (route_dequeue n)"
  unfolding norm_ok_def lane_def worker_for_symbol_def route_dequeue_def
  by (auto simp flip: filter_append)

lemma route_next_SomeD:
  assumes "route_next hash rounds (n, env) = Some (n', env')" "route_batch n = ev # rest"
  shows "route_batch n' = rest \<and> partition_queues n' = (partition_queues n)[worker_for_symbol hash n (ev_symbol ev)
        := partition_queues n ! worker_for_symbol hash n (ev_symbol ev) @ [ev]]
    \<and> n_input n' = n_input n \<and> n_output n' = n_output n \<and> n_registry n' = n_registry n \<and> worker_count n' = worker_count n \<and> work_batches n' = work_batches n"
  using assms by (auto simp: route_next_def Let_def split: option.splits)

lemma worker_less: "0 < worker_count n \<Longrightarrow> worker_for_symbol hash n s < unat (worker_count n)"
  by (simp add: worker_for_symbol_def unat_gt_0 word_gt_0)

lemma norm_ok_route:
  assumes "norm_ok hash inputs n" "route_next hash rounds (n, env) = Some (n', env')"
  shows "norm_ok hash inputs n'"
proof (cases "route_batch n")
  case Nil
  then show ?thesis using assms by (auto simp: route_next_def)
next
  case (Cons ev rest)
  note r = route_next_SomeD [OF assms(2) Cons]
  let ?w = "worker_for_symbol hash n (ev_symbol ev)"
  have w: "?w < length (partition_queues n)" using worker_less assms(1) by (simp add: norm_ok_def)
  have wf: "worker_for_symbol hash n' = worker_for_symbol hash n" using r by (simp add: worker_for_symbol_def fun_eq_iff)
  have "lane hash inputs n' i processed" if "lane hash inputs n i processed" for i processed
    using that r w Cons by (cases "i = ?w") (auto simp: lane_def wf)
  then show ?thesis using assms(1) r by (intro norm_ok_lanes [OF assms(1)]) (auto simp: norm_ok_def)
qed

lemma norm_ok_work_dequeue:
  assumes "norm_ok hash inputs n" "i < unat (worker_count n)"
  shows "norm_ok hash inputs (work_dequeue i n)"
proof (cases "n_workers n ! i \<and> work_batches n ! i = []")
  case True
  have L: "lane hash inputs (work_dequeue i n) j processed" if "lane hash inputs n j processed" for j processed
    using that True assms by (cases "j = i") (auto simp: lane_def work_dequeue_def worker_for_symbol_def norm_ok_def)
  show ?thesis
  proof (rule norm_ok_lanes [OF assms(1)])
    show "\<exists>q. lane hash inputs (work_dequeue i n) j q" if "lane hash inputs n j processed" for j processed using L [OF that] by blast
  qed (use assms in \<open>simp_all add: norm_ok_def work_dequeue_def\<close>)
next
  case False
  then show ?thesis using assms(1) by (auto simp: work_dequeue_def)
qed

lemma lane_known:
  assumes "norm_ok hash inputs n" "i < unat (worker_count n)" "work_batches n ! i = ev # rest"
  shows "ev_type ev \<noteq> RUnknown"
proof -
  obtain processed where "lane hash inputs n i processed" using norm_ok_lane [OF assms(1,2)] by blast
  then have "ev \<in> set (filter (\<lambda>e. worker_for_symbol hash n (ev_symbol e) = i) inputs)" using assms(3) by (simp add: lane_def)
  then show ?thesis using assms(1) by (simp add: norm_ok_def)
qed

lemma lane_registry:
  assumes "map (\<lambda>f. Some (Inr (body f))) fr = map (body_in r) processed" "registry_inv r" "get_or_add r symb = Some (j, r1)"
  shows "map (\<lambda>f. Some (Inr (body f))) fr = map (body_in r1) processed"
  using assms(1)
proof (induction processed arbitrary: fr)
  case (Cons e processed)
  then show ?case using body_in_stable [OF assms(2,3)] by (cases fr) (auto dest: sym)
qed simp

lemma norm_ok_work:
  assumes "norm_ok hash inputs n" "i < unat (worker_count n)" "work_next i w (n, env) = Some (n', env')" "wi_enqueued w"
  shows "norm_ok hash inputs n'"
proof (cases "work_batches n ! i")
  case Nil
  then show ?thesis using assms by (simp add: work_next_def)
next
  case (Cons ev rest)
  have inv: "registry_inv (n_registry n)" using assms(1) by (simp add: norm_ok_def)
  obtain b j where g: "get_or_add (n_registry n) (ev_symbol ev) = Some (j, n_registry n')" "body_in (n_registry n') ev = Some (Inr b)" "registry_inv (n_registry n')"
    and n': "work_batches n' = (work_batches n)[i := rest]" "n_output n' = (n_output n)[i := n_output n ! i @ [mk_frame (wi_ind w) b]]"
      "worker_count n' = worker_count n" "partition_queues n' = partition_queues n" "route_batch n' = route_batch n" "n_input n' = n_input n"
    using work_next_SomeD [OF assms(3) Cons lane_known [OF assms(1,2) Cons] assms(4) inv] by blast
  have wf: "worker_for_symbol hash n' = worker_for_symbol hash n" using n'(3) by (simp add: worker_for_symbol_def fun_eq_iff)
  have l: "i < length (work_batches n)" "i < length (n_output n)" using assms(1,2) by (simp_all add: norm_ok_def)
  have "\<exists>q. lane hash inputs n' k q" if k: "lane hash inputs n k processed" for k processed
  proof -
    have out: "map (\<lambda>f. Some (Inr (body f))) (n_output n ! k) = map (body_in (n_registry n')) processed"
      using k by (intro lane_registry [OF _ inv g(1)]) (simp add: lane_def)
    show ?thesis
    proof (cases "k = i")
      case True
      then have "lane hash inputs n' k (processed @ [ev])" using k n' l Cons out g(2) by (simp add: lane_def wf)
      then show ?thesis ..
    next
      case False
      then have "lane hash inputs n' k processed" using k n' out by (simp add: lane_def wf)
      then show ?thesis ..
    qed
  qed
  then show ?thesis using n' g(3) by (intro norm_ok_lanes [OF assms(1)]) simp_all
qed

lemma norm_exec_ok:
  assumes "norm_ok hash inputs (fst st)" "clean e" "norm_exec hash e st = Some st'"
  shows "norm_ok hash (inputs @ inputs_of [e]) (fst st')"
proof -
  obtain n env n' env' where st: "st = (n, env)" "st' = (n', env')" by fastforce
  have ok: "norm_ok hash inputs n" using assms(1) st by simp
  show ?thesis
  proof (cases e)
    case (NInput ev)
    then show ?thesis using assms(2,3) st norm_ok_input [OF ok] by auto
  next
    case NStart
    then show ?thesis using assms(3) st by (auto simp: norm_start_def intro: norm_ok_cong [OF ok])
  next
    case NStop
    then show ?thesis using assms(3) st by (auto simp: norm_stop_def intro: norm_ok_cong [OF ok])
  next
    case NRouteExit
    then show ?thesis using assms(3) st by (auto simp: route_exit_def intro: norm_ok_cong [OF ok])
  next
    case (NWorkExit i)
    then show ?thesis using assms(3) st by (auto simp: work_exit_def intro: norm_ok_cong [OF ok])
  next
    case NRouteDequeue
    then show ?thesis using assms(3) st norm_ok_route_dequeue [OF ok] by auto
  next
    case (NRoute rounds)
    then show ?thesis using assms(3) st norm_ok_route [OF ok] by auto
  next
    case (NWorkDequeue i)
    then show ?thesis using assms(3) st ok norm_ok_work_dequeue [OF ok] by (auto split: if_splits)
  next
    case (NWork i w)
    then show ?thesis using assms(2,3) st ok norm_ok_work [OF ok] by (auto split: if_splits)
  qed
qed

lemma inputs_of_Cons: "inputs_of (e # es) = inputs_of [e] @ inputs_of es"
  by (cases e) simp_all

lemma norm_run_ok:
  "norm_run hash es st = Some st' \<Longrightarrow> norm_ok hash inputs (fst st) \<Longrightarrow> list_all clean es \<Longrightarrow> norm_ok hash (inputs @ inputs_of es) (fst st')"
proof (induction es arbitrary: st inputs)
  case (Cons e es)
  then obtain st1 where 1: "norm_exec hash e st = Some st1" "norm_run hash es st1 = Some st'" by (auto split: option.splits)
  have "norm_ok hash (inputs @ inputs_of [e]) (fst st1)" using norm_exec_ok [OF Cons.prems(2) _ 1(1)] Cons.prems(3) by simp
  then have "norm_ok hash ((inputs @ inputs_of [e]) @ inputs_of es) (fst st')" using Cons.prems(3) by (intro Cons.IH [OF 1(2)]) simp_all
  then show ?case by (subst inputs_of_Cons) simp
qed simp

lemma norm_exec_count: "norm_exec hash e st = Some st' \<Longrightarrow> worker_count (fst st') = worker_count (fst st)"
proof -
  assume a: "norm_exec hash e st = Some st'"
  obtain n env n' env' where st: "st = (n, env)" "st' = (n', env')" by fastforce
  show ?thesis using a st
    by (cases e) (auto simp: norm_start_def norm_stop_def route_exit_def work_exit_def route_dequeue_def work_dequeue_def route_next_def work_next_def
        output_frame_def norm_error_def batch_metrics_def Let_def bind_eq_Some_conv split: if_splits list.splits option.splits sum.splits)
qed

lemma norm_run_count: "norm_run hash es st = Some st' \<Longrightarrow> worker_count (fst st') = worker_count (fst st)"
  by (induction es arbitrary: st) (auto split: option.splits dest: norm_exec_count)

lemma new_normalizer_ok: "registry_inv r \<Longrightarrow> norm_ok hash [] (fst (new_normalizer r threads high low env))"
  by (auto simp: norm_ok_def lane_def new_normalizer_def case_prod_beta Let_def max_def word_gt_0 unat_gt_0)

section \<open>Frames\<close>

definition outputs_wf :: "Normalizer \<Rightarrow> bool" where
  "outputs_wf n \<longleftrightarrow> list_all (list_all wf_frame) (n_output n)"

lemma normalize_event_wf: "normalize_event ind ev r = Some (Inr frame, r1) \<Longrightarrow> wf_frame frame"
  by (auto simp: normalize_event_def map_sum_def split: option.splits sum.splits)

lemma list_all_list_update: "list_all P xs \<Longrightarrow> P x \<Longrightarrow> list_all P (xs[i := x])"
  by (auto simp: list_all_iff dest: set_update_subset_insert [THEN subsetD])

lemma list_all_extend: "list_all (list_all P) xss \<Longrightarrow> P x \<Longrightarrow> i < length xss \<Longrightarrow> list_all (list_all P) (xss[i := xss ! i @ [x]])"
  by (intro list_all_list_update) (auto simp: list_all_iff)

lemma output_frame_wf:
  assumes "output_frame i w frame (n, env) = Some (n', env')" "outputs_wf n" "wf_frame frame" "i < length (n_output n)"
  shows "outputs_wf n' \<and> length (n_output n') = length (n_output n)"
  using assms list_all_extend [of wf_frame "n_output n" frame i]
  by (auto simp: output_frame_def outputs_wf_def norm_error_def Let_def split: option.splits if_splits)

lemma work_next_wf:
  assumes "work_next i w (n, env) = Some (n', env')" "outputs_wf n" "i < length (n_output n)"
  shows "outputs_wf n' \<and> length (n_output n') = length (n_output n)"
proof (cases "work_batches n ! i")
  case Nil
  then show ?thesis using assms by (simp add: work_next_def)
next
  case (Cons ev rest)
  let ?n1 = "\<lambda>r. n\<lparr>n_registry := r, work_batches := (work_batches n)[i := rest]\<rparr>"
  obtain res r1 n2 env2 where nr: "normalize_event (wi_ind w) ev (n_registry n) = Some (res, r1)"
    and n2: "(case res of Inl _ \<Rightarrow> Some (norm_error [''normalizer_errors_total'', ''normalizer_failures_total'', ''dropped_frames''] (?n1 r1, env))
       | Inr frame \<Rightarrow> output_frame i w frame (?n1 r1, env)) = Some (n2, env2)" and n': "n_output n' = n_output n2"
    using assms(1) Cons by (auto simp: work_next_def batch_metrics_def Let_def bind_eq_Some_conv split: option.splits if_splits)
  have n1: "outputs_wf (?n1 r1)" using assms(2) by (simp add: outputs_wf_def)
  have "outputs_wf n2 \<and> length (n_output n2) = length (n_output n)"
  proof (cases res)
    case Inl
    then show ?thesis using n2 assms(2) by (auto simp: norm_error_def outputs_wf_def)
  next
    case (Inr frame)
    then show ?thesis using output_frame_wf [of i w frame "?n1 r1" env n2 env2] n2 n1 normalize_event_wf nr assms(3) by simp
  qed
  then show ?thesis using n' by (simp add: outputs_wf_def)
qed

definition norm_typed :: "Normalizer \<Rightarrow> bool" where
  "norm_typed n \<longleftrightarrow> outputs_wf n \<and> length (n_output n) = unat (worker_count n)"

lemma norm_exec_typed:
  assumes "norm_exec hash e st = Some st'" "norm_typed (fst st)"
  shows "norm_typed (fst st')"
proof -
  obtain n env n' env' where st: "st = (n, env)" "st' = (n', env')" by fastforce
  have c: "worker_count n' = worker_count n" using norm_exec_count [OF assms(1)] st by simp
  show ?thesis
  proof (cases "\<exists>i w. e = NWork i w")
    case True
    then show ?thesis using assms st c work_next_wf by (fastforce simp: norm_typed_def split: if_splits)
  next
    case False
    then have "n_output n' = n_output n" using assms(1) st
      by (cases e) (auto simp: norm_start_def norm_stop_def route_exit_def work_exit_def route_dequeue_def work_dequeue_def route_next_def Let_def
          split: if_splits list.splits option.splits)
    then show ?thesis using assms(2) c st by (simp add: norm_typed_def outputs_wf_def)
  qed
qed

lemma norm_run_typed: "norm_run hash es st = Some st' \<Longrightarrow> norm_typed (fst st) \<Longrightarrow> norm_typed (fst st')"
  by (induction es arbitrary: st) (auto split: option.splits dest: norm_exec_typed)

lemma new_normalizer_typed: "norm_typed (fst (new_normalizer r threads high low env))"
  by (simp add: norm_typed_def outputs_wf_def new_normalizer_def case_prod_beta Let_def list_all_iff)

section \<open>Properties\<close>

text \<open>
  C7: order. In every interleaving of the routing thread and the workers, from a new normalizer and
  without unknown event types and failed allocations, worker \<open>i\<close> has output exactly the frames of a
  prefix of the input events whose symbol is its own, in the order of the input, each with the id the
  registry has for the symbol.
\<close>

theorem normalizer_keeps_order:
  assumes "norm_run hash es (new_normalizer r threads high low env) = Some (n, env')" "registry_inv r" "list_all clean es" "i < unat (max 1 threads)"
  shows "\<exists>processed pending. filter (\<lambda>e. unat (hash (ev_symbol e)) mod unat (max 1 threads) = i) (inputs_of es) = processed @ pending
    \<and> map (\<lambda>f. Some (Inr (body f))) (n_output n ! i) = map (body_in (n_registry n)) processed"
proof -
  have c: "worker_count n = max 1 threads" using norm_run_count [OF assms(1)] by (simp add: new_normalizer_def case_prod_beta Let_def)
  have "norm_ok hash (inputs_of es) n" using norm_run_ok [OF assms(1) new_normalizer_ok [OF assms(2)] assms(3)] by simp
  then obtain processed where "lane hash (inputs_of es) n i processed" using norm_ok_lane assms(4) c by metis
  then show ?thesis unfolding lane_def worker_for_symbol_def c by blast
qed

text \<open>
  Typing of the output. Every frame a normalizer outputs, in every run, is well formed: it has
  the magic number, the version and the length of its kind of body, so that \<open>encode_frame\<close> writes it
  and \<open>decode_frame\<close> reads the same body back.
\<close>

theorem normalizer_outputs_frames:
  assumes "norm_run hash es (new_normalizer r threads high low env) = Some (n, env')" "i < length (n_output n)" "f \<in> set (n_output n ! i)"
  shows "wf_frame f \<and> (\<exists>bytes g. encode_frame f buffer = Some bytes \<and> decode_frame bytes = Some g \<and> body g = body f)"
proof -
  have "outputs_wf n" using norm_run_typed [OF assms(1) new_normalizer_typed] by (simp add: norm_typed_def)
  then have wf: "wf_frame f" using assms(2,3) by (simp add: outputs_wf_def list_all_length in_set_conv_nth) (metis list_all_length)
  then show ?thesis using encode_frame_wf [OF wf] decode_frame_bytes [OF wf, of "[]"] by (simp add: sealed_def)
qed

section \<open>Examples\<close>

definition example_event :: RawEvent where
  "example_event = (raw_event RTrade ''BTC'' 5 1)\<lparr>ev_trade_price := 2, ev_trade_size := 1\<rparr>"

definition example_inputs :: work_inputs where
  "example_inputs = \<lparr>wi_ind = 0, wi_depth = 0, wi_rounds = [], wi_enqueued = True, wi_start = 0, wi_end = 1, wi_elapsed = 0\<rparr>"

definition example_body :: FrameBody where
  "example_body = BTrade \<lparr>tr_ts_ns = 5, tr_symbol_id = 1, tr_price = 200000000, tr_size = 100000000, tr_aggressor_side = 255, tr_seq = 1\<rparr>"

lemma example_body_eq: "event_body 1 example_event = Some (Inr example_body)"
  using rnd_of_int [of 200000000] rnd_of_int [of 100000000]
  by (simp add: event_body_def example_event_def raw_event_def example_body_def scale_price_def scale_size_def dmul_def double_to_i64_def double_to_u64_def trunc_def)

definition example_norm :: norm_state where
  "example_norm = new_normalizer new_registry 1 100 50 \<lparr>metrics = no_metrics, active_queue_count = 0\<rparr>"

definition example_schedule :: "norm_event list" where
  "example_schedule = [NStart, NInput example_event, NInput example_event, NRouteDequeue, NRoute [], NRoute [], NWorkDequeue 0, NWork 0 example_inputs]"

definition example_registry :: SymbolRegistry where
  "example_registry = \<lparr>symbol_to_id = [''BTC'' \<mapsto> 1], symbols = [[], ''BTC''], next_id = 2\<rparr>"

lemma example_normalize: "normalize_event 0 example_event new_registry = Some (Inr (mk_frame 0 example_body), example_registry)"
proof -
  have "add_symbol new_registry (ev_symbol example_event) = Some (1, example_registry)"
    by (simp add: add_symbol_def new_registry_def example_event_def raw_event_def example_registry_def)
  then show ?thesis by (simp add: normalize_event_def get_or_add_eq example_body_eq)
qed

lemma timer_destroy_eq:
  assumes "metrics_ok m" "\<not> cancelled t"
  shows "timer_destroy t now m = Some (m\<lparr>histograms := (histograms m)(metric_name t \<mapsto>
    the (hist_record (case histograms m (metric_name t) of None \<Rightarrow> new_histogram default_buckets | Some h \<Rightarrow> h) (now - start_ns t)))\<rparr>)"
  using record_latency_returns [OF assms(1), of "metric_name t" "now - start_ns t"] assms(2)
  by (auto simp: timer_destroy_def record_latency_def Let_def)

lemma example_norm_run:
  "\<exists>n env. norm_run (\<lambda>_. 0) example_schedule example_norm = Some (n, env) \<and> n_output n = [[mk_frame 0 example_body]]"
  by (simp add: example_schedule_def example_norm_def new_normalizer_def new_controller_def case_prod_beta norm_start_def norm_joined_def
     route_dequeue_def route_next_def work_dequeue_def work_next_def worker_for_symbol_def wait_for_capacity_def below_high_def
     example_inputs_def example_normalize output_frame_def bp_gauge_def update_partition_metrics_def timer_destroy_eq metrics_ok_none Let_def)

lemma example_clean: "list_all clean example_schedule" "inputs_of example_schedule = [example_event, example_event]"
  by (simp_all add: example_schedule_def example_inputs_def example_event_def raw_event_def)

theorem normalizer_keeps_order_witness:
  "\<exists>n env. norm_run (\<lambda>_. 0) example_schedule example_norm = Some (n, env) \<and> n_output n = [[mk_frame 0 example_body]]
     \<and> (\<exists>processed pending. [example_event, example_event] = processed @ pending
       \<and> map (\<lambda>f. Some (Inr (body f))) (n_output n ! 0) = map (body_in (n_registry n)) processed)"
proof -
  obtain n env where r: "norm_run (\<lambda>_. 0) example_schedule example_norm = Some (n, env)" "n_output n = [[mk_frame 0 example_body]]"
    using example_norm_run by blast
  have "\<exists>processed pending. [example_event, example_event] = processed @ pending
       \<and> map (\<lambda>f. Some (Inr (body f))) (n_output n ! 0) = map (body_in (n_registry n)) processed"
    using normalizer_keeps_order [OF r(1) [unfolded example_norm_def] registry_inv_new example_clean(1), of 0] by (simp add: example_clean(2))
  then show ?thesis using r by blast
qed

theorem normalizer_outputs_frames_witness:
  "\<exists>n env. norm_run (\<lambda>_. 0) example_schedule example_norm = Some (n, env) \<and> mk_frame 0 example_body \<in> set (n_output n ! 0)
     \<and> (\<exists>bytes g. encode_frame (mk_frame 0 example_body) [] = Some bytes \<and> decode_frame bytes = Some g \<and> body g = example_body)"
proof -
  obtain n env where r: "norm_run (\<lambda>_. 0) example_schedule example_norm = Some (n, env)" "n_output n = [[mk_frame 0 example_body]]"
    using example_norm_run by blast
  then show ?thesis using normalizer_outputs_frames [OF r(1) [unfolded example_norm_def], of 0 "mk_frame 0 example_body" "[]"] by simp
qed

text \<open>
  A worker may end as soon as the flag is cleared and its partition is empty, while the routing thread
  still routes: after \<open>stop\<close> has joined all threads, an event is left in the partition.
\<close>

theorem stop_strands_event:
  "\<exists>n env. norm_run (\<lambda>_. 0) [NStart, NInput example_event, NStop, NWorkExit 0, NRouteDequeue, NRoute [], NRouteExit] example_norm = Some (n, env)
     \<and> norm_joined n \<and> \<not> n_running n \<and> n_output n = [[]] \<and> partition_queues n = [[example_event]]"
  by (simp add: example_norm_def new_normalizer_def new_controller_def case_prod_beta norm_start_def norm_stop_def norm_joined_def work_exit_def
     route_exit_def route_dequeue_def route_next_def worker_for_symbol_def wait_for_capacity_def below_high_def Let_def)

end
