(* ===== verification/Metrics_Export.thy ===== *)
theory Metrics_Export
  imports Metrics Json
begin

text \<open>
  The renderings of the metrics: the text that \<open>/metrics\<close> serves, the JSON document of
  \<open>get_json_metrics\<close> and the payload that is broadcast to WebSocket clients. The hash maps are
  iterated in an order that is an argument, as is the format of floating-point numbers. \<open>None\<close>
  is the undefined conversion in \<open>get_percentiles\<close>.
\<close>

record visit_order =
  counter_names :: "string list"
  gauge_names :: "string list"
  histogram_names :: "string list"

text \<open>Each map is visited completely and without repetition.\<close>

definition visits :: "visit_order \<Rightarrow> MetricsCollector \<Rightarrow> bool" where
  "visits order m \<longleftrightarrow>
     distinct (counter_names order) \<and> set (counter_names order) = dom (counters m) \<and>
     distinct (gauge_names order) \<and> set (gauge_names order) = dom (gauges m) \<and>
     distinct (histogram_names order) \<and> set (histogram_names order) = dom (histograms m)"

abbreviation newline :: string where
  "newline \<equiv> [CHR 0x0A]"

section \<open>Prometheus text\<close>

definition type_line :: "string \<Rightarrow> string \<Rightarrow> string" where
  "type_line name kind = ''# TYPE '' @ name @ '' '' @ kind @ newline"

definition sample_line :: "string \<Rightarrow> string \<Rightarrow> string" where
  "sample_line name v = name @ '' '' @ v @ newline"

definition counter_text :: "MetricsCollector \<Rightarrow> string \<Rightarrow> string" where
  "counter_text m name = type_line name ''counter'' @ sample_line name (to_string (unat (get_counter m name)))"

definition gauge_text :: "(double \<Rightarrow> string) \<Rightarrow> MetricsCollector \<Rightarrow> string \<Rightarrow> string" where
  "gauge_text show_double m name = type_line name ''gauge'' @ sample_line name (show_double (get_gauge m name))"

definition percentile_text :: "string \<Rightarrow> Percentiles \<Rightarrow> string" where
  "percentile_text name p = type_line name ''histogram''
     @ sample_line (name @ ''_p50'') (to_string (unat (p50 p))) @ sample_line (name @ ''_p95'') (to_string (unat (p95 p)))
     @ sample_line (name @ ''_p99'') (to_string (unat (p99 p))) @ sample_line (name @ ''_p999'') (to_string (unat (p999 p)))
     @ sample_line (name @ ''_max'') (to_string (unat (pmax p))) @ sample_line (name @ ''_count'') (to_string (unat (pcount p)))"

definition histogram_texts :: "MetricsCollector \<Rightarrow> string list \<Rightarrow> string list option" where
  "histogram_texts m names = option_list (map (\<lambda>n. map_option (percentile_text n) (get_latency_percentiles m n)) names)"

definition get_prometheus_metrics :: "(double \<Rightarrow> string) \<Rightarrow> visit_order \<Rightarrow> MetricsCollector \<Rightarrow> string option" where
  "get_prometheus_metrics show_double order m = map_option
     (\<lambda>hs. concat (map (counter_text m) (counter_names order)) @ concat (map (gauge_text show_double m) (gauge_names order)) @ concat hs)
     (histogram_texts m (histogram_names order))"

section \<open>JSON\<close>

abbreviation json_u64 :: "u64 \<Rightarrow> Json" where
  "json_u64 w \<equiv> JInt (int (unat w))"

definition percentile_json :: "Percentiles \<Rightarrow> Json" where
  "percentile_json p = JObject [(''p50'', json_u64 (p50 p)), (''p95'', json_u64 (p95 p)), (''p99'', json_u64 (p99 p)),
     (''p999'', json_u64 (p999 p)), (''max'', json_u64 (pmax p)), (''count'', json_u64 (pcount p))]"

text \<open>A JSON value that is never assigned a member stays null.\<close>

definition json_members :: "(string \<times> Json) list \<Rightarrow> Json" where
  "json_members ms = (if ms = [] then JNull else JObject ms)"

definition get_json_metrics :: "u64 \<Rightarrow> visit_order \<Rightarrow> MetricsCollector \<Rightarrow> Json option" where
  "get_json_metrics now order m = map_option
     (\<lambda>hs. JObject [(''timestamp_ns'', JInt (sint now)),
        (''counters'', json_members (map (\<lambda>n. (n, json_u64 (get_counter m n))) (counter_names order))),
        (''gauges'', json_members (map (\<lambda>n. (n, JFloat (get_gauge m n))) (gauge_names order))),
        (''histograms'', json_members (zip (histogram_names order) hs))])
     (option_list (map (\<lambda>n. map_option percentile_json (get_latency_percentiles m n)) (histogram_names order)))"

definition counter_member :: "MetricsCollector \<Rightarrow> string \<Rightarrow> string \<times> Json" where
  "counter_member m n = (n, json_u64 (get_counter m n))"

definition latency_member :: "MetricsCollector \<Rightarrow> string \<Rightarrow> (string \<times> Json) option" where
  "latency_member m n = map_option (\<lambda>p. (n, JObject [(''p50'', json_u64 (p50 p)), (''p99'', json_u64 (p99 p))])) (get_latency_percentiles m n)"

definition gauge_member :: "MetricsCollector \<Rightarrow> string \<Rightarrow> string \<times> Json" where
  "gauge_member m n = (n, JFloat (get_gauge m n))"

definition build_ws_metrics_payload :: "u64 \<Rightarrow> MetricsCollector \<Rightarrow> Json option" where
  "build_ws_metrics_payload now m = map_option
     (\<lambda>ls. JObject [(''timestamp_ns'', JInt (sint now)),
        (''throughput'', JObject (map (counter_member m) [''feed_events_ingested_total'', ''normalizer_events_total'', ''publisher_frames_published_total'',
           ''recorder_frames_total'', ''frame_distribution_total''])),
        (''latency'', JObject ls),
        (''queue_depths'', JObject (map (gauge_member m) [''pipeline_feed_queue_approx'', ''pipeline_normalizer_to_publisher_queue_approx'',
           ''pipeline_normalizer_to_recorder_queue_approx'']))])
     (option_list (map (latency_member m) [''normalizer_event_latency_ns'', ''publisher_publish_latency_ns'', ''recorder_write_frame_ns'']))"

section \<open>A scraper\<close>

text \<open>The reference reader: lines, and of a line the text before and after its last blank.\<close>

fun text_lines :: "string \<Rightarrow> string list" where
  "text_lines [] = []"
| "text_lines (c # cs) = (if c = CHR 0x0A then [] # text_lines cs
     else (case text_lines cs of [] \<Rightarrow> [[c]] | l # ls \<Rightarrow> (c # l) # ls))"

definition last_blank :: "string \<Rightarrow> string \<times> string" where
  "last_blank l = (rev (drop 1 (dropWhile (\<lambda>c. c \<noteq> CHR '' '') (rev l))), rev (takeWhile (\<lambda>c. c \<noteq> CHR '' '') (rev l)))"

definition scrape :: "string \<Rightarrow> (string \<times> string) list" where
  "scrape t = map last_blank (filter (\<lambda>l. take 1 l \<noteq> ''#'') (text_lines t))"

lemma text_lines_line: "CHR 0x0A \<notin> set l \<Longrightarrow> text_lines (l @ CHR 0x0A # t) = l # text_lines t"
  by (induction l) auto

lemma scrape_simps:
  "CHR 0x0A \<notin> set l \<Longrightarrow> take 1 l \<noteq> ''#'' \<Longrightarrow> scrape (l @ CHR 0x0A # t) = last_blank l # scrape t"
  "CHR 0x0A \<notin> set l \<Longrightarrow> take 1 l = ''#'' \<Longrightarrow> scrape (l @ CHR 0x0A # t) = scrape t"
  by (simp_all add: scrape_def text_lines_line)

lemma last_blank_sample: "CHR '' '' \<notin> set v \<Longrightarrow> last_blank (n @ CHR '' '' # v) = (n, v)"
proof -
  assume v: "CHR '' '' \<notin> set v"
  then have "takeWhile (\<lambda>c. c \<noteq> CHR '' '') (rev v @ CHR '' '' # rev n) = rev v"
    "dropWhile (\<lambda>c. c \<noteq> CHR '' '') (rev v @ CHR '' '' # rev n) = CHR '' '' # rev n"
    by (auto simp: takeWhile_append dropWhile_append)
  then show ?thesis by (simp add: last_blank_def)
qed

text \<open>Names and numbers as the metrics have them.\<close>

definition plain :: "string \<Rightarrow> bool" where
  "plain s \<longleftrightarrow> CHR 0x0A \<notin> set s \<and> CHR '' '' \<notin> set s"

lemma plain_digit: "(d :: nat) < 10 \<Longrightarrow> plain [char_of (48 + d)]"
proof -
  assume "d < 10"
  then have "(of_char (char_of (48 + d)) :: nat) = 48 + d" by simp
  then have "char_of (48 + d) \<noteq> c" if "(of_char c :: nat) < 48" for c using that by (metis not_add_less1)
  from this [of "CHR 0x0A"] this [of "CHR '' ''"] show ?thesis by (auto simp: plain_def)
qed

lemma plain_append [simp]: "plain (s @ t) \<longleftrightarrow> plain s \<and> plain t"
  by (auto simp: plain_def)

lemma plain_to_string [simp]: "plain (to_string n)"
proof (induction n rule: to_string.induct)
  case (1 n)
  then show ?case using plain_digit [of n] plain_digit [of "n mod 10"] by (subst to_string.simps) simp
qed

lemma scrape_type: "plain n \<Longrightarrow> plain k \<Longrightarrow> scrape (type_line n k @ t) = scrape t"
  using scrape_simps(2) [of "''# TYPE '' @ n @ '' '' @ k" t] by (simp add: type_line_def plain_def)

definition metric_name_ok :: "string \<Rightarrow> bool" where
  "metric_name_ok n \<longleftrightarrow> plain n \<and> n \<noteq> [] \<and> take 1 n \<noteq> ''#''"

lemma scrape_sample: "metric_name_ok n \<Longrightarrow> plain v \<Longrightarrow> scrape (sample_line n v @ t) = (n, v) # scrape t"
proof -
  assume a: "metric_name_ok n" "plain v"
  then have "take 1 (n @ CHR '' '' # v) \<noteq> ''#''" "CHR 0x0A \<notin> set (n @ CHR '' '' # v)"
    by (cases n; auto simp: metric_name_ok_def plain_def)+
  then have "scrape ((n @ CHR '' '' # v) @ CHR 0x0A # t) = last_blank (n @ CHR '' '' # v) # scrape t" by (intro scrape_simps)
  then show ?thesis using a(2) by (simp add: sample_line_def plain_def last_blank_sample)
qed

lemma plain_kinds [simp]: "plain ''counter''" "plain ''gauge''" "plain ''histogram''"
  by (simp_all add: plain_def)

lemma metric_name_plain: "metric_name_ok n \<Longrightarrow> plain n"
  by (simp add: metric_name_ok_def)

lemma metric_name_suffix: "metric_name_ok n \<Longrightarrow> plain s \<Longrightarrow> metric_name_ok (n @ s)"
  by (cases n) (auto simp: metric_name_ok_def plain_def)

lemma scrape_counters:
  "list_all metric_name_ok names \<Longrightarrow>
   scrape (concat (map (counter_text m) names) @ t) = map (\<lambda>n. (n, to_string (unat (get_counter m n)))) names @ scrape t"
  by (induction names) (simp_all add: counter_text_def scrape_type scrape_sample metric_name_plain)

lemma scrape_gauges:
  "list_all metric_name_ok names \<Longrightarrow> (\<And>x. plain (show_double x)) \<Longrightarrow>
   scrape (concat (map (gauge_text show_double m) names) @ t) = map (\<lambda>n. (n, show_double (get_gauge m n))) names @ scrape t"
  by (induction names) (simp_all add: gauge_text_def scrape_type scrape_sample metric_name_plain)

definition percentile_samples :: "string \<Rightarrow> Percentiles \<Rightarrow> (string \<times> string) list" where
  "percentile_samples n p = [(n @ ''_p50'', to_string (unat (p50 p))), (n @ ''_p95'', to_string (unat (p95 p))), (n @ ''_p99'', to_string (unat (p99 p))),
     (n @ ''_p999'', to_string (unat (p999 p))), (n @ ''_max'', to_string (unat (pmax p))), (n @ ''_count'', to_string (unat (pcount p)))]"

lemma plain_suffixes [simp]: "plain ''_p50''" "plain ''_p95''" "plain ''_p99''" "plain ''_p999''" "plain ''_max''" "plain ''_count''"
  by (simp_all add: plain_def)

lemma scrape_percentiles: "metric_name_ok n \<Longrightarrow> scrape (percentile_text n p @ t) = percentile_samples n p @ scrape t"
  by (simp add: percentile_text_def percentile_samples_def scrape_type scrape_sample metric_name_plain metric_name_suffix)

lemma scrape_histograms:
  assumes "list_all metric_name_ok names" "histogram_texts m names = Some hs"
  shows "scrape (concat hs) = concat (map (\<lambda>n. percentile_samples n (the (get_latency_percentiles m n))) names)"
  using assms
proof (induction names arbitrary: hs)
  case (Cons n names)
  then obtain p gs where "get_latency_percentiles m n = Some p" "histogram_texts m names = Some gs" "hs = percentile_text n p # gs"
    by (auto simp: histogram_texts_def split: option.splits)
  then show ?case using Cons by (simp add: scrape_percentiles)
qed (simp add: histogram_texts_def scrape_def)

section \<open>Properties\<close>

text \<open>
  C33: round trip of the export. Reading the text that \<open>/metrics\<close> serves gives back every counter
  with its exact value, every gauge as it was formatted and the six figures of every histogram, each
  once and nothing else, provided that names have neither blanks nor line breaks.
\<close>

theorem prometheus_scrape_roundtrip:
  assumes "get_prometheus_metrics show_double order m = Some text" "\<And>x. plain (show_double x)"
    and "list_all metric_name_ok (counter_names order @ gauge_names order @ histogram_names order)"
  shows "scrape text = map (\<lambda>n. (n, to_string (unat (get_counter m n)))) (counter_names order)
    @ map (\<lambda>n. (n, show_double (get_gauge m n))) (gauge_names order)
    @ concat (map (\<lambda>n. percentile_samples n (the (get_latency_percentiles m n))) (histogram_names order))"
proof -
  obtain hs where hs: "histogram_texts m (histogram_names order) = Some hs"
    and out: "text = concat (map (counter_text m) (counter_names order)) @ concat (map (gauge_text show_double m) (gauge_names order)) @ concat hs"
    using assms(1) by (auto simp: get_prometheus_metrics_def)
  show ?thesis using assms(2,3) unfolding out by (simp add: scrape_counters scrape_gauges scrape_histograms [OF _ hs])
qed

theorem prometheus_scrape_roundtrip_witness:
  "\<exists>text. get_prometheus_metrics (\<lambda>_. ''0'') \<lparr>counter_names = [''frames''], gauge_names = [''depth''], histogram_names = []\<rparr>
       (increment_counter ''frames'' 7 (set_gauge ''depth'' 0 no_metrics)) = Some text
     \<and> scrape text = [(''frames'', to_string 7), (''depth'', ''0'')]"
proof -
  let ?order = "\<lparr>counter_names = [''frames''], gauge_names = [''depth''], histogram_names = []\<rparr>"
  let ?m = "increment_counter ''frames'' 7 (set_gauge ''depth'' 0 no_metrics)"
  obtain out where t: "get_prometheus_metrics (\<lambda>_. ''0'') ?order ?m = Some out"
    by (simp add: get_prometheus_metrics_def histogram_texts_def)
  have c: "get_counter ?m ''frames'' = 7" by (simp add: get_counter_def increment_counter_def set_gauge_def no_metrics_def)
  show ?thesis using prometheus_scrape_roundtrip [OF t] t c by (simp add: plain_def metric_name_ok_def)
qed

end
