(* ===== verification/Http_Control.thy ===== *)
theory Http_Control
  imports Mock_Feed Replayer Metrics_Export
begin

text \<open>
  The HTTP side of \<open>ControlServer\<close> (\<open>src/ctrl\<close>): routing of requests and the handlers, which read and
  change the feed, the replayer and the publisher they refer to. The JSON library (parser, serialiser,
  texts of its exceptions) is an argument, \<open>Json_Text\<close> has its own one; a serialised body is represented by the value and the
  indentation. \<open>None\<close> is undefined behaviour: a rate that does not fit 32 bits, a float that does
  not fit its integer type, a damaged index file, or the conversion in \<open>get_percentiles\<close>.
\<close>

section \<open>Messages\<close>

datatype verb = Get | Post | Options | OtherVerb

record request =
  req_method :: verb
  req_target :: string
  req_version :: nat
  req_keep_alive :: bool
  req_body :: string

datatype http_body = NoBody | Dumped "nat option" Json | Plain string

record response =
  res_status :: nat
  res_version :: nat
  res_keep_alive :: bool
  res_content_type :: "string option"
  res_cors :: bool  \<comment> \<open>the three \<open>access_control_allow\<close> fields\<close>
  res_body :: http_body

text \<open>A response with default version and connection semantics.\<close>

definition reply :: "nat \<Rightarrow> string \<Rightarrow> http_body \<Rightarrow> response" where
  "reply status ctype b = \<lparr>res_status = status, res_version = 11, res_keep_alive = True, res_content_type = Some ctype, res_cors = False, res_body = b\<rparr>"

definition make_json_response :: "nat \<Rightarrow> Json \<Rightarrow> nat \<Rightarrow> bool \<Rightarrow> response" where
  "make_json_response status j version ka =
     \<lparr>res_status = status, res_version = version, res_keep_alive = ka, res_content_type = Some ''application/json'', res_cors = True, res_body = Dumped None j\<rparr>"

abbreviation error_json :: "string \<Rightarrow> Json" where
  "error_json msg \<equiv> JObject [(''error'', JString msg)]"

abbreviation status_json :: "string \<Rightarrow> Json" where
  "status_json s \<equiv> JObject [(''status'', JString s)]"

section \<open>Surroundings\<close>

datatype control_exn = TypeError | ReplayFailed replay_error

record json_library =
  lib_parse :: "string \<Rightarrow> json_error + Json"
  lib_dump :: "Json \<Rightarrow> string"
  lib_what :: "control_exn \<Rightarrow> string"

text \<open>Readings of the file system, the random engine and the clocks during one request.\<close>

record control_inputs =
  ci_files :: files
  ci_listing :: "path list option"
  ci_digits :: "nat list"
  ci_found :: bool
  ci_order :: visit_order
  ci_show_double :: "double \<Rightarrow> string"

text \<open>The components the server refers to; \<open>None\<close> is a null reference.\<close>

record control_world =
  cw_feed :: "MockFeed option"
  cw_replayer :: "Replayer option"
  cw_pub :: PubServer
  cw_has_pub :: bool  \<comment> \<open>\<open>set_pub_server\<close> has been called\<close>
  cw_registry :: "SymbolRegistry option"
  cw_metrics :: MetricsCollector

text \<open>A conversion of a JSON value: undefined only for a float.\<close>

type_synonym 'a outcome = "(control_exn + 'a) option"

fun is_float :: "Json \<Rightarrow> bool" where
  "is_float (JFloat x) = True"
| "is_float _ = False"

definition convert :: "(Json \<Rightarrow> 'a option) \<Rightarrow> Json \<Rightarrow> 'a outcome" where
  "convert get v = (case get v of Some x \<Rightarrow> Some (Inr x) | None \<Rightarrow> if is_float v then None else Some (Inl TypeError))"

definition member :: "(Json \<Rightarrow> 'a option) \<Rightarrow> Json \<Rightarrow> string \<Rightarrow> 'a \<Rightarrow> 'a outcome" where
  "member get j k dflt = (if \<not> is_object j then Some (Inl TypeError)
     else (case json_find j k of None \<Rightarrow> Some (Inr dflt) | Some v \<Rightarrow> convert get v))"

definition string_member :: "Json \<Rightarrow> string \<Rightarrow> string \<Rightarrow> control_exn + string" where
  "string_member j k dflt = (case json_value get_string j k dflt of None \<Rightarrow> Inl TypeError | Some s \<Rightarrow> Inr s)"

section \<open>Handlers\<close>

definition handle_health :: response where
  "handle_health = reply 200 ''application/json'' (Dumped None (status_json ''ok''))"

definition handle_metrics :: "control_inputs \<Rightarrow> control_world \<Rightarrow> response option" where
  "handle_metrics ci w = map_option (\<lambda>t. reply 200 ''text/plain'' (Plain t)) (get_prometheus_metrics (ci_show_double ci) (ci_order ci) (cw_metrics w))"

definition is_rate :: "Json \<Rightarrow> string \<Rightarrow> bool" where
  "is_rate j k \<longleftrightarrow> (case json_find j k of None \<Rightarrow> False | Some v \<Rightarrow> is_number v)"

definition rate_of :: "Json \<Rightarrow> string \<Rightarrow> double" where
  "rate_of j k = (case json_find j k of None \<Rightarrow> 0 | Some v \<Rightarrow> (case get_double v of None \<Rightarrow> 0 | Some x \<Rightarrow> x))"

definition handle_feeds_start :: "Json \<Rightarrow> control_world \<Rightarrow> (response \<times> control_world) option" where
  "handle_feeds_start j w = (case cw_feed w of
     None \<Rightarrow> Some (make_json_response 503 (error_json ''Feed not available'') 11 False, w)
   | Some feed \<Rightarrow>
       if \<not> is_rate j ''l1_rate'' \<or> \<not> is_rate j ''l2_rate'' \<or> \<not> is_rate j ''trade_rate''
       then Some (make_json_response 400 (error_json ''Invalid JSON: expected numeric l1_rate, l2_rate, trade_rate'') 11 False, w)
       else let l1 = rate_of j ''l1_rate''; l2 = rate_of j ''l2_rate''; tr = rate_of j ''trade_rate'' in
         if l1 < 0 \<or> l2 < 0 \<or> tr < 0 then Some (make_json_response 400 (error_json ''Rates must be non-negative'') 11 False, w)
         else (case (float_to_word l1, float_to_word l2, float_to_word tr) of
           (Some a, Some b, Some c) \<Rightarrow>
             Some (make_json_response 200 (status_json ''started'') 11 False, w\<lparr>cw_feed := Some (feed_start (set_rates a b c feed))\<rparr>)
         | _ \<Rightarrow> None))"

definition handle_feeds_stop :: "control_world \<Rightarrow> response \<times> control_world" where
  "handle_feeds_stop w = (case cw_feed w of
     None \<Rightarrow> (make_json_response 503 (error_json ''Feed not available'') 11 False, w)
   | Some feed \<Rightarrow> (make_json_response 200 (status_json ''stopped'') 11 False, w\<lparr>cw_feed := Some (feed_stop feed)\<rparr>))"

definition handle_symbols_get :: "control_world \<Rightarrow> response" where
  "handle_symbols_get w = reply 200 ''application/json'' (Dumped (Some 2) (case cw_registry w of
     None \<Rightarrow> JObject [(''symbols'', JArray []), (''count'', JInt 0)]
   | Some r \<Rightarrow> JObject
       [(''symbols'', JArray (map (\<lambda>(i, s). JObject [(''id'', JInt (int (unat i))), (''symbol'', JString s)]) (get_all r))),
        (''count'', JInt (int (length (get_all r))))]))"

definition handle_feeds_get :: "control_world \<Rightarrow> response" where
  "handle_feeds_get w = reply 200 ''application/json'' (Dumped (Some 2) (JObject [(''feeds'', JArray (case cw_feed w of
     None \<Rightarrow> []
   | Some feed \<Rightarrow> [JObject [(''name'', JString ''mock''), (''active'', JBool True),
       (''stats'', JObject [(''l1_count'', json_u64 (l1_count (feed_stats feed))), (''l2_count'', json_u64 (l2_count (feed_stats feed))),
          (''trade_count'', json_u64 (trade_count (feed_stats feed))), (''total_events'', json_u64 (total_events (feed_stats feed)))])]]))]))"

text \<open>\<open>json.value(k, 50000)\<close> has the type \<open>int\<close> and is then converted to \<open>uint32_t\<close>.\<close>

fun get_int :: "Json \<Rightarrow> u32 option" where
  "get_int (JInt i) = Some (word_of_int i)"
| "get_int (JFloat x) = (if - (2 ^ 31) \<le> trunc x \<and> trunc x < 2 ^ 31 then Some (word_of_int (trunc x)) else None)"
| "get_int (JBool b) = Some (if b then 1 else 0)"
| "get_int _ = None"

definition failed :: "json_library \<Rightarrow> control_exn \<Rightarrow> response" where
  "failed lib e = reply 400 ''application/json'' (Dumped None (error_json (lib_what lib e)))"

definition ok_text :: "string \<Rightarrow> response" where
  "ok_text t = reply 200 ''application/json'' (Plain t)"

definition feeds_action :: "json_library \<Rightarrow> Json \<Rightarrow> string \<Rightarrow> control_world \<Rightarrow> (response \<times> control_world) option" where
  "feeds_action lib j action w = (case cw_feed w of
     Some feed \<Rightarrow>
       if action = ''start'' then
         (case (member get_int j ''l1_rate'' 50000, member get_int j ''l2_rate'' 30000, member get_int j ''trade_rate'' 5000) of
            (Some (Inr a), Some (Inr b), Some (Inr c)) \<Rightarrow>
              Some (ok_text ''{\"status\":\"started\"}'', w\<lparr>cw_feed := Some (feed_start (set_rates a b c feed))\<rparr>)
          | (None, _, _) \<Rightarrow> None
          | (Some (Inl e), _, _) \<Rightarrow> Some (failed lib e, w)
          | (_, None, _) \<Rightarrow> None
          | (_, Some (Inl e), _) \<Rightarrow> Some (failed lib e, w)
          | (_, _, None) \<Rightarrow> None
          | (_, _, Some (Inl e)) \<Rightarrow> Some (failed lib e, w))
       else if action = ''stop'' then Some (ok_text ''{\"status\":\"stopped\"}'', w\<lparr>cw_feed := Some (feed_stop feed)\<rparr>)
       else Some (reply 400 ''application/json'' (Plain ''{\"error\":\"Invalid action or feed not available\"}''), w)
   | None \<Rightarrow> Some (reply 400 ''application/json'' (Plain ''{\"error\":\"Invalid action or feed not available\"}''), w))"

text \<open>A parse error of the body is reported like the other exceptions, with a text of its own.\<close>

definition handle_feeds_post :: "json_library \<Rightarrow> string \<Rightarrow> string \<Rightarrow> control_world \<Rightarrow> (response \<times> control_world) option" where
  "handle_feeds_post lib parse_what b w = (case lib_parse lib b of
     Inl _ \<Rightarrow> Some (reply 400 ''application/json'' (Dumped None (error_json parse_what)), w)
   | Inr j \<Rightarrow> (case string_member j ''action'' [] of
       Inl e \<Rightarrow> Some (failed lib e, w)
     | Inr action \<Rightarrow> feeds_action lib j action w))"

section \<open>Replay requests\<close>

definition bad_request :: "string \<Rightarrow> response" where
  "bad_request t = reply 400 ''application/json'' (Plain t)"

definition unsigned_member :: "Json \<Rightarrow> string \<Rightarrow> u64 option" where
  "unsigned_member j k = (case json_find j k of None \<Rightarrow> None | Some v \<Rightarrow> if is_number_unsigned v then get_u64 v else None)"

definition replay_start :: "json_library \<Rightarrow> control_inputs \<Rightarrow> Json \<Rightarrow> Replayer \<Rightarrow> control_world \<Rightarrow> (response \<times> control_world) option" where
  "replay_start lib ci j rp w =
     (case (unsigned_member j ''from_ts_ns'', unsigned_member j ''to_ts_ns'') of
        (Some from_ts, Some to_ts) \<Rightarrow>
          if \<not> is_rate j ''rate'' then Some (bad_request ''{\"error\":\"Expected from_ts_ns, to_ts_ns, and rate\"}'', w)
          else if rate_of j ''rate'' \<notin> {1, 10, 100} then Some (bad_request ''{\"error\":\"rate must be one of [1, 10, 100]\"}'', w)
          else (case json_value get_strings j ''topics'' [''*''] of
            None \<Rightarrow> Some (failed lib TypeError, w)
          | Some tps \<Rightarrow>
              (case start_session (ci_files ci) (ci_listing ci) (ci_digits ci) (ci_found ci) from_ts to_ts tps (rate_of j ''rate'') (rp, cw_pub w) of
                 Inl e \<Rightarrow> if e = IndexError IndexOverrun then None else Some (failed lib (ReplayFailed e), w)
               | Inr (sid, rp1, srv) \<Rightarrow>
                   Some (reply 200 ''application/json'' (Dumped None (JObject [(''status'', JString ''started''), (''session_id'', JString sid)])),
                     w\<lparr>cw_replayer := Some rp1, cw_pub := srv\<rparr>)))
      | _ \<Rightarrow> Some (bad_request ''{\"error\":\"Expected from_ts_ns, to_ts_ns, and rate\"}'', w))"

definition replay_stop :: "json_library \<Rightarrow> Json \<Rightarrow> Replayer \<Rightarrow> control_world \<Rightarrow> response \<times> control_world" where
  "replay_stop lib j rp w = (case string_member j ''session_id'' [] of
     Inl e \<Rightarrow> (failed lib e, w)
   | Inr sid \<Rightarrow> (ok_text ''{\"status\":\"stopped\"}'',
       w\<lparr>cw_replayer := Some (if sid \<noteq> [] then stop_session sid rp else fold stop_session (get_active_sessions rp) rp)\<rparr>))"

definition replay_pause :: "json_library \<Rightarrow> Json \<Rightarrow> Replayer \<Rightarrow> control_world \<Rightarrow> response \<times> control_world" where
  "replay_pause lib j rp w = (case string_member j ''session_id'' [] of
     Inl e \<Rightarrow> (failed lib e, w)
   | Inr sid \<Rightarrow> (ok_text ''{\"status\":\"paused\"}'', w\<lparr>cw_replayer := Some (pause_session sid rp)\<rparr>))"

definition replay_resume :: "json_library \<Rightarrow> Json \<Rightarrow> Replayer \<Rightarrow> control_world \<Rightarrow> response \<times> control_world" where
  "replay_resume lib j rp w = (case string_member j ''session_id'' [] of
     Inl e \<Rightarrow> (failed lib e, w)
   | Inr sid \<Rightarrow> (ok_text ''{\"status\":\"resumed\"}'', w\<lparr>cw_replayer := Some (resume_session sid rp)\<rparr>))"

definition replay_seek :: "json_library \<Rightarrow> control_inputs \<Rightarrow> Json \<Rightarrow> Replayer \<Rightarrow> control_world \<Rightarrow> (response \<times> control_world) option" where
  "replay_seek lib ci j rp w = (case string_member j ''session_id'' [] of
     Inl e \<Rightarrow> Some (failed lib e, w)
   | Inr sid \<Rightarrow> (case member get_small_uint j ''timestamp_ns'' 0 of
       None \<Rightarrow> None
     | Some (Inl e) \<Rightarrow> Some (failed lib e, w)
     | Some (Inr ts) \<Rightarrow> (case seek_session (ci_files ci) sid ts rp of
         Inl IndexOverrun \<Rightarrow> None
       | Inl IndexLengthError \<Rightarrow> Some (failed lib (ReplayFailed (IndexError IndexLengthError)), w)
       | Inr rp1 \<Rightarrow> Some (ok_text ''{\"status\":\"seeked\"}'', w\<lparr>cw_replayer := Some rp1\<rparr>))))"

text \<open>The command in a parsed body.\<close>

definition replay_command :: "json_library \<Rightarrow> control_inputs \<Rightarrow> Json \<Rightarrow> control_world \<Rightarrow> (response \<times> control_world) option" where
  "replay_command lib ci j w = (case string_member j ''action'' [] of
     Inl e \<Rightarrow> Some (failed lib e, w)
   | Inr action \<Rightarrow> (case cw_replayer w of
       None \<Rightarrow> Some (reply 503 ''application/json'' (Plain ''{\"error\":\"Replayer not available\"}''), w)
     | Some rp \<Rightarrow>
         if action = ''start'' then replay_start lib ci j rp w
         else if action = ''stop'' then Some (replay_stop lib j rp w)
         else if action = ''pause'' then Some (replay_pause lib j rp w)
         else if action = ''resume'' then Some (replay_resume lib j rp w)
         else if action = ''seek'' then replay_seek lib ci j rp w
         else Some (bad_request ''{\"error\":\"Invalid action\"}'', w)))"

definition handle_replay_post :: "json_library \<Rightarrow> string \<Rightarrow> control_inputs \<Rightarrow> string \<Rightarrow> control_world \<Rightarrow> (response \<times> control_world) option" where
  "handle_replay_post lib parse_what ci b w = (case lib_parse lib b of
     Inl _ \<Rightarrow> Some (reply 400 ''application/json'' (Dumped None (error_json parse_what)), w)
   | Inr j \<Rightarrow> replay_command lib ci j w)"

section \<open>The latest event of a topic\<close>

definition unscaled_price :: "i64 \<Rightarrow> Json" where
  "unscaled_price p = JFloat (ddiv (rnd (of_int (sint p))) 100000000)"

definition unscaled_size :: "u64 \<Rightarrow> Json" where
  "unscaled_size s = JFloat (ddiv (rnd (of_nat (unat s))) 100000000)"

definition symbol_member :: "SymbolRegistry option \<Rightarrow> u32 \<Rightarrow> (string \<times> Json) list" where
  "symbol_member r i = (case r of None \<Rightarrow> [] | Some sr \<Rightarrow> [(''symbol'', JString (by_id sr i))])"

fun latest_members :: "SymbolRegistry option \<Rightarrow> FrameBody \<Rightarrow> (string \<times> Json) list" where
  "latest_members r (BL1 b) = [(''type'', JString ''L1''), (''timestamp_ns'', json_u64 (l1_ts_ns b)), (''symbol_id'', JInt (int (unat (l1_symbol_id b))))]
     @ symbol_member r (l1_symbol_id b)
     @ [(''bid_price'', unscaled_price (l1_bid_px b)), (''bid_size'', unscaled_size (l1_bid_sz b)), (''ask_price'', unscaled_price (l1_ask_px b)),
        (''ask_size'', unscaled_size (l1_ask_sz b)), (''sequence'', json_u64 (l1_seq b))]"
| "latest_members r (BL2 b) = [(''type'', JString ''L2''), (''timestamp_ns'', json_u64 (l2_ts_ns b)), (''symbol_id'', JInt (int (unat (l2_symbol_id b))))]
     @ symbol_member r (l2_symbol_id b)
     @ [(''side'', JString (if l2_side b = 0 then ''bid'' else ''ask'')),
        (''action'', JString (if l2_action b = 0 then ''insert'' else if l2_action b = 1 then ''update'' else ''delete'')),
        (''level'', JInt (int (unat (l2_level b)))), (''price'', unscaled_price (l2_price b)), (''size'', unscaled_size (l2_size b)), (''sequence'', json_u64 (l2_seq b))]"
| "latest_members r (BTrade b) = [(''type'', JString ''Trade''), (''timestamp_ns'', json_u64 (tr_ts_ns b)), (''symbol_id'', JInt (int (unat (tr_symbol_id b))))]
     @ symbol_member r (tr_symbol_id b)
     @ [(''price'', unscaled_price (tr_price b)), (''size'', unscaled_size (tr_size b)),
        (''aggressor_side'', JString (if tr_aggressor_side b = 0 then ''buy'' else if tr_aggressor_side b = 1 then ''sell'' else ''unknown'')),
        (''sequence'', json_u64 (tr_seq b))]"
| "latest_members r (BHb b) = [(''type'', JString ''Heartbeat''), (''timestamp_ns'', json_u64 (hb_ts_ns b))]"
| "latest_members r (BAck b) = [(''type'', JString ''Other'')]"

definition handle_latest_event :: "string \<Rightarrow> control_world \<Rightarrow> response" where
  "handle_latest_event topic w =
     (if \<not> cw_has_pub w then reply 503 ''application/json'' (Plain ''{\"error\":\"Publisher not available\"}'')
      else (case get_latest_frame topic (cw_pub w) of
        None \<Rightarrow> reply 404 ''application/json'' (Dumped None (error_json (''No data for topic: '' @ topic)))
      | Some f \<Rightarrow> reply 200 ''application/json'' (Dumped (Some 2)
          (JObject ([(''topic'', JString topic), (''msg_type'', JInt (int (unat (fh_msg_type (header f)))))] @ latest_members (cw_registry w) (body f))))))"

section \<open>Routing\<close>

definition envelope :: "request \<Rightarrow> response \<Rightarrow> response" where
  "envelope req res = res\<lparr>res_version := req_version req, res_keep_alive := req_keep_alive req, res_cors := True\<rparr>"

definition invalid_json :: "request \<Rightarrow> response" where
  "invalid_json req = make_json_response 400 (error_json ''Invalid JSON'') (req_version req) (req_keep_alive req)"

definition internal_error :: "request \<Rightarrow> response" where
  "internal_error req = make_json_response 500 (error_json ''Internal Server Error'') (req_version req) (req_keep_alive req)"

text \<open>Only \<open>parse_error\<close> is caught around the parser, a number out of range reaches the outer handler.\<close>

definition unparsed :: "request \<Rightarrow> json_error \<Rightarrow> response" where
  "unparsed req e = (case e of ParseError \<Rightarrow> invalid_json req | OutOfRange \<Rightarrow> internal_error req)"

definition replay_request ::
  "json_library \<Rightarrow> string \<Rightarrow> control_inputs \<Rightarrow> request \<Rightarrow> string \<Rightarrow> Json \<Rightarrow> control_world \<Rightarrow> (response \<times> control_world) option" where
  "replay_request lib parse_what ci req action j w = (case json_set ''action'' (JString action) j of
     None \<Rightarrow> Some (internal_error req, w)
   | Some j1 \<Rightarrow> handle_replay_post lib parse_what ci (lib_dump lib j1) w)"

definition route :: "json_library \<Rightarrow> string \<Rightarrow> control_inputs \<Rightarrow> request \<Rightarrow> control_world \<Rightarrow> (response \<times> control_world) option" where
  "route lib parse_what ci req w =
     (if req_target req = ''/metrics'' \<and> req_method req = Get then map_option (\<lambda>res. (res, w)) (handle_metrics ci w)
      else if req_target req = ''/health'' \<and> req_method req = Get then Some (handle_health, w)
      else if req_target req = ''/feeds/start'' \<and> req_method req = Post then
        (case lib_parse lib (req_body req) of Inl e \<Rightarrow> Some (unparsed req e, w) | Inr j \<Rightarrow> handle_feeds_start j w)
      else if req_target req = ''/feeds/stop'' \<and> req_method req = Post then Some (handle_feeds_stop w)
      else if req_target req = ''/replay/start'' \<and> req_method req = Post then
        (case lib_parse lib (req_body req) of Inl e \<Rightarrow> Some (unparsed req e, w) | Inr j \<Rightarrow> replay_request lib parse_what ci req ''start'' j w)
      else if req_target req = ''/replay/stop'' \<and> req_method req = Post then
        (if req_body req = [] then replay_request lib parse_what ci req ''stop'' (JObject []) w
         else (case lib_parse lib (req_body req) of Inl e \<Rightarrow> Some (unparsed req e, w) | Inr j \<Rightarrow> replay_request lib parse_what ci req ''stop'' j w))
      else Some (make_json_response 404 (error_json ''Not Found'') (req_version req) (req_keep_alive req), w))"

definition handle_http_request :: "json_library \<Rightarrow> string \<Rightarrow> control_inputs \<Rightarrow> request \<Rightarrow> control_world \<Rightarrow> (response \<times> control_world) option" where
  "handle_http_request lib parse_what ci req w =
     (if req_method req = Options then
        Some (\<lparr>res_status = 204, res_version = req_version req, res_keep_alive = req_keep_alive req, res_content_type = None, res_cors = True, res_body = NoBody\<rparr>, w)
      else map_option (\<lambda>(res, w1). (envelope req res, w1)) (route lib parse_what ci req w))"

text \<open>A session: the request is read, \<open>None\<close> when reading fails (also beyond 64 KiB of body), and one response is sent.\<close>

definition handle_http_session ::
  "json_library \<Rightarrow> string \<Rightarrow> control_inputs \<Rightarrow> request option \<Rightarrow> control_world \<Rightarrow> (response option \<times> control_world) option" where
  "handle_http_session lib parse_what ci r w = (case r of
     None \<Rightarrow> Some (None, w)
   | Some req \<Rightarrow> map_option (\<lambda>(res, w1). (Some res, w1)) (handle_http_request lib parse_what ci req w))"

section \<open>Lemmas\<close>

lemma status_simps [simp]:
  "res_status (reply s t b) = s" "res_status (make_json_response s j v k) = s" "res_status (failed lib e) = 400"
  "res_status (ok_text t) = 200" "res_status (bad_request t) = 400" "res_status (invalid_json req) = 400" "res_status (internal_error req) = 500"
  "res_status (envelope req res) = res_status res" "res_status (unparsed req pe) = (if pe = ParseError then 400 else 500)" "res_status handle_health = 200"
  by (simp_all add: reply_def make_json_response_def failed_def ok_text_def bad_request_def invalid_json_def internal_error_def envelope_def handle_health_def unparsed_def split: json_error.split)

text \<open>What a handler may do: answer 200, or answer with another of the listed statuses and change nothing.\<close>

definition settled :: "nat set \<Rightarrow> control_world \<Rightarrow> response \<times> control_world \<Rightarrow> bool" where
  "settled S w = (\<lambda>(res, w'). res_status res = 200 \<or> (res_status res \<in> S \<and> w' = w))"

lemma settled_feeds_start: "handle_feeds_start j w = Some r \<Longrightarrow> settled {400, 503} w r"
  by (auto simp: handle_feeds_start_def settled_def Let_def split: option.splits if_splits)

lemma settled_feeds_stop: "settled {503} w (handle_feeds_stop w)"
  by (auto simp: handle_feeds_stop_def settled_def split: option.splits)

lemma settled_replay_start: "replay_start lib ci j rp w = Some r \<Longrightarrow> settled {400} w r"
  by (auto simp: replay_start_def settled_def split: option.splits if_splits sum.splits prod.splits)

lemma settled_replay_other:
  "settled {400} w (replay_stop lib j rp w)" "settled {400} w (replay_pause lib j rp w)" "settled {400} w (replay_resume lib j rp w)"
  by (auto simp: replay_stop_def replay_pause_def replay_resume_def settled_def split: sum.splits)

lemma settled_replay_seek: "replay_seek lib ci j rp w = Some r \<Longrightarrow> settled {400} w r"
  by (auto simp: replay_seek_def settled_def split: option.splits sum.splits seek_error.splits)

lemma settled_mono: "settled S w r \<Longrightarrow> S \<subseteq> T \<Longrightarrow> settled T w r"
  by (auto simp: settled_def)

lemma settled_replay_post: "handle_replay_post lib pw ci b w = Some r \<Longrightarrow> settled {400, 503} w r"
proof -
  assume a: "handle_replay_post lib pw ci b w = Some r"
  have more: "settled {400} w q \<Longrightarrow> settled {400, 503} w q" for q by (erule settled_mono) simp
  have leaf: "res_status res \<in> {400, 503} \<Longrightarrow> settled {400, 503} w (res, w)" for res by (simp add: settled_def)
  show ?thesis using a
    by (auto simp: handle_replay_post_def replay_command_def leaf more settled_replay_other split: option.splits sum.splits if_splits
        dest!: settled_replay_start settled_replay_seek dest: more)
qed

lemma settled_replay_request: "replay_request lib pw ci req act j w = Some r \<Longrightarrow> settled {400, 500, 503} w r"
  by (auto simp: replay_request_def settled_def split: option.splits dest!: settled_replay_post)

lemma settled_route: "route lib pw ci req w = Some r \<Longrightarrow> settled {400, 404, 500, 503} w r"
proof -
  assume a: "route lib pw ci req w = Some r"
  have leaf: "res_status res \<in> {200, 400, 404, 500, 503} \<Longrightarrow> settled {400, 404, 500, 503} w (res, w)" for res by (auto simp: settled_def)
  have more: "settled S w q \<Longrightarrow> S \<subseteq> {400, 404, 500, 503} \<Longrightarrow> settled {400, 404, 500, 503} w q" for S q by (rule settled_mono)
  note subs = more [OF settled_feeds_start] more [OF settled_replay_request] more [OF settled_feeds_stop]
  show ?thesis using a
    by (auto simp: route_def handle_metrics_def leaf intro: subs split: option.splits sum.splits if_splits)
qed

text \<open>The requests that may change something.\<close>

definition is_command :: "request \<Rightarrow> bool" where
  "is_command req \<longleftrightarrow> req_method req = Post \<and> req_target req \<in> {''/feeds/start'', ''/feeds/stop'', ''/replay/start'', ''/replay/stop''}"

lemma route_no_command: "route lib pw ci req w = Some (res, w') \<Longrightarrow> \<not> is_command req \<Longrightarrow> w' = w"
proof -
  assume r: "route lib pw ci req w = Some (res, w')" and c: "\<not> is_command req"
  have "\<not> (req_target req = t \<and> req_method req = Post)" if "t \<in> {''/feeds/start'', ''/feeds/stop'', ''/replay/start'', ''/replay/stop''}" for t
    using c that unfolding is_command_def by blast
  then have n: "(req_target req = ''/feeds/start'' \<and> req_method req = Post) = False" "(req_target req = ''/feeds/stop'' \<and> req_method req = Post) = False"
    "(req_target req = ''/replay/start'' \<and> req_method req = Post) = False" "(req_target req = ''/replay/stop'' \<and> req_method req = Post) = False"
    by blast+
  show ?thesis using r unfolding route_def n by (auto simp only: if_False split: if_splits)
qed

lemma rate_of_int: "json_find j k = Some (JInt i) \<Longrightarrow> \<bar>i\<bar> \<le> 2 ^ 53 \<Longrightarrow> rate_of j k = of_int i"
  by (simp add: rate_of_def rnd_of_int)

lemma float_to_word_int: "0 \<le> i \<Longrightarrow> i < 2 ^ LENGTH('a::len) \<Longrightarrow> float_to_word (of_int i) = Some (word_of_int i :: 'a word)"
  by (simp add: float_to_word_def)

text \<open>Requests change the feed only by starting, stopping and setting rates.\<close>

definition same_book :: "MockFeed option \<Rightarrow> MockFeed option \<Rightarrow> bool" where
  "same_book x y \<longleftrightarrow> map_option (\<lambda>m. (feed_symbols m, feed_queue m, symbol_states m)) x = map_option (\<lambda>m. (feed_symbols m, feed_queue m, symbol_states m)) y"

lemma same_book_refl [simp]: "same_book x x"
  by (simp add: same_book_def)

lemma same_book_calls [simp]:
  "same_book (Some m) (Some (feed_stop m))" "same_book (Some m) (Some (feed_start (set_rates a b c m)))"
  by (simp_all add: same_book_def feed_start_def feed_stop_def set_rates_def)

lemma handle_replay_post_feed: "handle_replay_post lib pw ci b w = Some (res, w') \<Longrightarrow> cw_feed w' = cw_feed w"
  by (auto simp: handle_replay_post_def replay_command_def replay_start_def replay_stop_def replay_pause_def replay_resume_def replay_seek_def
      split: option.splits sum.splits if_splits prod.splits seek_error.splits)

lemma replay_request_feed: "replay_request lib pw ci req act j w = Some (res, w') \<Longrightarrow> cw_feed w' = cw_feed w"
  by (auto simp: replay_request_def split: option.splits dest: handle_replay_post_feed)

lemma handle_feeds_start_book: "handle_feeds_start j w = Some (res, w') \<Longrightarrow> same_book (cw_feed w) (cw_feed w')"
  by (auto simp: handle_feeds_start_def Let_def split: option.splits if_splits)

lemma route_book: "route lib pw ci req w = Some (res, w') \<Longrightarrow> same_book (cw_feed w) (cw_feed w')"
proof -
  assume r: "route lib pw ci req w = Some (res, w')"
  have stop: "same_book (cw_feed w) (cw_feed (snd (handle_feeds_stop w)))"
    by (auto simp: handle_feeds_stop_def split: option.splits)
  show ?thesis using r stop
    by (auto simp: route_def split: option.splits sum.splits if_splits dest: replay_request_feed handle_feeds_start_book)
qed

lemma session_book: "handle_http_session lib pw ci r w = Some (res, w') \<Longrightarrow> same_book (cw_feed w) (cw_feed w')"
  by (auto simp: handle_http_session_def handle_http_request_def split: option.splits if_splits dest: route_book)

lemma feed_request_effect:
  assumes "cw_feed w = Some feed" "lib_parse lib (req_body req) = Inr j" "req_method req = Post"
    and "json_find j ''l1_rate'' = Some (JInt a)" "json_find j ''l2_rate'' = Some (JInt b)" "json_find j ''trade_rate'' = Some (JInt c)"
    and "{a, b, c} \<subseteq> {0..<2 ^ 32}"
  shows "(\<exists>res. handle_http_request lib parse_what ci (req\<lparr>req_target := ''/feeds/start''\<rparr>) w
      = Some (res, w\<lparr>cw_feed := Some (feed\<lparr>l1_rate := word_of_int a, l2_rate := word_of_int b, trade_rate := word_of_int c, feed_running := True\<rparr>)\<rparr>)
      \<and> res_status res = 200)
    \<and> (\<exists>res. handle_http_request lib parse_what ci (req\<lparr>req_target := ''/feeds/stop''\<rparr>) w
      = Some (res, w\<lparr>cw_feed := Some (feed\<lparr>feed_running := False\<rparr>)\<rparr>) \<and> res_status res = 200)"
proof -
  have rates: "is_rate j ''l1_rate''" "is_rate j ''l2_rate''" "is_rate j ''trade_rate''" using assms(4-6) by (simp_all add: is_rate_def)
  have vals: "rate_of j ''l1_rate'' = of_int a" "rate_of j ''l2_rate'' = of_int b" "rate_of j ''trade_rate'' = of_int c"
    using assms(4-7) by (auto intro!: rate_of_int)
  have words: "float_to_word (of_int a) = Some (word_of_int a :: u32)" "float_to_word (of_int b) = Some (word_of_int b :: u32)"
    "float_to_word (of_int c) = Some (word_of_int c :: u32)" using assms(7) by (auto intro!: float_to_word_int)
  have "handle_feeds_start j w = Some (make_json_response 200 (status_json ''started'') 11 False,
      w\<lparr>cw_feed := Some (feed\<lparr>l1_rate := word_of_int a, l2_rate := word_of_int b, trade_rate := word_of_int c, feed_running := True\<rparr>)\<rparr>)"
    using assms(1,7) rates vals words by (simp add: handle_feeds_start_def feed_start_def set_rates_def)
  then show ?thesis using assms(1,2,3) by (simp add: handle_http_request_def route_def handle_feeds_stop_def feed_stop_def)
qed

section \<open>Properties\<close>

text \<open>
  C10: requests. Whatever is sent to the control port, the answer carries the version and the connection
  semantics of the request, the cross-origin fields and one of six statuses; an answer other than 200
  leaves feed, replayer and publisher untouched, and only the four POST commands change anything.
\<close>

theorem failed_request_changes_nothing:
  assumes "handle_http_request lib parse_what ci req w = Some (res, w')"
  shows "res_version res = req_version req \<and> res_keep_alive res = req_keep_alive req \<and> res_cors res
    \<and> res_status res \<in> {200, 204, 400, 404, 500, 503} \<and> (res_status res \<noteq> 200 \<longrightarrow> w' = w) \<and> (\<not> is_command req \<longrightarrow> w' = w)"
proof (cases "req_method req = Options")
  case False
  then obtain r where r: "route lib parse_what ci req w = Some (r, w')" "res = envelope req r"
    using assms by (auto simp: handle_http_request_def)
  then have "res_status r = 200 \<or> (res_status r \<in> {400, 404, 500, 503} \<and> w' = w)" using settled_route [OF r(1)] by (simp add: settled_def)
  moreover have "res_version res = req_version req \<and> res_keep_alive res = req_keep_alive req \<and> res_cors res" using r(2) by (simp add: envelope_def)
  ultimately show ?thesis using r(2) route_no_command [OF r(1)] by auto
qed (use assms in \<open>auto simp: handle_http_request_def\<close>)

text \<open>
  Starting the feed. A start command with rates that are integers below two to the 32 sets exactly
  these rates and leaves the feed running, whether it ran before or not, and is answered 200; a stop
  command leaves it stopped.
\<close>

theorem feed_commands_take_effect:
  assumes "cw_feed w = Some feed" "lib_parse lib (req_body req) = Inr j" "req_method req = Post"
    and "json_find j ''l1_rate'' = Some (JInt a)" "json_find j ''l2_rate'' = Some (JInt b)" "json_find j ''trade_rate'' = Some (JInt c)"
    and "{a, b, c} \<subseteq> {0..<2 ^ 32}"
  shows "(\<exists>res. handle_http_request lib parse_what ci (req\<lparr>req_target := ''/feeds/start''\<rparr>) w
      = Some (res, w\<lparr>cw_feed := Some (feed\<lparr>l1_rate := word_of_int a, l2_rate := word_of_int b, trade_rate := word_of_int c, feed_running := True\<rparr>)\<rparr>)
      \<and> res_status res = 200)
    \<and> (\<exists>res. handle_http_request lib parse_what ci (req\<lparr>req_target := ''/feeds/stop''\<rparr>) w
      = Some (res, w\<lparr>cw_feed := Some (feed\<lparr>feed_running := False\<rparr>)\<rparr>) \<and> res_status res = 200)"
  using assms by (rule feed_request_effect)

text \<open>A body of JSON that is not an object is answered 500 on the replay commands, 400 on the feed command.\<close>

theorem replay_start_of_array_is_500:
  assumes "lib_parse lib (req_body req) = Inr (JArray js)" "req_method req = Post" "cw_feed w = Some feed"
  shows "\<exists>res. handle_http_request lib parse_what ci (req\<lparr>req_target := ''/replay/start''\<rparr>) w = Some (res, w) \<and> res_status res = 500"
    and "\<exists>res. handle_http_request lib parse_what ci (req\<lparr>req_target := ''/feeds/start''\<rparr>) w = Some (res, w) \<and> res_status res = 400"
  using assms by (simp_all add: handle_http_request_def route_def replay_request_def handle_feeds_start_def is_rate_def)

section \<open>Examples\<close>

definition example_rates :: Json where
  "example_rates = JObject [(''l1_rate'', JInt 5), (''l2_rate'', JInt 0), (''trade_rate'', JInt 4294967295)]"

definition example_lib :: json_library where
  "example_lib = \<lparr>lib_parse = (\<lambda>t. if t = ''r'' then Inr example_rates else Inl ParseError), lib_dump = (\<lambda>_. ''r''), lib_what = (\<lambda>_. [])\<rparr>"

definition example_request :: request where
  "example_request = \<lparr>req_method = Post, req_target = ''/feeds/start'', req_version = 11, req_keep_alive = False, req_body = ''r''\<rparr>"

definition example_world :: control_world where
  "example_world = \<lparr>cw_feed = Some (fst example_feed), cw_replayer = None, cw_pub = fst (new_server ''t'' 100 50 \<lparr>metrics = no_metrics, active_queue_count = 0\<rparr>),
     cw_has_pub = False, cw_registry = None, cw_metrics = no_metrics\<rparr>"

theorem failed_request_changes_nothing_witness:
  "\<forall>ci. \<exists>res. handle_http_request example_lib [] ci (example_request\<lparr>req_body := ''x''\<rparr>) example_world = Some (res, example_world)
     \<and> res_status res = 400 \<and> res_version res = 11 \<and> res_cors res"
proof
  fix ci
  let ?req = "example_request\<lparr>req_body := ''x''\<rparr>"
  obtain res w' where r: "handle_http_request example_lib [] ci ?req example_world = Some (res, w')" "res_status res = 400"
    by (simp add: handle_http_request_def route_def example_request_def example_lib_def)
  show "\<exists>res. handle_http_request example_lib [] ci ?req example_world = Some (res, example_world) \<and> res_status res = 400 \<and> res_version res = 11 \<and> res_cors res"
    using failed_request_changes_nothing [OF r(1)] r by (auto simp: example_request_def)
qed

theorem feed_commands_take_effect_witness:
  "\<forall>ci. \<exists>res w'. handle_http_request example_lib [] ci example_request example_world = Some (res, w') \<and> res_status res = 200
     \<and> map_option (\<lambda>f. (feed_running f, l1_rate f)) (cw_feed w') = Some (True, 5)"
proof
  fix ci
  have "cw_feed example_world = Some (fst example_feed)" "lib_parse example_lib (req_body example_request) = Inr example_rates" "req_method example_request = Post"
    "json_find example_rates ''l1_rate'' = Some (JInt 5)" "json_find example_rates ''l2_rate'' = Some (JInt 0)" "json_find example_rates ''trade_rate'' = Some (JInt 4294967295)"
    "{5, 0, 4294967295} \<subseteq> {0..<2 ^ 32 :: int}"
    by (simp_all add: example_world_def example_lib_def example_request_def example_rates_def)
  from feed_commands_take_effect [OF this, of "[]" ci]
  show "\<exists>res w'. handle_http_request example_lib [] ci example_request example_world = Some (res, w') \<and> res_status res = 200
     \<and> map_option (\<lambda>f. (feed_running f, l1_rate f)) (cw_feed w') = Some (True, 5)" by (auto simp: example_request_def)
qed

end
