(* ===== verification/Control_Server.thy ===== *)
theory Control_Server
  imports Http_Control "HOL-Library.Sublist"
begin

text \<open>
  The life cycle of \<open>ControlServer\<close>: the two listeners and their threads, and the WebSocket clients to
  which the metrics are broadcast. Clients live in a store, \<open>ws_connections\<close> has the references the
  server keeps; a client's writer thread takes steps of its own. Results of socket calls are arguments.
\<close>

section \<open>A WebSocket client\<close>

record MetricsWsClient =
  ws_running :: bool
  pending_messages :: "string list"
  ws_writer :: bool  \<comment> \<open>the writer thread is in its loop\<close>
  ws_open :: bool
  ws_sent :: "string list"  \<comment> \<open>what has been written to the socket\<close>

type_synonym ws_state = "MetricsWsClient \<times> MetricsCollector"

definition max_pending_messages :: nat where
  "max_pending_messages = 64"

definition new_ws_client :: MetricsWsClient where
  "new_ws_client = \<lparr>ws_running = True, pending_messages = [], ws_writer = False, ws_open = True, ws_sent = []\<rparr>"

definition ws_start :: "MetricsWsClient \<Rightarrow> MetricsWsClient" where
  "ws_start c = c\<lparr>ws_writer := True\<rparr>"

definition ws_enqueue :: "string \<Rightarrow> ws_state \<Rightarrow> bool \<times> ws_state" where
  "ws_enqueue msg = (\<lambda>(c, m).
     if \<not> ws_running c then (False, c, m)
     else if max_pending_messages \<le> length (pending_messages c)
       then (True, c\<lparr>pending_messages := tl (pending_messages c) @ [msg]\<rparr>, increment_counter ''control_ws_metrics_dropped_messages_total'' 1 m)
       else (True, c\<lparr>pending_messages := pending_messages c @ [msg]\<rparr>, m))"

text \<open>\<open>stop\<close> joins the writer, whose loop ends by closing the socket.\<close>

definition ws_stop :: "MetricsWsClient \<Rightarrow> MetricsWsClient" where
  "ws_stop c = (if \<not> ws_running c then c else c\<lparr>ws_running := False, ws_writer := False, ws_open := False\<rparr>)"

text \<open>One pass of the writer loop; \<open>ok\<close> tells whether the write succeeds. Without messages it keeps waiting.\<close>

definition writer_pass :: "bool \<Rightarrow> ws_state \<Rightarrow> ws_state" where
  "writer_pass ok = (\<lambda>(c, m).
     if \<not> ws_writer c then (c, m)
     else if \<not> ws_running c then (c\<lparr>ws_writer := False, ws_open := False\<rparr>, m)
     else (case pending_messages c of
       [] \<Rightarrow> (c, m)
     | msg # rest \<Rightarrow>
         if ok then (c\<lparr>pending_messages := rest, ws_sent := ws_sent c @ [msg]\<rparr>, m)
         else (c\<lparr>pending_messages := rest, ws_running := False, ws_writer := False, ws_open := False\<rparr>,
               increment_counter ''control_ws_metrics_write_errors_total'' 1 m)))"

section \<open>The server\<close>

record ControlServer =
  cs_http_port :: u16
  cs_ws_port :: u16
  cs_auth_token :: string
  cs_running :: bool
  http_listening :: bool  \<comment> \<open>\<open>http_acceptor_\<close> exists\<close>
  http_thread :: bool
  ws_listening :: bool
  ws_accept_thread :: bool
  metrics_thread :: bool
  ws_clients :: "MetricsWsClient list"
  ws_connections :: "nat list"

type_synonym control_state = "ControlServer \<times> MetricsCollector"

definition new_control_server :: "u16 \<Rightarrow> u16 \<Rightarrow> string \<Rightarrow> ControlServer" where
  "new_control_server http_port ws_port token =
     \<lparr>cs_http_port = http_port, cs_ws_port = ws_port, cs_auth_token = token, cs_running = False, http_listening = False, http_thread = False,
      ws_listening = False, ws_accept_thread = False, metrics_thread = False, ws_clients = [], ws_connections = []\<rparr>"

definition stop_clients :: "nat list \<Rightarrow> MetricsWsClient list \<Rightarrow> MetricsWsClient list" where
  "stop_clients refs cs = fold (\<lambda>r cs. cs[r := ws_stop (cs ! r)]) refs cs"

definition control_stop :: "ControlServer \<Rightarrow> ControlServer" where
  "control_stop cs = (if \<not> cs_running cs then cs
     else cs\<lparr>cs_running := False, http_listening := False, http_thread := False, ws_listening := False, ws_accept_thread := False,
             metrics_thread := False, ws_clients := stop_clients (ws_connections cs) (ws_clients cs), ws_connections := []\<rparr>)"

text \<open>The calls that set a listener up, in order; \<open>Some\<close> names the call that fails.\<close>

datatype listen_call = LOpen | LSetOption | LBind | LListen

fun listen_error :: "listen_call \<Rightarrow> string" where
  "listen_error LOpen = ''open failed''"
| "listen_error LSetOption = ''set_option failed''"
| "listen_error LBind = ''bind failed''"
| "listen_error LListen = ''listen failed''"

definition start_metrics_websocket :: "listen_call option \<Rightarrow> ControlServer \<Rightarrow> string option \<times> ControlServer" where
  "start_metrics_websocket res cs = (let cs1 = cs\<lparr>ws_listening := True\<rparr> in case res of
     Some call \<Rightarrow> (Some (''ControlServer WS '' @ listen_error call), cs1)
   | None \<Rightarrow> (None, cs1\<lparr>ws_accept_thread := True, metrics_thread := True\<rparr>))"

text \<open>\<open>start\<close> returns the message of the exception it throws, after stopping what it has started.\<close>

definition control_start :: "listen_call option \<Rightarrow> listen_call option \<Rightarrow> ControlServer \<Rightarrow> string option \<times> ControlServer" where
  "control_start http_res ws_res cs =
     (if cs_running cs then (None, cs)
      else let cs1 = cs\<lparr>cs_running := True, http_listening := True\<rparr> in
        case http_res of
          Some call \<Rightarrow> (Some (''ControlServer '' @ listen_error call), control_stop cs1)
        | None \<Rightarrow>
            (case start_metrics_websocket ws_res (cs1\<lparr>http_thread := True\<rparr>) of
               (Some e, cs2) \<Rightarrow> (Some e, control_stop cs2)
             | (None, cs2) \<Rightarrow> (None, cs2)))"

section \<open>Connections\<close>

datatype control_accept = AcceptOk | AcceptClosed | AcceptFailed

text \<open>An error ends the loop when the server is stopping or the listener is closed, otherwise the loop goes on.\<close>

definition http_accept :: "control_accept \<Rightarrow> ControlServer \<Rightarrow> bool \<times> ControlServer" where
  "http_accept res cs =
     (if \<not> cs_running cs \<or> \<not> http_thread cs then (False, cs)
      else case res of AcceptOk \<Rightarrow> (True, cs) | AcceptClosed \<Rightarrow> (False, cs\<lparr>http_thread := False\<rparr>) | AcceptFailed \<Rightarrow> (False, cs))"

definition ws_accept :: "control_accept \<Rightarrow> ControlServer \<Rightarrow> bool \<times> ControlServer" where
  "ws_accept res cs =
     (if \<not> cs_running cs \<or> \<not> ws_accept_thread cs then (False, cs)
      else case res of AcceptOk \<Rightarrow> (True, cs) | AcceptClosed \<Rightarrow> (False, cs\<lparr>ws_accept_thread := False\<rparr>) | AcceptFailed \<Rightarrow> (False, cs))"

text \<open>A session on the WebSocket port: refused by a response, or a new client when the handshake succeeds.\<close>

definition handle_websocket_session ::
  "request option \<Rightarrow> bool \<Rightarrow> bool \<Rightarrow> control_state \<Rightarrow> response option \<times> control_state" where
  "handle_websocket_session r upgrade handshake = (\<lambda>(cs, m). case r of
     None \<Rightarrow> (None, cs, m)
   | Some req \<Rightarrow>
       if req_target req \<noteq> ''/ws/metrics''
       then (Some (make_json_response 404 (error_json ''WebSocket endpoint not found'') (req_version req) False), cs, m)
       else if \<not> upgrade then (Some (make_json_response 400 (error_json ''Expected WebSocket upgrade'') (req_version req) False), cs, m)
       else if \<not> handshake then (None, cs, m)
       else (None, cs\<lparr>ws_clients := ws_clients cs @ [ws_start new_ws_client], ws_connections := ws_connections cs @ [length (ws_clients cs)]\<rparr>,
             increment_counter ''control_ws_metrics_connections_total'' 1 m))"

section \<open>Broadcast\<close>

definition prune :: "ControlServer \<Rightarrow> ControlServer" where
  "prune cs = cs\<lparr>ws_connections := filter (\<lambda>r. ws_running (ws_clients cs ! r)) (ws_connections cs)\<rparr>"

definition broadcast_to :: "string \<Rightarrow> nat \<Rightarrow> MetricsWsClient list \<times> MetricsCollector \<Rightarrow> MetricsWsClient list \<times> MetricsCollector" where
  "broadcast_to msg r = (\<lambda>(cs, m). case ws_enqueue msg (cs ! r, m) of
     (True, c, m1) \<Rightarrow> (cs[r := c], m1)
   | (False, c, m1) \<Rightarrow> (cs[r := ws_stop c], m1))"

definition metrics_broadcast :: "json_library \<Rightarrow> u64 \<Rightarrow> control_state \<Rightarrow> control_state option" where
  "metrics_broadcast lib now = (\<lambda>(cs, m).
     if \<not> cs_running cs then Some (cs, m)
     else case build_ws_metrics_payload now m of
       None \<Rightarrow> None
     | Some j \<Rightarrow>
         let cs1 = prune cs; (cl, m1) = fold (broadcast_to (lib_dump lib j)) (ws_connections cs1) (ws_clients cs1, m)
         in Some (prune (cs1\<lparr>ws_clients := cl\<rparr>), m1))"

section \<open>Runs\<close>

datatype control_event =
  CStart "listen_call option" "listen_call option"
| CStop
| CHttpAccept control_accept
| CWsAccept control_accept
| CWsSession "request option" bool bool
| CWriter nat bool
| CBroadcast u64

fun control_exec :: "json_library \<Rightarrow> control_event \<Rightarrow> control_state \<Rightarrow> control_state option" where
  "control_exec lib (CStart h ws) (cs, m) = Some (snd (control_start h ws cs), m)"
| "control_exec lib CStop (cs, m) = Some (control_stop cs, m)"
| "control_exec lib (CHttpAccept res) (cs, m) = Some (snd (http_accept res cs), m)"
| "control_exec lib (CWsAccept res) (cs, m) = Some (snd (ws_accept res cs), m)"
| "control_exec lib (CWsSession r up hs) (cs, m) = Some (snd (handle_websocket_session r up hs (cs, m)))"
| "control_exec lib (CWriter r ok) (cs, m) = (if r < length (ws_clients cs)
     then (let (c, m1) = writer_pass ok (ws_clients cs ! r, m) in Some (cs\<lparr>ws_clients := (ws_clients cs)[r := c]\<rparr>, m1)) else Some (cs, m))"
| "control_exec lib (CBroadcast now) (cs, m) = metrics_broadcast lib now (cs, m)"

inductive control_reachable :: "json_library \<Rightarrow> control_state \<Rightarrow> bool" for lib :: json_library where
  init: "control_reachable lib (new_control_server hp wp token, m)"
| step: "control_reachable lib st \<Longrightarrow> control_exec lib e st = Some st' \<Longrightarrow> control_reachable lib st'"

section \<open>Clients of a reachable server\<close>

text \<open>An invariant of one client holds for all clients of the server at all times.\<close>

locale ws_invariant =
  fixes I :: "MetricsWsClient \<Rightarrow> bool"
  assumes fresh: "I (ws_start new_ws_client)"
    and enqueue: "I c \<Longrightarrow> ws_enqueue msg (c, m) = (b, c', m') \<Longrightarrow> I c'"
    and stop: "I c \<Longrightarrow> I (ws_stop c)"
    and writer: "I c \<Longrightarrow> writer_pass ok (c, m) = (c', m') \<Longrightarrow> I c'"
begin

lemma stopped: "\<forall>c \<in> set cs. I c \<Longrightarrow> \<forall>c \<in> set (stop_clients refs cs). I c"
  unfolding stop_clients_def
proof (induction refs arbitrary: cs)
  case (Cons r refs)
  have "\<forall>c \<in> set (cs[r := ws_stop (cs ! r)]). I c" using Cons.prems by (intro list_all_update) (auto intro: stop)
  then show ?case using Cons.IH by simp
qed simp

lemma sent_one:
  assumes "\<forall>c \<in> set cs. I c" "broadcast_to msg r (cs, m) = (cs', m')"
  shows "\<forall>c \<in> set cs'. I c"
proof -
  obtain b c m1 where e: "ws_enqueue msg (cs ! r, m) = (b, c, m1)" by (metis prod.exhaust)
  have "I c" if "r < length cs" using that assms(1) by (intro enqueue [OF _ e]) simp
  then have "\<forall>c \<in> set (cs[r := c]). I c" "\<forall>d \<in> set (cs[r := ws_stop c]). I d"
    using list_all_update [OF assms(1), of r c] list_all_update [OF assms(1), of r "ws_stop c"] stop by blast+
  then show ?thesis using assms(2) e by (auto simp: broadcast_to_def split: bool.splits)
qed

lemma sent_all: "\<forall>c \<in> set cs. I c \<Longrightarrow> \<forall>c \<in> set (fst (fold (broadcast_to msg) refs (cs, m))). I c"
proof (induction refs arbitrary: cs m)
  case (Cons r refs)
  obtain cs1 m1 where "broadcast_to msg r (cs, m) = (cs1, m1)" by fastforce
  then show ?case using Cons.IH [OF sent_one [OF Cons.prems]] by simp
qed simp

lemma started: "\<forall>c \<in> set (ws_clients cs). I c \<Longrightarrow> \<forall>c \<in> set (ws_clients (snd (control_start h ws cs))). I c"
  by (auto simp: control_start_def start_metrics_websocket_def control_stop_def Let_def stopped split: option.splits)

lemma kept:
  assumes "control_exec lib e (cs, m) = Some (cs', m')" "\<forall>c \<in> set (ws_clients cs). I c"
  shows "\<forall>c \<in> set (ws_clients cs'). I c"
proof (cases e)
  case (CStart h ws)
  then show ?thesis using assms started by auto
next
  case CStop
  then show ?thesis using assms stopped [OF assms(2)] by (auto simp: control_stop_def split: if_splits)
next
  case (CHttpAccept res)
  then show ?thesis using assms by (auto simp: http_accept_def split: control_accept.splits if_splits)
next
  case (CWsAccept res)
  then show ?thesis using assms by (auto simp: ws_accept_def split: control_accept.splits if_splits)
next
  case (CWsSession r up hs)
  then show ?thesis using assms fresh by (auto simp: handle_websocket_session_def split: option.splits if_splits)
next
  case (CWriter r ok)
  show ?thesis
  proof (cases "r < length (ws_clients cs)")
    case True
    obtain c m1 where w: "writer_pass ok (ws_clients cs ! r, m) = (c, m1)" by fastforce
    have "I c" using True assms(2) by (intro writer [OF _ w]) simp
    then show ?thesis using assms CWriter True w list_all_update [of "ws_clients cs" I r c] by auto
  qed (use assms CWriter in auto)
next
  case (CBroadcast now)
  then show ?thesis using assms sent_all
    by (auto simp: metrics_broadcast_def prune_def Let_def case_prod_beta split: if_splits option.splits)
qed

lemma reachable: "control_reachable lib st \<Longrightarrow> \<forall>c \<in> set (ws_clients (fst st)). I c"
proof (induction rule: control_reachable.induct)
  case (step st e st')
  then show ?case using kept by (cases st; cases st') auto
qed (simp add: new_control_server_def)

end

definition ws_ok :: "MetricsWsClient \<Rightarrow> bool" where
  "ws_ok c \<longleftrightarrow> length (pending_messages c) \<le> max_pending_messages \<and> (ws_running c \<longrightarrow> ws_writer c \<and> ws_open c) \<and> (ws_open c \<longrightarrow> ws_writer c)"

lemmas ws_client_defs = ws_enqueue_def ws_stop_def writer_pass_def ws_start_def new_ws_client_def

interpretation ws_bounded: ws_invariant ws_ok
proof unfold_locales
  show "ws_ok (ws_start new_ws_client)" by (simp add: ws_ok_def ws_client_defs)
  show "ws_ok c'" if "ws_ok c" "ws_enqueue msg (c, m) = (b, c', m')" for c msg m b c' m'
    using that by (auto simp: ws_ok_def ws_enqueue_def max_pending_messages_def split: if_splits)
  show "ws_ok (ws_stop c)" if "ws_ok c" for c using that by (auto simp: ws_ok_def ws_stop_def)
  show "ws_ok c'" if "ws_ok c" "writer_pass ok (c, m) = (c', m')" for c ok m c' m'
    using that by (auto simp: ws_ok_def writer_pass_def split: if_splits list.splits)
qed

section \<open>The messages of one client\<close>

datatype ws_op = OEnqueue string | OWrite bool | OStop

text \<open>The client after some operations, and the messages its queue has accepted.\<close>

fun ws_run :: "ws_op list \<Rightarrow> ws_state \<Rightarrow> string list \<Rightarrow> ws_state \<times> string list" where
  "ws_run [] st acc = (st, acc)"
| "ws_run (OEnqueue msg # ops) st acc = (case ws_enqueue msg st of (ok, st1) \<Rightarrow> ws_run ops st1 (if ok then acc @ [msg] else acc))"
| "ws_run (OWrite ok # ops) st acc = ws_run ops (writer_pass ok st) acc"
| "ws_run (OStop # ops) (c, m) acc = ws_run ops (ws_stop c, m) acc"

lemma subseq_drop_middle: "subseq (xs @ y # ys) zs \<Longrightarrow> subseq (xs @ ys) zs"
  by (meson subseq_append_iff subseq_append_le_same_iff list_emb_append_mono subseq_order.refl subseq_order.trans subseq_Cons')

lemma subseq_snoc: "subseq xs ys \<Longrightarrow> subseq (xs @ [x]) (ys @ [x])"
  by simp

lemma ws_run_stream:
  assumes "ws_run ops (c, m) acc = ((c', m'), acc')" "subseq (ws_sent c @ pending_messages c) acc"
  shows "subseq (ws_sent c' @ pending_messages c') acc'"
  using assms
proof (induction ops arbitrary: c m acc)
  case (Cons op ops)
  show ?case
  proof (cases op)
    case (OEnqueue msg)
    obtain b c1 m1 where e: "ws_enqueue msg (c, m) = (b, c1, m1)" by (metis prod.exhaust)
    have "subseq (ws_sent c1 @ pending_messages c1) (if b then acc @ [msg] else acc)"
      using e Cons.prems(2) subseq_drop_middle [of "ws_sent c" "hd (pending_messages c)" "tl (pending_messages c)" acc]
        subseq_snoc [of "ws_sent c @ pending_messages c" acc msg] subseq_snoc [of "ws_sent c @ tl (pending_messages c)" acc msg]
      by (cases "pending_messages c") (auto simp: ws_enqueue_def max_pending_messages_def split: if_splits)
    then show ?thesis using Cons.IH Cons.prems(1) OEnqueue e by auto
  next
    case (OWrite ok)
    obtain c1 m1 where w: "writer_pass ok (c, m) = (c1, m1)" by fastforce
    have "subseq (ws_sent c1 @ pending_messages c1) acc"
      using w Cons.prems(2) subseq_drop_middle [of "ws_sent c" "hd (pending_messages c)" "tl (pending_messages c)" acc]
      by (auto simp: writer_pass_def split: if_splits list.splits)
    then show ?thesis using Cons.IH Cons.prems(1) OWrite w by auto
  next
    case OStop
    then show ?thesis using Cons by (auto simp: ws_stop_def split: if_splits)
  qed
qed simp

lemma ws_run_ok: "ws_run ops (c, m) acc = ((c', m'), acc') \<Longrightarrow> ws_ok c \<Longrightarrow> ws_ok c'"
proof (induction ops arbitrary: c m acc)
  case (Cons op ops)
  show ?case
  proof (cases op)
    case (OEnqueue msg)
    obtain b c1 m1 where e: "ws_enqueue msg (c, m) = (b, c1, m1)" by (metis prod.exhaust)
    then show ?thesis using Cons.IH Cons.prems OEnqueue ws_bounded.enqueue [OF Cons.prems(2) e] by auto
  next
    case (OWrite ok)
    obtain c1 m1 where w: "writer_pass ok (c, m) = (c1, m1)" by fastforce
    then show ?thesis using Cons.IH Cons.prems OWrite ws_bounded.writer [OF Cons.prems(2) w] by auto
  next
    case OStop
    then show ?thesis using Cons ws_bounded.stop by auto
  qed
qed simp

lemma ws_run_fill:
  "ws_running c \<Longrightarrow> length (pending_messages c) \<le> max_pending_messages \<Longrightarrow>
   \<exists>m'. ws_run (map OEnqueue msgs) (c, m) acc = ((c\<lparr>pending_messages := drop (length (pending_messages c) + length msgs - max_pending_messages) (pending_messages c @ msgs)\<rparr>, m'), acc @ msgs)"
proof (induction msgs arbitrary: c m acc)
  case (Cons msg msgs)
  let ?p = "drop (length (pending_messages c) + 1 - max_pending_messages) (pending_messages c @ [msg])"
  have "\<exists>m1. ws_enqueue msg (c, m) = (True, c\<lparr>pending_messages := ?p\<rparr>, m1)"
  proof (cases "length (pending_messages c) = max_pending_messages")
    case True
    then have "?p = tl (pending_messages c) @ [msg]" by (simp add: drop_Suc max_pending_messages_def)
    then show ?thesis using True Cons.prems(1) by (simp add: ws_enqueue_def)
  next
    case False
    then show ?thesis using Cons.prems by (simp add: ws_enqueue_def)
  qed
  then obtain m1 where e: "ws_enqueue msg (c, m) = (True, c\<lparr>pending_messages := ?p\<rparr>, m1)" by blast
  have "drop (length ?p + length msgs - max_pending_messages) (?p @ msgs)
      = drop (length (pending_messages c) + length (msg # msgs) - max_pending_messages) (pending_messages c @ msg # msgs)"
    using Cons.prems(2) by (cases "length (pending_messages c) = 64") (auto simp: max_pending_messages_def drop_append not_le)
  then show ?case using Cons.IH [of "c\<lparr>pending_messages := ?p\<rparr>" m1 "acc @ [msg]"] Cons.prems e by (auto simp: max_pending_messages_def)
qed simp

section \<open>Properties\<close>

text \<open>
  C11: the metrics stream of a WebSocket client. However enqueues, writes and stops interleave, at most 64
  messages are pending, and what has been written followed by what is pending is a subsequence of the
  accepted messages, in their order; and a client that is not served keeps exactly the last 64 of them.
\<close>

theorem ws_client_stream:
  shows "(ws_run ops (ws_start new_ws_client, m) [] = ((c', m'), acc) \<longrightarrow>
      length (pending_messages c') \<le> 64 \<and> subseq (ws_sent c' @ pending_messages c') acc)
    \<and> (\<exists>m2. ws_run (map OEnqueue msgs) (ws_start new_ws_client, m) []
      = (((ws_start new_ws_client)\<lparr>pending_messages := drop (length msgs - 64) msgs\<rparr>, m2), msgs))"
proof
  show "ws_run ops (ws_start new_ws_client, m) [] = ((c', m'), acc) \<longrightarrow>
      length (pending_messages c') \<le> 64 \<and> subseq (ws_sent c' @ pending_messages c') acc"
    using ws_run_ok [of ops "ws_start new_ws_client" m "[]" c' m' acc] ws_run_stream [of ops "ws_start new_ws_client" m "[]" c' m' acc] ws_bounded.fresh
    by (simp add: ws_ok_def max_pending_messages_def ws_start_def new_ws_client_def)
  show "\<exists>m2. ws_run (map OEnqueue msgs) (ws_start new_ws_client, m) []
      = (((ws_start new_ws_client)\<lparr>pending_messages := drop (length msgs - 64) msgs\<rparr>, m2), msgs)"
    using ws_run_fill [of "ws_start new_ws_client" msgs m "[]"] by (simp add: ws_start_def new_ws_client_def max_pending_messages_def)
qed

theorem ws_client_stream_witness:
  "\<exists>c' m' acc. ws_run [OEnqueue ''a'', OEnqueue ''b'', OWrite True, OWrite False] (ws_start new_ws_client, no_metrics) [] = ((c', m'), acc)
     \<and> ws_sent c' = [''a''] \<and> length (pending_messages c') \<le> 64 \<and> subseq (ws_sent c' @ pending_messages c') acc"
proof -
  obtain c' m' acc where r: "ws_run [OEnqueue ''a'', OEnqueue ''b'', OWrite True, OWrite False] (ws_start new_ws_client, no_metrics) [] = ((c', m'), acc)"
    "ws_sent c' = [''a'']"
    by (simp add: ws_client_defs max_pending_messages_def)
  show ?thesis using ws_client_stream [of "[OEnqueue ''a'', OEnqueue ''b'', OWrite True, OWrite False]" no_metrics c' m' acc "[]"] r by blast
qed

text \<open>
  Starting the control server is all or nothing. Either no exception is thrown and both listeners
  and all three threads are up, or one of the eight calls failed and nothing is left running; and the
  clients of every reachable server are bounded, and running ones have a writer and an open socket.
\<close>

theorem control_start_all_or_nothing:
  assumes "control_reachable lib (cs, m)" "control_start http_res ws_res cs = (e, cs')" "\<not> cs_running cs"
  shows "(e = None \<longleftrightarrow> http_res = None \<and> ws_res = None)
    \<and> (e = None \<longrightarrow> cs_running cs' \<and> http_listening cs' \<and> http_thread cs' \<and> ws_listening cs' \<and> ws_accept_thread cs' \<and> metrics_thread cs')
    \<and> (e \<noteq> None \<longrightarrow> \<not> cs_running cs' \<and> \<not> http_listening cs' \<and> \<not> http_thread cs' \<and> \<not> ws_listening cs' \<and> \<not> ws_accept_thread cs' \<and> \<not> metrics_thread cs')
    \<and> (\<forall>c \<in> set (ws_clients cs'). ws_ok c)"
proof -
  have "\<forall>c \<in> set (ws_clients cs'). ws_ok c" using ws_bounded.started [of cs http_res ws_res] ws_bounded.reachable [OF assms(1)] assms(2) by simp
  then show ?thesis using assms(2,3)
    by (auto simp: control_start_def start_metrics_websocket_def control_stop_def Let_def split: option.splits)
qed

theorem control_start_all_or_nothing_witness:
  "\<exists>e cs'. control_start None (Some LBind) (new_control_server 8080 8080 ''t'') = (Some e, cs') \<and> \<not> http_listening cs' \<and> \<not> http_thread cs'"
proof -
  obtain e cs' where s: "control_start None (Some LBind) (new_control_server 8080 8080 ''t'') = (e, cs')" by fastforce
  have "\<not> cs_running (new_control_server 8080 8080 ''t'')" by (simp add: new_control_server_def)
  from control_start_all_or_nothing [OF control_reachable.init [of example_lib 8080 8080 "''t''" no_metrics] s this] s show ?thesis by auto
qed

end
