(* ===== verification/Market_Core.thy ===== *)
theory Market_Core
  imports Config Normalizer Control_Server Recorder_Progress
begin

text \<open>
  \<open>MarketDataCore\<close> of \<open>main_core.cpp\<close>: the components, the queues between them, the distribution thread
  and the start and stop of the whole. A queue is the list of all that was put into it together with how
  much has been taken; the queue of frames is one such list per producing worker, since the queue keeps
  the order of each producer only, and a frame carries the number of its worker along. The threads are
  the steps of \<open>core_exec\<close>; the metrics are shared by all.
\<close>

section \<open>State\<close>

record MarketDataCore =
  co_config :: Config
  co_feed :: MockFeed
  co_plan :: "(RawType \<times> string) list"  \<comment> \<open>what the feed's thread still generates in its pass\<close>
  co_norm :: Normalizer
  co_pub :: PubServer
  co_rec :: Recorder
  co_rec_env :: rec_env
  co_replayer :: Replayer
  co_control :: ControlServer
  co_env :: bp_env
  co_running :: bool
  co_shutdown :: bool
  distribution_thread :: bool
  co_taken :: "nat list"  \<comment> \<open>frames taken from each worker\<close>
  co_batch :: "(nat \<times> Frame) list"
  co_batch_size :: nat
  co_publishing :: "publication option"  \<comment> \<open>inside \<open>publish\<close>\<close>
  co_published :: bool  \<comment> \<open>the head of the batch has been published\<close>
  co_rec_queue :: "(nat \<times> Frame) list"
  co_rec_taken :: nat
  rec_backpressure :: QueueBackpressureController
  update_counter :: u64

text \<open>Random draws of the feed's constructor and the surroundings of the recorder are arguments.\<close>

definition setup_components :: "Config \<Rightarrow> (nat \<Rightarrow> double list) \<Rightarrow> rec_env \<Rightarrow> bp_env \<Rightarrow> MarketDataCore" where
  "setup_components cfg draws renv env =
     (let high = q_high_watermark (cfg_queue cfg); low = q_low_watermark (cfg_queue cfg);
          (feed, env1) = new_feed (default_symbols (feeds cfg)) high low draws env;
          (norm, env2) = new_normalizer new_registry (normalizer_threads (pipeline cfg)) high low env1;
          recd = new_recorder (stor_dir (storage cfg)) (stor_roll_bytes (storage cfg)) (stor_index_interval (storage cfg)) (recorder_fsync_ms (pipeline cfg));
          (pub, env3) = new_server (sec_token (security cfg)) high low env2;
          (bp, env4) = new_controller ''distributor_to_recorder'' high low env3
      in \<lparr>co_config = cfg, co_feed = feed, co_plan = [], co_norm = norm, co_pub = pub, co_rec = recd, co_rec_env = renv,
          co_replayer = new_replayer (stor_dir (storage cfg)) (Some new_registry),
          co_control = new_control_server (ctrl_http_port (network cfg)) (ws_metrics_port (network cfg)) (sec_token (security cfg)),
          co_env = env4, co_running = False, co_shutdown = False, distribution_thread = False, co_taken = replicate (unat (worker_count norm)) 0,
          co_batch = [], co_batch_size = 0, co_publishing = None, co_published = False, co_rec_queue = [], co_rec_taken = 0,
          rec_backpressure = bp, update_counter = 0\<rparr>)"

section \<open>Topics\<close>

fun topic_kind :: "FrameBody \<Rightarrow> string" where
  "topic_kind (BL1 b) = ''l1''"
| "topic_kind (BL2 b) = ''l2''"
| "topic_kind (BTrade b) = ''trade''"
| "topic_kind _ = ''other''"

definition generate_topic :: "SymbolRegistry \<Rightarrow> Frame \<Rightarrow> string" where
  "generate_topic r frame =
     (let s = by_id r (frame_symbol (body frame)) in topic_kind (body frame) @ ''.'' @ (if s = [] then ''UNKNOWN'' else s))"

section \<open>Feed\<close>

definition with_feed :: "(feed_state \<Rightarrow> feed_state option) \<Rightarrow> MarketDataCore \<Rightarrow> MarketDataCore option" where
  "with_feed f c = map_option (\<lambda>(feed, env). c\<lparr>co_feed := feed, co_env := env\<rparr>) (f (co_feed c, co_env c))"

text \<open>The feed's loop, one event at a time: a pass is planned, its events are generated and go into the normalizer's queue.\<close>

definition pass_end :: "double \<Rightarrow> MarketDataCore \<Rightarrow> MarketDataCore" where
  "pass_end elapsed c = (if co_plan c = [] \<and> elapsed > 0
     then c\<lparr>co_env := bp_gauge ''ingestion_rate'' (ddiv (double_of_nat (unat (total_events (feed_stats (co_feed c))))) elapsed) (co_env c)\<rparr> else c)"

definition pass_begin :: "u64 \<Rightarrow> double \<Rightarrow> MarketDataCore \<Rightarrow> MarketDataCore" where
  "pass_begin now elapsed c =
     (if \<not> feed_running (co_feed c) \<or> co_plan c \<noteq> [] then c
      else let m = update_burst now (co_feed c); mult = (if burst_mode m then 10 else 1)
           in pass_end elapsed (c\<lparr>co_feed := m, co_plan := tick_plan (feed_symbols m) (l1_rate m * mult) (l2_rate m * mult) (trade_rate m * mult)\<rparr>))"

definition pass_event :: "draw \<Rightarrow> double \<Rightarrow> MarketDataCore \<Rightarrow> MarketDataCore option" where
  "pass_event d elapsed c = (case co_plan c of
     [] \<Rightarrow> Some c
   | (ty, symb) # plan \<Rightarrow>
       (case generate_event ty symb d (co_feed c, co_env c) of
          None \<Rightarrow> None
        | Some (m, env) \<Rightarrow>
            let new = drop (length (feed_queue (co_feed c))) (feed_queue m)
            in Some (pass_end elapsed (c\<lparr>co_feed := m, co_env := env, co_plan := plan, co_norm := (co_norm c)\<lparr>n_input := n_input (co_norm c) @ new\<rparr>\<rparr>))))"

section \<open>Distribution\<close>

definition take_frame :: "nat \<Rightarrow> MarketDataCore \<Rightarrow> MarketDataCore" where
  "take_frame i c = (if i < length (n_output (co_norm c)) \<and> co_taken c ! i < length (n_output (co_norm c) ! i) \<and> length (co_batch c) < 100
     then c\<lparr>co_batch := co_batch c @ [(i, n_output (co_norm c) ! i ! (co_taken c ! i))], co_taken := (co_taken c)[i := Suc (co_taken c ! i)]\<rparr> else c)"

text \<open>One batch: \<open>workers\<close> is the order in which the queue serves its producers.\<close>

definition dist_dequeue :: "nat list \<Rightarrow> MarketDataCore \<Rightarrow> MarketDataCore" where
  "dist_dequeue workers c =
     (if \<not> distribution_thread c \<or> \<not> co_running c \<or> co_batch c \<noteq> [] then c
      else let c1 = fold take_frame workers c in c1\<lparr>co_batch_size := length (co_batch c1)\<rparr>)"

definition dist_exit :: "MarketDataCore \<Rightarrow> MarketDataCore" where
  "dist_exit c = (if \<not> co_running c \<and> co_batch c = [] then c\<lparr>distribution_thread := False\<rparr> else c)"

definition dist_publish_begin :: "u64 \<Rightarrow> MarketDataCore \<Rightarrow> MarketDataCore" where
  "dist_publish_begin now c = (case co_batch c of
     [] \<Rightarrow> c
   | (i, frame) # rest \<Rightarrow>
       if co_published c \<or> co_publishing c \<noteq> None then c
       else (case publish_begin (generate_topic (n_registry (co_norm c)) frame) frame now (co_pub c) of
         None \<Rightarrow> c\<lparr>co_published := True\<rparr>
       | Some (p, s) \<Rightarrow> c\<lparr>co_publishing := Some p, co_pub := s\<rparr>))"

definition dist_publish_end :: "(bool \<times> nat) list \<Rightarrow> double \<Rightarrow> u64 \<Rightarrow> MarketDataCore \<Rightarrow> MarketDataCore option" where
  "dist_publish_end rounds elapsed now c = (case co_publishing c of
     None \<Rightarrow> Some c
   | Some p \<Rightarrow> map_option (\<lambda>(s, env). c\<lparr>co_publishing := None, co_published := True, co_pub := s, co_env := env\<rparr>)
       (publish_end p rounds elapsed now (co_pub c, co_env c)))"

definition norm_queue_depth :: "MarketDataCore \<Rightarrow> nat" where
  "norm_queue_depth c = sum_list (map length (n_output (co_norm c))) - sum_list (co_taken c)"

definition rec_queue_depth :: "MarketDataCore \<Rightarrow> nat" where
  "rec_queue_depth c = length (co_rec_queue c) - co_rec_taken c"

definition batch_end :: "MarketDataCore \<Rightarrow> MarketDataCore" where
  "batch_end c =
     (let env = (co_env c)\<lparr>metrics := increment_counter ''frame_distribution_total'' (of_nat (co_batch_size c)) (metrics (co_env c))\<rparr>;
          n = update_counter c + 1
      in c\<lparr>update_counter := n, co_env := (if n mod 100 = 0
           then bp_gauge ''pipeline_normalizer_to_recorder_queue_approx'' (double_of_nat (rec_queue_depth c))
             (bp_gauge ''pipeline_normalizer_to_publisher_queue_approx'' (double_of_nat (norm_queue_depth c))
               (bp_gauge ''pipeline_feed_queue_approx'' (double_of_nat (length (n_input (co_norm c)))) env))
           else env)\<rparr>)"

definition dist_enqueue :: "(bool \<times> nat) list \<Rightarrow> MarketDataCore \<Rightarrow> MarketDataCore option" where
  "dist_enqueue rounds c = (case co_batch c of
     [] \<Rightarrow> Some c
   | tf # rest \<Rightarrow>
       if \<not> co_published c then Some c
       else (case wait_for_capacity (rec_queue_depth c) rounds (rec_backpressure c, co_env c) of
         None \<Rightarrow> None
       | Some (_, bp, env) \<Rightarrow>
           let c1 = c\<lparr>rec_backpressure := bp, co_env := env, co_rec_queue := co_rec_queue c @ [tf], co_batch := rest, co_published := False\<rparr>
           in Some (if rest = [] then batch_end c1 else c1)))"

section \<open>Recorder, normalizer, publisher, replay and control\<close>

definition with_recorder :: "(rec_state \<Rightarrow> ('a \<times> rec_state) option) \<Rightarrow> MarketDataCore \<Rightarrow> ('a \<times> MarketDataCore) option" where
  "with_recorder f c = map_option
     (\<lambda>(x, r, e). (x, c\<lparr>co_rec := r, co_rec_env := e, co_env := (co_env c)\<lparr>metrics := rmetrics e\<rparr>\<rparr>))
     (f (co_rec c, (co_rec_env c)\<lparr>rmetrics := metrics (co_env c)\<rparr>))"

text \<open>One pass of the recording thread over what is in the queue.\<close>

definition rec_pass :: "MarketDataCore \<Rightarrow> MarketDataCore option" where
  "rec_pass c = (if \<not> rec_running (co_rec c) then Some c
     else map_option (\<lambda>(rest, c1). c1\<lparr>co_rec_taken := length (co_rec_queue c) - length rest\<rparr>)
       (with_recorder (recording_pass (map snd (drop (co_rec_taken c) (co_rec_queue c)))) c))"

definition with_norm :: "(norm_state \<Rightarrow> norm_state option) \<Rightarrow> MarketDataCore \<Rightarrow> MarketDataCore option" where
  "with_norm f c = map_option (\<lambda>(n, env). c\<lparr>co_norm := n, co_env := env\<rparr>) (f (co_norm c, co_env c))"

text \<open>Connections, writers and heartbeats of the publisher.\<close>

definition with_pub :: "regex_engine \<Rightarrow> json_parser \<Rightarrow> pub_event \<Rightarrow> MarketDataCore \<Rightarrow> MarketDataCore option" where
  "with_pub rx parse e c = map_option (\<lambda>st. c\<lparr>co_pub := fst (server st), co_env := snd (server st)\<rparr>)
     (pub_exec rx parse e \<lparr>server = (co_pub c, co_env c), in_flight = []\<rparr>)"

definition with_replay :: "files \<Rightarrow> pub_inputs \<Rightarrow> string \<Rightarrow> MarketDataCore \<Rightarrow> MarketDataCore option" where
  "with_replay dk i sid c = map_option (\<lambda>(rp, s, env). c\<lparr>co_replayer := rp, co_pub := s, co_env := env\<rparr>)
     (playback_pass dk i sid ((co_replayer c)\<lparr>rp_registry := Some (n_registry (co_norm c))\<rparr>, co_pub c, co_env c))"

definition world_of :: "MarketDataCore \<Rightarrow> control_world" where
  "world_of c = \<lparr>cw_feed = Some (co_feed c), cw_replayer = Some (co_replayer c), cw_pub = co_pub c, cw_has_pub = True,
     cw_registry = Some (n_registry (co_norm c)), cw_metrics = metrics (co_env c)\<rparr>"

definition with_world :: "control_world \<Rightarrow> MarketDataCore \<Rightarrow> MarketDataCore" where
  "with_world w c = c\<lparr>co_feed := (case cw_feed w of None \<Rightarrow> co_feed c | Some m \<Rightarrow> m),
     co_replayer := (case cw_replayer w of None \<Rightarrow> co_replayer c | Some rp \<Rightarrow> rp), co_pub := cw_pub w,
     co_env := (co_env c)\<lparr>metrics := cw_metrics w\<rparr>\<rparr>"

definition core_request :: "json_library \<Rightarrow> string \<Rightarrow> control_inputs \<Rightarrow> request option \<Rightarrow> MarketDataCore \<Rightarrow> (response option \<times> MarketDataCore) option" where
  "core_request lib pw ci r c = map_option (\<lambda>(res, w). (res, with_world w c)) (handle_http_session lib pw ci r (world_of c))"

definition with_control :: "json_library \<Rightarrow> control_event \<Rightarrow> MarketDataCore \<Rightarrow> MarketDataCore option" where
  "with_control lib e c = map_option (\<lambda>(cs, m). c\<lparr>co_control := cs, co_env := (co_env c)\<lparr>metrics := m\<rparr>\<rparr>)
     (control_exec lib e (co_control c, metrics (co_env c)))"

section \<open>Start and stop\<close>

text \<open>
  \<open>stop\<close> clears the flag and stops the feed; it goes on when the distribution thread has ended
  (\<open>dist_exit\<close>). The flag \<open>running_\<close> of the waiting loops is the same flag.
\<close>

definition core_stop_begin :: "MarketDataCore \<Rightarrow> MarketDataCore" where
  "core_stop_begin c = c\<lparr>co_running := False, co_feed := feed_stop (co_feed c)\<rparr>"

definition core_stop_end :: "MarketDataCore \<Rightarrow> MarketDataCore option" where
  "core_stop_end c = (if distribution_thread c then None
     else case with_recorder (\<lambda>st. map_option (Pair ()) (rec_stop st)) c of
       None \<Rightarrow> None
     | Some (_, c1) \<Rightarrow>
         let (pub, env) = server_stop (co_pub c1, co_env c1)
         in Some (c1\<lparr>co_pub := pub, co_env := env, co_norm := norm_stop (co_norm c1), co_control := control_stop (co_control c1), co_shutdown := True\<rparr>))"

text \<open>The whole \<open>stop\<close> when the distributor is between two batches.\<close>

definition core_stop :: "MarketDataCore \<Rightarrow> MarketDataCore option" where
  "core_stop c = core_stop_end (dist_exit (core_stop_begin c))"

text \<open>\<open>Normalizer::start\<close>; a stop before it has joined all threads.\<close>

definition restart :: "Normalizer \<Rightarrow> Normalizer" where
  "restart n = (if n_running n \<or> norm_joined n then norm_start n else n)"

text \<open>
  \<open>start\<close>: only the control server may fail, and then what was started is stopped again and the message
  is thrown on.
\<close>

definition core_start :: "listen_call option \<Rightarrow> listen_call option \<Rightarrow> MarketDataCore \<Rightarrow> (string option \<times> MarketDataCore) option" where
  "core_start http_res ws_res c =
     (if co_running c then Some (None, c)
      else let (pub, env) = server_start (co_pub c, co_env c);
               c1 = c\<lparr>co_running := True, distribution_thread := True, co_norm := restart (co_norm c), co_pub := pub, co_env := env,
                      co_rec := snd (rec_start (co_rec c))\<rparr>
           in case control_start http_res ws_res (co_control c1) of
                (Some e, cs) \<Rightarrow> map_option (Pair (Some (''System startup failed: '' @ e))) (core_stop (c1\<lparr>co_control := cs\<rparr>))
              | (None, cs) \<Rightarrow> Some (None, c1\<lparr>co_control := cs, co_feed := feed_start (co_feed c1)\<rparr>))"

definition request_shutdown :: "MarketDataCore \<Rightarrow> MarketDataCore" where
  "request_shutdown c = c\<lparr>co_shutdown := True\<rparr>"

definition validate_health :: "MarketDataCore \<Rightarrow> string option" where
  "validate_health c = (if \<not> co_running c then Some ''System is not running'' else None)"

section \<open>Runs\<close>

record core_library =
  cl_regex :: regex_engine
  cl_json :: json_library
  cl_hash :: "string \<Rightarrow> u64"

datatype core_event =
  KStart "listen_call option" "listen_call option"
| KStopBegin
| KStopEnd
| KPass u64 double
| KFeed draw double
| KNorm norm_event
| KDequeue "nat list"
| KDistExit
| KPublishBegin u64
| KPublishEnd "(bool \<times> nat) list" double u64
| KEnqueue "(bool \<times> nat) list"
| KRecord
| KPub pub_event
| KReplay files pub_inputs string
| KRequest string control_inputs "request option"
| KControl control_event
| KShutdown

text \<open>Input of the normalizer comes from the feed, publications from the distributor and the replayer.\<close>

fun foreign :: "core_event \<Rightarrow> bool" where
  "foreign (KNorm (NInput ev)) = True"
| "foreign (KNorm NStart) = True"
| "foreign (KNorm NStop) = True"
| "foreign (KPub (EPublishBegin t f now)) = True"
| "foreign (KPub EStart) = True"
| "foreign (KPub EStop) = True"
| "foreign (KControl (CStart h ws)) = True"
| "foreign (KControl CStop) = True"
| "foreign _ = False"

fun core_step :: "core_library \<Rightarrow> core_event \<Rightarrow> MarketDataCore \<Rightarrow> MarketDataCore option" where
  "core_step lib (KStart h ws) c = map_option snd (core_start h ws c)"
| "core_step lib KStopBegin c = Some (core_stop_begin c)"
| "core_step lib KStopEnd c = (if co_running c \<or> distribution_thread c then Some c else core_stop_end c)"
| "core_step lib (KPass now elapsed) c = Some (pass_begin now elapsed c)"
| "core_step lib (KFeed d elapsed) c = pass_event d elapsed c"
| "core_step lib (KNorm e) c = with_norm (norm_exec (cl_hash lib) e) c"
| "core_step lib (KDequeue workers) c = Some (dist_dequeue workers c)"
| "core_step lib KDistExit c = Some (dist_exit c)"
| "core_step lib (KPublishBegin now) c = Some (dist_publish_begin now c)"
| "core_step lib (KPublishEnd rounds elapsed now) c = dist_publish_end rounds elapsed now c"
| "core_step lib (KEnqueue rounds) c = dist_enqueue rounds c"
| "core_step lib KRecord c = rec_pass c"
| "core_step lib (KPub e) c = with_pub (cl_regex lib) (parsed \<circ> lib_parse (cl_json lib)) e c"
| "core_step lib (KReplay dk i sid) c = with_replay dk i sid c"
| "core_step lib (KRequest pw ci r) c = map_option snd (core_request (cl_json lib) pw ci r c)"
| "core_step lib (KControl e) c = with_control (cl_json lib) e c"
| "core_step lib KShutdown c = Some (request_shutdown c)"

definition core_exec :: "core_library \<Rightarrow> core_event \<Rightarrow> MarketDataCore \<Rightarrow> MarketDataCore option" where
  "core_exec lib e c = (if foreign e then Some c else core_step lib e c)"

fun core_run :: "core_library \<Rightarrow> core_event list \<Rightarrow> MarketDataCore \<Rightarrow> MarketDataCore option" where
  "core_run lib [] c = Some c"
| "core_run lib (e # es) c = (case core_exec lib e c of None \<Rightarrow> None | Some c1 \<Rightarrow> core_run lib es c1)"

end
