(* ===== verification/Core_Order.thy ===== *)
theory Core_Order
  imports Market_Core
begin

text \<open>
  The invariant of the whole pipeline, kept by every step of every thread: what the distributor has
  taken from a worker is a prefix of what the worker has output, and it is passed on in that order.
  The end-to-end properties of the root theory rest on it.
\<close>

section \<open>Outputs only grow\<close>

lemma norm_exec_output:
  assumes "norm_exec hash e (n, env) = Some (n', env')"
  shows "\<exists>xs. n_output n' ! i = n_output n ! i @ xs"
proof (cases "\<exists>j w. e = NWork j w")
  case True
  then obtain j w where e: "e = NWork j w" by blast
  show ?thesis
  proof (cases "j < unat (worker_count n) \<and> work_batches n ! j \<noteq> []")
    case True
    then obtain ev rest where b: "work_batches n ! j = ev # rest" by (meson neq_Nil_conv)
    obtain res r n1 env1 where "normalize_event (wi_ind w) ev (n_registry n) = Some (res, r)" and n': "n_output n' = n_output n1"
      and n1: "(case res of Inl _ \<Rightarrow> Some (norm_error [''normalizer_errors_total'', ''normalizer_failures_total'', ''dropped_frames'']
          (n\<lparr>n_registry := r, work_batches := (work_batches n)[j := rest]\<rparr>, env))
        | Inr frame \<Rightarrow> output_frame j w frame (n\<lparr>n_registry := r, work_batches := (work_batches n)[j := rest]\<rparr>, env)) = Some (n1, env1)"
      using assms e True b by (auto simp: work_next_def batch_metrics_def Let_def bind_eq_Some_conv split: option.splits if_splits)
    have "\<exists>xs. n_output n1 ! i = n_output n ! i @ xs"
      using n1 by (cases "i = j"; cases "j < length (n_output n)")
        (auto simp: output_frame_def norm_error_def Let_def list_update_beyond split: sum.splits option.splits if_splits)
    then show ?thesis using n' by simp
  qed (use assms e in \<open>auto simp: work_next_def split: if_splits\<close>)
next
  case False
  then have "n_output n' = n_output n" using assms
    by (cases e) (auto simp: norm_start_def norm_stop_def route_exit_def work_exit_def route_dequeue_def work_dequeue_def route_next_def Let_def
        split: if_splits list.splits option.splits)
  then show ?thesis by simp
qed

section \<open>The invariant\<close>

definition routed :: "MarketDataCore \<Rightarrow> (nat \<times> Frame) list" where
  "routed c = co_rec_queue c @ co_batch c"

definition from_worker :: "nat \<Rightarrow> (nat \<times> Frame) list \<Rightarrow> Frame list" where
  "from_worker i q = map snd (filter (\<lambda>t. fst t = i) q)"

lemma from_worker_append [simp]: "from_worker i (q @ r) = from_worker i q @ from_worker i r"
  by (simp add: from_worker_def)

lemma from_worker_one [simp]: "from_worker i [(j, f)] = (if i = j then [f] else [])"
  by (simp add: from_worker_def)

definition taken_ok :: "Normalizer \<Rightarrow> nat list \<Rightarrow> (nat \<times> Frame) list \<Rightarrow> bool" where
  "taken_ok n taken q \<longleftrightarrow> length taken = unat (worker_count n) \<and> (\<forall>t \<in> set q. fst t < unat (worker_count n))
     \<and> (\<forall>i < unat (worker_count n). taken ! i \<le> length (n_output n ! i) \<and> from_worker i q = take (taken ! i) (n_output n ! i))"

definition feed_part :: "(string \<Rightarrow> u64) \<Rightarrow> MockFeed \<Rightarrow> (RawType \<times> string) list \<Rightarrow> Normalizer \<Rightarrow> bool" where
  "feed_part hash m plan n \<longleftrightarrow> feed_ok m \<and> norm_ok hash (feed_queue m) n \<and> norm_typed n \<and> (\<forall>(ty, s) \<in> set plan. s \<in> set (feed_symbols m) \<and> ty \<noteq> RUnknown)"

definition core_inv :: "(string \<Rightarrow> u64) \<Rightarrow> MarketDataCore \<Rightarrow> bool" where
  "core_inv hash c \<longleftrightarrow> feed_part hash (co_feed c) (co_plan c) (co_norm c) \<and> taken_ok (co_norm c) (co_taken c) (routed c)"

lemma core_invI:
  assumes "core_inv hash c" "feed_symbols (co_feed c') = feed_symbols (co_feed c)" "feed_queue (co_feed c') = feed_queue (co_feed c)"
    "symbol_states (co_feed c') = symbol_states (co_feed c)" "co_plan c' = co_plan c" "co_norm c' = co_norm c" "co_taken c' = co_taken c"
    "routed c' = routed c"
  shows "core_inv hash c'"
  using assms feed_ok_cong [of "co_feed c'" "co_feed c"] by (simp add: core_inv_def feed_part_def)

text \<open>The normalizer changes its flags only.\<close>

definition same_lanes :: "Normalizer \<Rightarrow> Normalizer \<Rightarrow> bool" where
  "same_lanes n n' \<longleftrightarrow> n_input n' = n_input n \<and> n_output n' = n_output n \<and> n_registry n' = n_registry n \<and> worker_count n' = worker_count n
     \<and> partition_queues n' = partition_queues n \<and> route_batch n' = route_batch n \<and> work_batches n' = work_batches n"

lemma same_lanes_calls [simp]: "same_lanes n (norm_stop n)" "same_lanes n (restart n)"
  by (simp_all add: same_lanes_def norm_stop_def restart_def norm_start_def)

lemma same_lanes_ok: "norm_ok hash inputs n \<Longrightarrow> same_lanes n n' \<Longrightarrow> norm_ok hash inputs n'"
  by (erule norm_ok_cong) (simp_all add: same_lanes_def)

lemma same_lanes_typed: "norm_typed n \<Longrightarrow> same_lanes n n' \<Longrightarrow> norm_typed n'"
  by (simp add: norm_typed_def outputs_wf_def same_lanes_def)

lemma same_lanes_taken: "taken_ok n taken q \<Longrightarrow> same_lanes n n' \<Longrightarrow> taken_ok n' taken q"
  by (simp add: taken_ok_def same_lanes_def)

lemma core_inv_lanes:
  assumes "core_inv hash c" "same_lanes (co_norm c) (co_norm c')" "feed_symbols (co_feed c') = feed_symbols (co_feed c)"
    "feed_queue (co_feed c') = feed_queue (co_feed c)" "symbol_states (co_feed c') = symbol_states (co_feed c)" "co_plan c' = co_plan c"
    "co_taken c' = co_taken c" "routed c' = routed c"
  shows "core_inv hash c'"
proof -
  have inv: "feed_ok (co_feed c)" "norm_ok hash (feed_queue (co_feed c)) (co_norm c)" "taken_ok (co_norm c) (co_taken c) (routed c)" "norm_typed (co_norm c)"
    "\<forall>(ty, s) \<in> set (co_plan c). s \<in> set (feed_symbols (co_feed c)) \<and> ty \<noteq> RUnknown"
    using assms(1) unfolding core_inv_def feed_part_def by blast+
  have "feed_ok (co_feed c')" using inv(1) feed_ok_cong [OF assms(3-5)] by simp
  then show ?thesis
    using same_lanes_ok [OF inv(2) assms(2)] same_lanes_taken [OF inv(3) assms(2)] same_lanes_typed [OF inv(4) assms(2)] inv(5) assms(3,4,6-8)
    unfolding core_inv_def feed_part_def by simp
qed

section \<open>Feed and normalizer\<close>

lemma tick_plan_types: "(ty, s) \<in> set (tick_plan symbs l1 l2 tr) \<Longrightarrow> s \<in> set symbs \<and> ty \<noteq> RUnknown"
  by (auto simp: tick_plan_def)

lemma pass_end_inv [simp]: "core_inv hash (pass_end elapsed c) = core_inv hash c"
  by (simp add: core_inv_def pass_end_def routed_def)

lemma core_inv_pass_begin:
  assumes "core_inv hash c"
  shows "core_inv hash (pass_begin now elapsed c)"
proof (cases "feed_running (co_feed c) \<and> co_plan c = []")
  case True
  let ?m = "update_burst now (co_feed c)"
  have "feed_ok ?m" using assms by (subst feed_ok_cong [of _ "co_feed c"]) (simp_all add: core_inv_def feed_part_def)
  moreover have "\<forall>(ty, s) \<in> set (tick_plan (feed_symbols ?m) l1 l2 tr). s \<in> set (feed_symbols ?m) \<and> ty \<noteq> RUnknown" for l1 l2 tr
    using tick_plan_types by blast
  ultimately have "core_inv hash (c\<lparr>co_feed := ?m, co_plan := tick_plan (feed_symbols ?m) l1 l2 tr\<rparr>)" for l1 l2 tr
    using assms unfolding core_inv_def feed_part_def by (simp add: routed_def)
  then show ?thesis using True by (simp add: pass_begin_def Let_def)
qed (use assms in \<open>auto simp: pass_begin_def\<close>)

lemma core_inv_pass_event:
  assumes "core_inv hash c" "pass_event d elapsed c = Some c'"
  shows "core_inv hash c'"
proof (cases "co_plan c")
  case (Cons p plan)
  obtain ty s where p: "p = (ty, s)" by fastforce
  obtain m env where g: "generate_event ty s d (co_feed c, co_env c) = Some (m, env)"
    and c': "c' = pass_end elapsed (c\<lparr>co_feed := m, co_env := env, co_plan := plan,
      co_norm := (co_norm c)\<lparr>n_input := n_input (co_norm c) @ drop (length (feed_queue (co_feed c))) (feed_queue m)\<rparr>\<rparr>)"
    using assms(2) Cons p by (auto simp: pass_event_def Let_def split: option.splits)
  obtain ev st where e: "make_event ty s d (symbol_states (co_feed c) ! symbol_index (feed_symbols (co_feed c)) s) = Some (ev, st)"
    "feed_queue m = feed_queue (co_feed c) @ [ev]" "feed_symbols m = feed_symbols (co_feed c)" using generate_event_SomeD [OF g] by blast
  have inv: "feed_part hash (co_feed c) (co_plan c) (co_norm c)" using assms(1) by (simp add: core_inv_def)
  then have s: "s \<in> set (feed_symbols (co_feed c))" "ty \<noteq> RUnknown" using Cons p by (simp_all add: feed_part_def)
  have "feed_ok m" using generate_event_ok [OF _ s(1) g] inv by (simp add: feed_part_def)
  moreover have "norm_ok hash (feed_queue (co_feed c) @ [ev]) ((co_norm c)\<lparr>n_input := n_input (co_norm c) @ [ev]\<rparr>)"
    using norm_ok_input inv make_event_SomeD [OF e(1)] s(2) by (simp add: feed_part_def)
  moreover have "\<forall>(ty, s) \<in> set plan. s \<in> set (feed_symbols m) \<and> ty \<noteq> RUnknown" using inv Cons e(3) by (simp add: feed_part_def)
  moreover have "norm_typed ((co_norm c)\<lparr>n_input := n_input (co_norm c) @ [ev]\<rparr>)" using inv by (simp add: feed_part_def norm_typed_def outputs_wf_def)
  moreover have "taken_ok ((co_norm c)\<lparr>n_input := n_input (co_norm c) @ [ev]\<rparr>) (co_taken c) (routed c)" using assms(1) by (simp add: core_inv_def taken_ok_def)
  ultimately show ?thesis unfolding c' pass_end_inv using e(2) by (simp add: core_inv_def feed_part_def routed_def)
qed (use assms in \<open>simp add: pass_event_def\<close>)

lemma core_inv_norm:
  assumes "core_inv hash c" "with_norm (norm_exec hash e) c = Some c'" "clean e" "inputs_of [e] = []"
  shows "core_inv hash c'"
proof -
  obtain n env where n: "norm_exec hash e (co_norm c, co_env c) = Some (n, env)" "c' = c\<lparr>co_norm := n, co_env := env\<rparr>"
    using assms(2) by (auto simp: with_norm_def)
  have inv: "feed_part hash (co_feed c) (co_plan c) (co_norm c)" "taken_ok (co_norm c) (co_taken c) (routed c)" using assms(1) by (simp_all add: core_inv_def)
  have ok: "norm_ok hash (feed_queue (co_feed c)) n"
    using norm_exec_ok [of hash "feed_queue (co_feed c)" "(co_norm c, co_env c)" e "(n, env)"] inv(1) n(1) assms(3,4) by (simp add: feed_part_def)
  have wc: "worker_count n = worker_count (co_norm c)" using norm_exec_count [OF n(1)] by simp
  have ty: "norm_typed n" using norm_exec_typed [OF n(1)] inv(1) by (simp add: feed_part_def)
  have "co_taken c ! i \<le> length (n_output n ! i) \<and> from_worker i (routed c) = take (co_taken c ! i) (n_output n ! i)" if "i < unat (worker_count n)" for i
    using norm_exec_output [OF n(1), of i] inv(2) that wc by (auto simp: taken_ok_def)
  then show ?thesis using inv ok ty wc n(2) by (simp add: core_inv_def feed_part_def taken_ok_def routed_def)
qed

section \<open>Distribution\<close>

lemma take_frame_routed: "co_rec_queue (take_frame i c) = co_rec_queue c" "co_norm (take_frame i c) = co_norm c"
  "co_feed (take_frame i c) = co_feed c" "co_plan (take_frame i c) = co_plan c"
  by (simp_all add: take_frame_def)

lemma taken_ok_one:
  assumes "taken_ok n taken q" "i < length (n_output n)" "taken ! i < length (n_output n ! i)" "length (n_output n) = unat (worker_count n)"
  shows "taken_ok n (taken[i := Suc (taken ! i)]) (q @ [(i, n_output n ! i ! (taken ! i))])"
proof -
  have "from_worker j (q @ [(i, n_output n ! i ! (taken ! i))]) = take (taken[i := Suc (taken ! i)] ! j) (n_output n ! j)
      \<and> taken[i := Suc (taken ! i)] ! j \<le> length (n_output n ! j)" if "j < unat (worker_count n)" for j
    using assms that by (cases "j = i") (auto simp: taken_ok_def take_Suc_conv_app_nth)
  then show ?thesis using assms by (auto simp: taken_ok_def)
qed

lemma core_inv_take_frame: "core_inv hash c \<Longrightarrow> core_inv hash (take_frame i c)"
  using taken_ok_one [of "co_norm c" "co_taken c" "routed c" i]
  by (auto simp: take_frame_def core_inv_def routed_def feed_part_def norm_ok_def)

lemma core_inv_fold_take: "core_inv hash c \<Longrightarrow> core_inv hash (fold take_frame workers c)"
  by (induction workers arbitrary: c) (auto intro: core_inv_take_frame)

lemma core_inv_dequeue: "core_inv hash c \<Longrightarrow> core_inv hash (dist_dequeue workers c)"
  using core_inv_fold_take [of hash c workers] by (auto simp: dist_dequeue_def core_inv_def routed_def Let_def)

lemma core_inv_enqueue:
  assumes "core_inv hash c" "dist_enqueue rounds c = Some c'"
  shows "core_inv hash c'"
  using assms(2) by (auto simp: dist_enqueue_def batch_end_def routed_def Let_def split: list.splits if_splits option.splits
      intro!: core_invI [OF assms(1)])

section \<open>The other steps\<close>

lemma with_recorder_fields:
  assumes "with_recorder f c = Some (x, c')"
  shows "co_feed c' = co_feed c \<and> co_plan c' = co_plan c \<and> co_norm c' = co_norm c \<and> co_taken c' = co_taken c \<and> routed c' = routed c"
  using assms by (auto simp: with_recorder_def routed_def)

lemma feed_stop_fields [simp]:
  "feed_symbols (feed_stop m) = feed_symbols m" "feed_queue (feed_stop m) = feed_queue m" "symbol_states (feed_stop m) = symbol_states m"
  "feed_symbols (feed_start m) = feed_symbols m" "feed_queue (feed_start m) = feed_queue m" "symbol_states (feed_start m) = symbol_states m"
  by (simp_all add: feed_stop_def feed_start_def)

lemma core_inv_stop_begin: "core_inv hash c \<Longrightarrow> core_inv hash (core_stop_begin c)"
  by (erule core_invI) (simp_all add: core_stop_begin_def routed_def)

lemma core_inv_dist_exit: "core_inv hash c \<Longrightarrow> core_inv hash (dist_exit c)"
  by (erule core_invI) (simp_all add: dist_exit_def routed_def)

lemma core_inv_stop_end:
  assumes "core_inv hash c" "core_stop_end c = Some c'"
  shows "core_inv hash c'"
proof -
  obtain x c1 where r: "with_recorder (\<lambda>st. map_option (Pair ()) (rec_stop st)) c = Some (x, c1)"
    and c': "co_feed c' = co_feed c1" "co_plan c' = co_plan c1" "co_norm c' = norm_stop (co_norm c1)" "co_taken c' = co_taken c1" "routed c' = routed c1"
    using assms(2) by (auto simp: core_stop_end_def Let_def case_prod_beta routed_def split: if_splits option.splits)
  show ?thesis using c' with_recorder_fields [OF r] by (intro core_inv_lanes [OF assms(1)]) simp_all
qed

lemma core_inv_start:
  assumes "core_inv hash c" "core_start h ws c = Some (e, c')"
  shows "core_inv hash c'"
proof (cases "co_running c")
  case False
  let ?sv = "server_start (co_pub c, co_env c)"
  let ?c1 = "c\<lparr>co_running := True, distribution_thread := True, co_norm := restart (co_norm c), co_pub := fst ?sv, co_env := snd ?sv, co_rec := snd (rec_start (co_rec c))\<rparr>"
  obtain x cs where s: "control_start h ws (co_control c) = (x, cs)" by fastforce
  have 1: "core_inv hash (?c1\<lparr>co_control := cs\<rparr>)" by (rule core_inv_lanes [OF assms(1)]) (simp_all add: routed_def)
  show ?thesis
  proof (cases x)
    case None
    then have "c' = ?c1\<lparr>co_control := cs, co_feed := feed_start (co_feed c)\<rparr>" using assms(2) False s by (simp add: core_start_def Let_def case_prod_beta)
    then show ?thesis by (intro core_invI [OF 1]) (simp_all add: routed_def)
  next
    case (Some msg)
    then have "core_stop (?c1\<lparr>co_control := cs\<rparr>) = Some c'" using assms(2) False s by (auto simp: core_start_def Let_def case_prod_beta)
    then show ?thesis unfolding core_stop_def by (rule core_inv_stop_end [rotated]) (intro core_inv_dist_exit core_inv_stop_begin 1)
  qed
qed (use assms in \<open>simp add: core_start_def\<close>)

lemma core_inv_request:
  assumes "core_inv hash c" "core_request lib pw ci r c = Some (res, c')"
  shows "core_inv hash c'"
proof -
  obtain w where w: "handle_http_session lib pw ci r (world_of c) = Some (res, w)" "c' = with_world w c" using assms(2) by (auto simp: core_request_def)
  have b: "same_book (Some (co_feed c)) (cw_feed w)" using session_book [OF w(1)] by (simp add: world_of_def)
  then obtain m where "cw_feed w = Some m" "feed_symbols m = feed_symbols (co_feed c)" "feed_queue m = feed_queue (co_feed c)" "symbol_states m = symbol_states (co_feed c)"
    by (cases "cw_feed w") (auto simp: same_book_def)
  then show ?thesis using w(2) by (intro core_invI [OF assms(1)]) (simp_all add: with_world_def routed_def)
qed

lemma core_inv_rec_pass:
  assumes "core_inv hash c" "rec_pass c = Some c'"
  shows "core_inv hash c'"
proof (cases "rec_running (co_rec c)")
  case True
  then obtain rest c1 where "with_recorder (recording_pass (map snd (drop (co_rec_taken c) (co_rec_queue c)))) c = Some (rest, c1)"
    "c' = c1\<lparr>co_rec_taken := length (co_rec_queue c) - length rest\<rparr>" using assms(2) by (auto simp: rec_pass_def)
  then show ?thesis using with_recorder_fields by (intro core_invI [OF assms(1)]) (auto simp: routed_def dest: with_recorder_fields)
qed (use assms in \<open>simp add: rec_pass_def\<close>)

text \<open>Runs in which the queue of frames never fails to grow.\<close>

fun core_clean :: "core_event \<Rightarrow> bool" where
  "core_clean (KNorm e) = clean e"
| "core_clean _ = True"

lemma inputs_of_own: "\<not> foreign (KNorm e) \<Longrightarrow> inputs_of [e] = []"
  by (cases e) simp_all

lemma core_inv_exec:
  assumes "core_inv (cl_hash lib) c" "core_exec lib e c = Some c'" "core_clean e"
  shows "core_inv (cl_hash lib) c'"
proof (cases "foreign e")
  case False
  then have s: "core_step lib e c = Some c'" using assms(2) by (simp add: core_exec_def)
  note keep = core_invI [OF assms(1)]
  show ?thesis
  proof (cases e)
    case (KStart h ws)
    then show ?thesis using s core_inv_start [OF assms(1)] by auto
  next
    case KStopEnd
    then show ?thesis using s assms(1) core_inv_stop_end [OF assms(1)] by (auto split: if_splits)
  next
    case (KFeed d elapsed)
    then show ?thesis using s core_inv_pass_event [OF assms(1)] by simp
  next
    case (KNorm x)
    then show ?thesis using s False assms(3) inputs_of_own core_inv_norm [OF assms(1)] by simp
  next
    case (KEnqueue rounds)
    then show ?thesis using s core_inv_enqueue [OF assms(1)] by simp
  next
    case KRecord
    then show ?thesis using s core_inv_rec_pass [OF assms(1)] by simp
  next
    case (KRequest pw ci r)
    then show ?thesis using s core_inv_request [OF assms(1)] by auto
  next
    case (KPublishBegin now)
    then show ?thesis using s by (intro keep) (auto simp: dist_publish_begin_def routed_def split: list.splits if_splits option.splits prod.splits)
  next
    case (KPublishEnd rounds elapsed now)
    then show ?thesis using s by (intro keep) (auto simp: dist_publish_end_def routed_def split: option.splits)
  next
    case (KPub x)
    then show ?thesis using s by (intro keep) (auto simp: with_pub_def routed_def)
  next
    case (KReplay dk i sid)
    then show ?thesis using s by (intro keep) (auto simp: with_replay_def routed_def)
  next
    case (KControl x)
    then show ?thesis using s by (intro keep) (auto simp: with_control_def routed_def)
  next
    case KShutdown
    then show ?thesis using s by (intro keep) (auto simp: request_shutdown_def routed_def)
  qed (use s assms(1) in \<open>auto intro: core_inv_stop_begin core_inv_pass_begin core_inv_dequeue core_inv_dist_exit\<close>)
qed (use assms in \<open>simp add: core_exec_def\<close>)

lemma core_inv_run: "core_run lib es c = Some c' \<Longrightarrow> core_inv (cl_hash lib) c \<Longrightarrow> list_all core_clean es \<Longrightarrow> core_inv (cl_hash lib) c'"
  by (induction es arbitrary: c) (auto split: option.splits dest: core_inv_exec)

lemma core_inv_setup: "core_inv hash (setup_components cfg draws renv env)"
proof -
  let ?high = "q_high_watermark (cfg_queue cfg)" and ?low = "q_low_watermark (cfg_queue cfg)" and ?ss = "default_symbols (feeds cfg)"
  let ?f = "new_feed ?ss ?high ?low draws env"
  have "feed_ok (fst ?f)" "feed_queue (fst ?f) = []" using new_feed_ok by (auto simp: new_feed_def case_prod_beta Let_def)
  moreover have "norm_ok hash [] (fst (new_normalizer new_registry t ?high ?low e))" for t e by (rule new_normalizer_ok [OF registry_inv_new])
  moreover have "norm_typed (fst (new_normalizer new_registry t ?high ?low e))" for t e by (rule new_normalizer_typed)
  moreover have "n_output (fst (new_normalizer new_registry t ?high ?low e)) = replicate (unat (worker_count (fst (new_normalizer new_registry t ?high ?low e)))) []" for t e
    by (simp add: new_normalizer_def case_prod_beta Let_def)
  ultimately show ?thesis
    by (simp add: core_inv_def feed_part_def taken_ok_def routed_def from_worker_def setup_components_def case_prod_beta Let_def)
qed

section \<open>Order of one symbol\<close>

fun frame_seq :: "FrameBody \<Rightarrow> u64" where
  "frame_seq (BL1 b) = l1_seq b"
| "frame_seq (BL2 b) = l2_seq b"
| "frame_seq (BTrade b) = tr_seq b"
| "frame_seq _ = 0"

text \<open>The sequence numbers of the frames of a symbol.\<close>

definition seqs_of :: "SymbolRegistry \<Rightarrow> string \<Rightarrow> Frame list \<Rightarrow> u64 list" where
  "seqs_of r s fr = map (\<lambda>f. frame_seq (body f)) (filter (\<lambda>f. by_id r (frame_symbol (body f)) = s) fr)"

lemma event_body_frame: "event_body i e = Some (Inr b) \<Longrightarrow> frame_seq b = ev_sequence e \<and> frame_symbol b = i"
  by (auto simp: event_body_def split: RawType.splits option.splits)

lemma body_in_frame:
  assumes "body_in r e = Some (Inr b)" "registry_inv r"
  shows "frame_seq b = ev_sequence e \<and> by_id r (frame_symbol b) = ev_symbol e"
proof -
  obtain i where "symbol_to_id r (ev_symbol e) = Some i" "event_body i e = Some (Inr b)" using assms(1) by (auto simp: body_in_def split: option.splits)
  then show ?thesis using event_body_frame by_id_iff [OF assms(2)] by blast
qed

lemma seqs_of_processed:
  assumes "map (\<lambda>f. Some (Inr (body f))) fr = map (body_in r) evs" "registry_inv r"
  shows "seqs_of r s fr = map ev_sequence (filter (\<lambda>e. ev_symbol e = s) evs)"
  using assms(1)
proof (induction evs arbitrary: fr)
  case (Cons e evs)
  then obtain f fr' where fr: "fr = f # fr'" "body_in r e = Some (Inr (body f))" "map (\<lambda>f. Some (Inr (body f))) fr' = map (body_in r) evs"
    by (cases fr) auto
  then show ?case using Cons.IH [OF fr(3)] body_in_frame [OF fr(2) assms(2)] by (auto simp: seqs_of_def)
qed (simp add: seqs_of_def)

lemma output_symbol:
  assumes "lane hash inputs n i processed" "registry_inv (n_registry n)" "f \<in> set (n_output n ! i)"
  shows "worker_for_symbol hash n (by_id (n_registry n) (frame_symbol (body f))) = i"
proof -
  have l: "map (\<lambda>f. Some (Inr (body f))) (n_output n ! i) = map (body_in (n_registry n)) processed" "set processed \<subseteq> set (filter (\<lambda>e. worker_for_symbol hash n (ev_symbol e) = i) inputs)"
    using assms(1) by (auto simp: lane_def)
  have "Some (Inr (body f)) \<in> set (map (body_in (n_registry n)) processed)" using assms(3) unfolding l(1) [symmetric] by auto
  then obtain e where e: "e \<in> set processed" "body_in (n_registry n) e = Some (Inr (body f))" by auto
  then show ?thesis using body_in_frame [OF e(2) assms(2)] l(2) by auto
qed

lemma seqs_of_worker:
  assumes "core_inv hash c"
  shows "seqs_of (n_registry (co_norm c)) s (map snd (co_rec_queue c))
    = seqs_of (n_registry (co_norm c)) s (from_worker (worker_for_symbol hash (co_norm c) s) (co_rec_queue c))"
proof -
  let ?n = "co_norm c" and ?i = "worker_for_symbol hash (co_norm c) s"
  have "fst t = ?i" if t: "t \<in> set (co_rec_queue c)" "by_id (n_registry ?n) (frame_symbol (body (snd t))) = s" for t
  proof -
    have k: "fst t < unat (worker_count ?n)" "from_worker (fst t) (routed c) = take (co_taken c ! fst t) (n_output ?n ! fst t)"
      using assms t(1) by (auto simp: core_inv_def taken_ok_def routed_def)
    have "snd t \<in> set (from_worker (fst t) (routed c))" using t(1) by (auto simp: from_worker_def routed_def)
    then have "snd t \<in> set (n_output ?n ! fst t)" unfolding k(2) by (rule in_set_takeD)
    moreover obtain processed where "lane hash (feed_queue (co_feed c)) ?n (fst t) processed"
      using norm_ok_lane [of hash "feed_queue (co_feed c)", OF _ k(1)] assms unfolding core_inv_def feed_part_def by blast
    ultimately have "worker_for_symbol hash ?n (by_id (n_registry ?n) (frame_symbol (body (snd t)))) = fst t"
      using assms by (intro output_symbol) (auto simp: core_inv_def feed_part_def norm_ok_def)
    then show ?thesis using t(2) by simp
  qed
  then have "filter (\<lambda>t. by_id (n_registry ?n) (frame_symbol (body (snd t))) = s) (co_rec_queue c)
      = filter (\<lambda>t. fst t = ?i \<and> by_id (n_registry ?n) (frame_symbol (body (snd t))) = s) (co_rec_queue c)" by (intro filter_cong) auto
  then show ?thesis by (simp add: seqs_of_def from_worker_def filter_map comp_def conj_commute)
qed

lemma prefix_upt: "prefix xs (map f [0..<n]) \<Longrightarrow> xs = map f [0..<length xs]"
proof -
  assume a: "prefix xs (map f [0..<n])"
  then have "xs = take (length xs) (map f [0..<n])" by (auto simp: prefix_def append_eq_conv_conj)
  moreover have "length xs \<le> n" using prefix_length_le [OF a] by simp
  ultimately show ?thesis by (simp add: take_map)
qed

lemma seqs_of_append: "seqs_of r s (xs @ ys) = seqs_of r s xs @ seqs_of r s ys"
  by (simp add: seqs_of_def)

lemma seqs_of_prefix: "prefix xs ys \<Longrightarrow> prefix (seqs_of r s xs) (seqs_of r s ys)"
  by (auto simp: prefix_def seqs_of_append)

lemma numbered_prefix:
  assumes "feed_ok m" "prefix xs (map ev_sequence (filter (\<lambda>e. ev_symbol e = s) (feed_queue m)))"
  shows "xs = map (\<lambda>k. of_nat k + 1) [0..<length xs]"
proof (cases "s \<in> set (feed_symbols m)")
  case True
  then have "numbered m s" using assms(1) by (simp add: feed_ok_def)
  then show ?thesis using assms(2) prefix_upt [of xs "\<lambda>k. of_nat k + 1"] by (simp add: numbered_def Let_def)
next
  case False
  then have "filter (\<lambda>e. ev_symbol e = s) (feed_queue m) = []" using assms(1) by (auto simp: feed_ok_def filter_empty_conv)
  then show ?thesis using assms(2) by simp
qed

lemma core_inv_sequences:
  assumes "core_inv hash c"
  shows "let seqs = seqs_of (n_registry (co_norm c)) s (map snd (co_rec_queue c)) in seqs = map (\<lambda>k. of_nat k + 1) [0..<length seqs]"
proof -
  let ?n = "co_norm c" and ?i = "worker_for_symbol hash (co_norm c) s" and ?q = "feed_queue (co_feed c)"
  have ok: "feed_ok (co_feed c)" "norm_ok hash ?q ?n" "registry_inv (n_registry ?n)" "0 < worker_count ?n"
    using assms by (simp_all add: core_inv_def feed_part_def norm_ok_def)
  have i: "?i < unat (worker_count ?n)" using worker_less [OF ok(4)] .
  obtain processed where l: "lane hash ?q ?n ?i processed" using norm_ok_lane [OF ok(2) i] by blast
  have "prefix (from_worker ?i (co_rec_queue c)) (n_output ?n ! ?i)"
    using assms i by (auto simp: core_inv_def taken_ok_def routed_def) (metis append_prefixD take_is_prefix)
  then have "prefix (seqs_of (n_registry ?n) s (from_worker ?i (co_rec_queue c))) (map ev_sequence (filter (\<lambda>e. ev_symbol e = s) processed))"
    using seqs_of_prefix seqs_of_processed [OF _ ok(3)] l by (metis lane_def)
  moreover have "filter (\<lambda>e. ev_symbol e = s) (filter (\<lambda>e. worker_for_symbol hash ?n (ev_symbol e) = ?i) ?q) = filter (\<lambda>e. ev_symbol e = s) ?q"
    by (auto intro: filter_cong)
  moreover obtain rest where "filter (\<lambda>e. worker_for_symbol hash ?n (ev_symbol e) = ?i) ?q = processed @ rest" using l unfolding lane_def by blast
  ultimately have "prefix (seqs_of (n_registry ?n) s (from_worker ?i (co_rec_queue c))) (map ev_sequence (filter (\<lambda>e. ev_symbol e = s) ?q))"
    by (metis filter_append map_append prefix_prefix)
  from numbered_prefix [OF ok(1) this] show ?thesis unfolding seqs_of_worker [OF assms] Let_def .
qed

lemma core_inv_frames:
  assumes "core_inv hash c" "t \<in> set (co_rec_queue c)"
  shows "wf_frame (snd t)"
proof -
  have k: "fst t < unat (worker_count (co_norm c))" "from_worker (fst t) (routed c) = take (co_taken c ! fst t) (n_output (co_norm c) ! fst t)"
    using assms by (auto simp: core_inv_def taken_ok_def routed_def)
  have "snd t \<in> set (from_worker (fst t) (routed c))" using assms(2) by (auto simp: from_worker_def routed_def)
  then have "snd t \<in> set (n_output (co_norm c) ! fst t)" unfolding k(2) by (rule in_set_takeD)
  moreover have "list_all wf_frame (n_output (co_norm c) ! fst t)"
    using assms(1) k(1) by (simp add: core_inv_def feed_part_def norm_typed_def outputs_wf_def list_all_length)
  ultimately show ?thesis by (simp add: list_all_iff)
qed

lemma subseq_seqs_of: "subseq xs ys \<Longrightarrow> subseq (seqs_of r s xs) (seqs_of r s ys)"
  by (simp add: seqs_of_def subseq_map subseq_filter)

end
