(* ===== verification/Core_Example.thy ===== *)
theory Core_Example
  imports Core_Order
begin

text \<open>
  A run of the whole system: the rates are set by a request, the system starts, the feed generates two
  trades, the first is normalized, published and enqueued for the recorder.
\<close>

definition example_config :: Config where
  "example_config = default_config\<lparr>pipeline := \<lparr>publisher_lanes = 1, recorder_fsync_ms = 50, normalizer_threads = 1\<rparr>,
     feeds := \<lparr>default_symbols = [''BTC''], mock_enabled = True, binance_enabled = False\<rparr>\<rparr>"

definition two_trades :: Json where
  "two_trades = JObject [(''l1_rate'', JInt 0), (''l2_rate'', JInt 0), (''trade_rate'', JInt 2)]"

definition example_core_lib :: core_library where
  "example_core_lib = \<lparr>cl_regex = undefined, cl_json = \<lparr>lib_parse = (\<lambda>_. Inr two_trades), lib_dump = (\<lambda>_. []), lib_what = (\<lambda>_. [])\<rparr>, cl_hash = (\<lambda>_. 0)\<rparr>"

definition example_core :: MarketDataCore where
  "example_core = setup_components example_config (\<lambda>_. replicate 10 1) example_env \<lparr>metrics = no_metrics, active_queue_count = 0\<rparr>"

lemma rnd_nums: "rnd 100 = 100" "rnd 10000000000 = 10000000000" "rnd 0 = 0"
  using rnd_of_int [of 100] rnd_of_int [of 10000000000] rnd_of_int [of 0] by simp_all

definition btc_trade :: "u64 \<Rightarrow> RawEvent" where
  "btc_trade n = (raw_event RTrade ''BTC'' 7 n)\<lparr>ev_trade_price := 100, ev_trade_size := 100, ev_aggressor_side := 0\<rparr>"

lemma trade_of_draw: "mid_price st = 100 \<Longrightarrow> trade_event ''BTC'' example_draw st = (btc_trade (sequence st), st\<lparr>sequence := sequence st + 1\<rparr>)"
  by (simp add: trade_event_def example_draw_def btc_trade_def raw_event_def dadd_def dmul_def rnd_nums)

lemma fresh_state: "mid_price (new_symbol_state ds) = 100" "sequence (new_symbol_state ds) = 1"
  by (simp_all add: new_symbol_state_def initial_levels_def Let_def)

definition btc_registry :: SymbolRegistry where
  "btc_registry = \<lparr>symbol_to_id = [''BTC'' \<mapsto> 1], symbols = [[], ''BTC''], next_id = 2\<rparr>"

definition btc_body :: "u64 \<Rightarrow> FrameBody" where
  "btc_body n = BTrade \<lparr>tr_ts_ns = 7, tr_symbol_id = 1, tr_price = 10000000000, tr_size = 10000000000, tr_aggressor_side = 0, tr_seq = n\<rparr>"

lemma btc_normalize: "normalize_event 0 (btc_trade n) new_registry = Some (Inr (mk_frame 0 (btc_body n)), btc_registry)"
proof -
  have "add_symbol new_registry (ev_symbol (btc_trade n)) = Some (1, btc_registry)"
    by (simp add: add_symbol_def new_registry_def btc_trade_def raw_event_def btc_registry_def)
  moreover have "event_body 1 (btc_trade n) = Some (Inr (btc_body n))"
    by (simp add: event_body_def btc_trade_def raw_event_def btc_body_def scale_price_def scale_size_def dmul_def double_to_i64_def double_to_u64_def trunc_def rnd_nums)
  ultimately show ?thesis by (simp add: normalize_event_def get_or_add_eq)
qed

lemma draw_fields: "dr_depth example_draw = 0" "dr_rounds example_draw = []"
  by (simp_all add: example_draw_def)

lemma inputs_fields: "wi_ind example_inputs = 0" "wi_depth example_inputs = 0" "wi_rounds example_inputs = []" "wi_enqueued example_inputs" "wi_start example_inputs = 0" "wi_end example_inputs = 1"
  by (simp_all add: example_inputs_def)

definition timed :: "LatencyTimer \<Rightarrow> u64 \<Rightarrow> MetricsCollector \<Rightarrow> MetricsCollector" where
  "timed t now m = the (timer_destroy t now m)"

lemma after_timer: "metrics_ok m \<Longrightarrow> timer_destroy t now m = Some (timed t now m)" "metrics_ok m \<Longrightarrow> metrics_ok (timed t now m)"
  using record_latency_returns [of m "metric_name t" "now - start_ns t"] by (auto simp: timed_def timer_destroy_def)

lemma replicate_2: "replicate 2 x = [x, x]"
  by (simp add: numeral_2_eq_2)

definition two_trades_rates :: "MockFeed \<Rightarrow> MockFeed" where
  "two_trades_rates m = m\<lparr>l1_rate := 0, l2_rate := 0, trade_rate := 2, feed_running := True\<rparr>"

lemma with_feed_only:
  "cw_feed w = Some m \<Longrightarrow> cw_replayer w = Some (co_replayer c) \<Longrightarrow> cw_pub w = co_pub c \<Longrightarrow> cw_metrics w = metrics (co_env c) \<Longrightarrow>
   with_world w c = c\<lparr>co_feed := m\<rparr>"
  by (simp add: with_world_def)

lemma example_core_request:
  "core_exec example_core_lib (KRequest [] ci (Some example_request)) example_core = Some (example_core\<lparr>co_feed := two_trades_rates (co_feed example_core)\<rparr>)"
proof -
  have "cw_feed (world_of example_core) = Some (co_feed example_core)" "lib_parse (cl_json example_core_lib) (req_body example_request) = Inr two_trades" "req_method example_request = Post"
    "json_find two_trades ''l1_rate'' = Some (JInt 0)" "json_find two_trades ''l2_rate'' = Some (JInt 0)" "json_find two_trades ''trade_rate'' = Some (JInt 2)"
    "{0, 0, 2} \<subseteq> {0..<2 ^ 32 :: int}"
    by (simp_all add: world_of_def example_core_lib_def example_request_def two_trades_def)
  from feed_request_effect [OF this, of "[]" ci] show ?thesis
    by (auto simp: core_exec_def core_request_def handle_http_session_def example_request_def two_trades_rates_def world_of_def intro!: with_feed_only)
qed

definition example_rest :: "core_event list" where
  "example_rest = [KStart None None, KPass 0 0, KFeed example_draw 0, KFeed example_draw 0,
     KNorm NRouteDequeue, KNorm (NRoute []), KNorm (NRoute []), KNorm (NWorkDequeue 0), KNorm (NWork 0 example_inputs),
     KDequeue [0], KPublishBegin 0, KPublishEnd [] 0 0, KEnqueue []]"

lemma example_core_rest:
  "\<exists>c. core_run example_core_lib example_rest (example_core\<lparr>co_feed := two_trades_rates (co_feed example_core)\<rparr>) = Some c
   \<and> co_rec_queue c = [(0, mk_frame 0 (btc_body 1))] \<and> n_registry (co_norm c) = btc_registry"
  by (simp add: core_exec_def example_core_def example_core_lib_def setup_components_def example_config_def default_config_def new_feed_def new_controller_def case_prod_beta new_normalizer_def new_server_def
   core_start_def server_start_def restart_def norm_start_def norm_joined_def control_start_def new_control_server_def start_metrics_websocket_def
   pass_begin_def two_trades_rates_def example_rest_def feed_start_def update_burst_def tick_plan_def share_def pass_end_def pass_event_def generate_event_def symbol_index_def wait_for_capacity_def below_high_def
   replicate_2 trade_of_draw fresh_state draw_fields inputs_fields
   with_norm_def route_dequeue_def route_next_def worker_for_symbol_def work_dequeue_def work_next_def btc_normalize output_frame_def after_timer metrics_ok_none
   bp_gauge_def bp_count_def update_partition_metrics_def dist_dequeue_def take_frame_def dist_publish_begin_def publish_begin_def subscribed_clients_def dist_publish_end_def publish_end_def max_depth_def dist_enqueue_def rec_queue_depth_def batch_end_def Let_def)
lemma example_core_run:
  "\<exists>c. core_run example_core_lib (KRequest [] ci (Some example_request) # example_rest) example_core = Some c
     \<and> co_rec_queue c = [(0, mk_frame 0 (btc_body 1))] \<and> n_registry (co_norm c) = btc_registry"
  using example_core_rest by (simp add: example_core_request)

lemma example_core_clean: "list_all core_clean (KRequest [] ci (Some example_request) # example_rest)"
  by (simp add: example_rest_def inputs_fields)

end
