(* ===== verification/Main_Program.thy ===== *)
theory Main_Program
  imports Core_Example
begin

text \<open>
  The program around the core: \<open>signal_handler\<close> and \<open>main\<close> of \<open>main_core.cpp\<close>. The calls of \<open>main\<close> may
  return, throw an exception of the standard library or another one; \<open>core_start\<close> decides the call of \<open>start\<close>.
\<close>

section \<open>Signals\<close>

record signal_state =
  shutdown_in_progress :: bool
  signal_count :: "32 word"
  g_core :: "MarketDataCore option"
  exited :: "nat option"  \<comment> \<open>\<open>std::_Exit\<close> has been called\<close>

definition no_signals :: "MarketDataCore option \<Rightarrow> signal_state" where
  "no_signals core = \<lparr>shutdown_in_progress = False, signal_count = 0, g_core = core, exited = None\<rparr>"

definition signal_handler :: "signal_state \<Rightarrow> signal_state" where
  "signal_handler s =
     (if exited s \<noteq> None then s
      else if shutdown_in_progress s then
        (let s1 = s\<lparr>signal_count := signal_count s + 1\<rparr> in if 1 \<le> sint (signal_count s) then s1\<lparr>exited := Some 1\<rparr> else s1)
      else s\<lparr>shutdown_in_progress := True, g_core := map_option request_shutdown (g_core s)\<rparr>)"

section \<open>\<open>main\<close>\<close>

datatype thrown = NoThrow | StdExn | OtherExn

datatype main_call = MConstruct | MStart | MRun | MStop | MReset

text \<open>The exit code and the calls on the core, in order; the last line of each handler destroys the core.\<close>

definition main_program :: "thrown \<Rightarrow> thrown \<Rightarrow> thrown \<Rightarrow> thrown \<Rightarrow> thrown \<Rightarrow> nat \<times> main_call list" where
  "main_program load setup start run stop =
     (case load of StdExn \<Rightarrow> (1, []) | OtherExn \<Rightarrow> (255, [])
    | NoThrow \<Rightarrow> (case setup of StdExn \<Rightarrow> (1, []) | OtherExn \<Rightarrow> (255, [])
    | NoThrow \<Rightarrow> (case start of
        StdExn \<Rightarrow> (2, [MConstruct, MStart, MReset])
      | OtherExn \<Rightarrow> (255, [MConstruct, MStart, MStop, MReset])
      | NoThrow \<Rightarrow> (case run of
          OtherExn \<Rightarrow> (255, [MConstruct, MStart, MRun, MStop, MReset])
        | _ \<Rightarrow> (case stop of
            NoThrow \<Rightarrow> (if run = StdExn then 3 else 0, [MConstruct, MStart, MRun, MStop, MReset])
          | StdExn \<Rightarrow> (4, [MConstruct, MStart, MRun, MStop, MReset])
          | OtherExn \<Rightarrow> (255, [MConstruct, MStart, MRun, MStop, MStop, MReset]))))))"

text \<open>What \<open>main\<close> sees of \<open>start\<close>.\<close>

definition start_thrown :: "(string option \<times> MarketDataCore) option \<Rightarrow> thrown" where
  "start_thrown r = (case r of Some (Some msg, c) \<Rightarrow> StdExn | _ \<Rightarrow> NoThrow)"

section \<open>Lemmas\<close>

lemma signals_1: "signal_handler (no_signals core) = \<lparr>shutdown_in_progress = True, signal_count = 0, g_core = map_option request_shutdown core, exited = None\<rparr>"
  by (simp add: signal_handler_def no_signals_def)

lemma signals_exited: "exited s \<noteq> None \<Longrightarrow> (signal_handler ^^ k) s = s"
  by (induction k) (simp_all add: signal_handler_def)

lemma close_current_files_running: "close_current_files (r, e) = Some (r', e') \<Longrightarrow> rec_running r' = rec_running r"
  by (auto simp: close_current_files_def update_mdf_header_def Let_def bind_eq_Some_conv case_prod_beta split: option.splits if_splits)

lemma rec_stop_running: "rec_stop (r, e) = Some (r', e') \<Longrightarrow> \<not> rec_running r'"
  using close_current_files_running [of "r\<lparr>rec_running := False\<rparr>" e] by (fastforce simp: rec_stop_def with_stats_def split: if_splits)

lemma stopped_parts [simp]: "\<not> n_running (norm_stop n)" "\<not> ps_running (fst (server_stop sv))" "\<not> cs_running (control_stop cs)" "\<not> feed_running (feed_stop m)"
  by (simp_all add: norm_stop_def server_stop_def control_stop_def feed_stop_def case_prod_beta)

definition all_stopped :: "MarketDataCore \<Rightarrow> bool" where
  "all_stopped c \<longleftrightarrow> \<not> co_running c \<and> \<not> distribution_thread c \<and> \<not> feed_running (co_feed c) \<and> \<not> rec_running (co_rec c) \<and> \<not> ps_running (co_pub c)
     \<and> \<not> n_running (co_norm c) \<and> \<not> cs_running (co_control c) \<and> co_shutdown c"

lemma core_stop_end_stopped:
  assumes "core_stop_end c = Some c'" "\<not> co_running c" "\<not> feed_running (co_feed c)"
  shows "all_stopped c'"
proof -
  obtain c1 where r: "with_recorder (\<lambda>st. map_option (Pair ()) (rec_stop st)) c = Some ((), c1)" and d: "\<not> distribution_thread c"
    and c': "c' = c1\<lparr>co_pub := fst (server_stop (co_pub c1, co_env c1)), co_env := snd (server_stop (co_pub c1, co_env c1)), co_norm := norm_stop (co_norm c1),
      co_control := control_stop (co_control c1), co_shutdown := True\<rparr>"
    using assms(1) by (auto simp: core_stop_end_def Let_def case_prod_beta split: if_splits option.splits)
  have "\<not> rec_running (co_rec c1)" "co_running c1 = co_running c" "distribution_thread c1 = distribution_thread c" "co_feed c1 = co_feed c"
    using r by (auto simp: with_recorder_def dest: rec_stop_running)
  then show ?thesis using assms(2,3) d by (simp add: c' all_stopped_def)
qed

lemma core_stop_stopped: "core_stop c = Some c' \<Longrightarrow> all_stopped c'"
  unfolding core_stop_def by (erule core_stop_end_stopped) (simp_all add: core_stop_begin_def dist_exit_def)

section \<open>Properties\<close>


text \<open>
  Exit codes. \<open>main\<close> returns 0 exactly when nothing was thrown, the six codes are the only ones, and a
  core that was constructed is destroyed as the last of its calls on every path, after \<open>stop\<close> if it had run.
\<close>

theorem main_exit_codes:
  "case main_program load setup start run stop of (code, trace) \<Rightarrow>
     (code = 0 \<longleftrightarrow> (load, setup, start, run, stop) = (NoThrow, NoThrow, NoThrow, NoThrow, NoThrow))
     \<and> code \<in> {0, 1, 2, 3, 4, 255} \<and> (MConstruct \<in> set trace \<longleftrightarrow> load = NoThrow \<and> setup = NoThrow)
     \<and> (MConstruct \<in> set trace \<longrightarrow> last trace = MReset) \<and> (MRun \<in> set trace \<longrightarrow> MStop \<in> set trace)"
  by (simp add: main_program_def split: thrown.splits)

text \<open>The program announces that a second Ctrl+C forces the exit; it is the third that does.\<close>

theorem third_signal_exits:
  "exited ((signal_handler ^^ k) (no_signals core)) = (if k < 3 then None else Some 1)"
proof -
  have 3: "exited ((signal_handler ^^ 3) (no_signals core)) = Some 1" and less: "exited ((signal_handler ^^ 0) (no_signals core)) = None"
    "exited ((signal_handler ^^ 1) (no_signals core)) = None" "exited ((signal_handler ^^ 2) (no_signals core)) = None"
    by (simp_all add: numeral_2_eq_2 numeral_3_eq_3 signal_handler_def no_signals_def Let_def)
  show ?thesis
  proof (cases "k < 3")
    case True
    then have "k = 0 \<or> k = 1 \<or> k = 2" by arith
    then show ?thesis using less by auto
  next
    case False
    then obtain d where "k = d + 3" by (metis le_add_diff_inverse2 not_less)
    then show ?thesis using signals_exited [of "(signal_handler ^^ 3) (no_signals core)" d] 3 by (simp add: funpow_add)
  qed
qed

lemma example_core_start_fails: "\<exists>e c'. core_start None (Some LBind) example_core = Some (e, c')"
  by (simp add: core_start_def example_core_def setup_components_def new_feed_def new_normalizer_def new_server_def new_recorder_def new_controller_def
      example_config_def default_config_def case_prod_beta control_start_def new_control_server_def start_metrics_websocket_def core_stop_def core_stop_begin_def dist_exit_def
      core_stop_end_def with_recorder_def rec_stop_def rec_start_def close_current_files_def update_mdf_header_def Let_def)


text \<open>
  The comment on \<open>stop\<close> says that the queues drain after the feed has been stopped. Once the flag is
  cleared the distributor takes nothing any more: frames that it has not taken stay in the queue.
\<close>

theorem stop_does_not_drain:
  "co_norm (core_stop_begin c) = co_norm c \<and> dist_dequeue workers (core_stop_begin c) = core_stop_begin c"
  by (simp add: core_stop_begin_def dist_dequeue_def)

end
