(* ===== verification/Json_Lexer.thy ===== *)
theory Json_Lexer
  imports Json
begin

text \<open>
  The lexer of \<open>nlohmann::json\<close> (\<open>class lexer\<close>). Its state is the input that remains: \<open>get\<close> takes the
  first character, \<open>unget\<close> leaves it there, the end of the list is \<open>eof\<close>. A token carries its value;
  error messages, positions and the copy of the token kept for them are not modelled. Comments are not
  ignored in any of the calls of the program, and the decimal point is that of the C locale.
\<close>

section \<open>Strings\<close>

abbreviation quote :: char where "quote \<equiv> CHR 0x22"
abbreviation backslash :: char where "backslash \<equiv> CHR 0x5C"

abbreviation code :: "char \<Rightarrow> int" where "code \<equiv> of_char"

datatype token =
  Literal_true
| Literal_false
| Literal_null
| Value_string string
| Value_unsigned int
| Value_integer int
| Value_float "double option"  \<comment> \<open>\<open>None\<close> for a value that is not finite\<close>
| Begin_array
| Begin_object
| End_array
| End_object
| Name_separator
| Value_separator
| Parse_error
| End_of_input

definition hex_digit :: "char \<Rightarrow> int option" where
  "hex_digit c =
     (if 0x30 \<le> code c \<and> code c \<le> 0x39 then Some (code c - 0x30)
      else if 0x41 \<le> code c \<and> code c \<le> 0x46 then Some (code c - 0x37)
      else if 0x61 \<le> code c \<and> code c \<le> 0x66 then Some (code c - 0x57)
      else None)"

fun codepoint_from :: "nat list \<Rightarrow> int \<Rightarrow> string \<Rightarrow> (int \<times> string) option" where
  "codepoint_from [] cp s = Some (cp, s)"
| "codepoint_from (factor # fs) cp [] = None"
| "codepoint_from (factor # fs) cp (c # s) = (case hex_digit c of
     None \<Rightarrow> None
   | Some d \<Rightarrow> codepoint_from fs (cp + push_bit factor d) s)"

definition get_codepoint :: "string \<Rightarrow> (int \<times> string) option" where
  "get_codepoint = codepoint_from [12, 8, 4, 0] 0"

text \<open>The bytes that are added and the remaining input.\<close>

fun next_byte_in_range :: "(int \<times> int) list \<Rightarrow> string \<Rightarrow> (string \<times> string) option" where
  "next_byte_in_range [] s = Some ([], s)"
| "next_byte_in_range (r # rs) [] = None"
| "next_byte_in_range ((lo, hi) # rs) (c # s) =
     (if lo \<le> code c \<and> code c \<le> hi then map_option (apfst ((#) c)) (next_byte_in_range rs s) else None)"

text \<open>The bytes of a code point.\<close>

definition codepoint_bytes :: "int \<Rightarrow> string" where
  "codepoint_bytes cp = map char_of
     (if cp < 0x80 then [cp]
      else if cp \<le> 0x7FF then [0xC0 OR drop_bit 6 cp, 0x80 OR (cp AND 0x3F)]
      else if cp \<le> 0xFFFF then [0xE0 OR drop_bit 12 cp, 0x80 OR (drop_bit 6 cp AND 0x3F), 0x80 OR (cp AND 0x3F)]
      else [0xF0 OR drop_bit 18 cp, 0x80 OR (drop_bit 12 cp AND 0x3F), 0x80 OR (drop_bit 6 cp AND 0x3F), 0x80 OR (cp AND 0x3F)])"

text \<open>After \<open>\u\<close>: a code point, or two that form a surrogate pair.\<close>

definition scan_unicode :: "string \<Rightarrow> (string \<times> string) option" where
  "scan_unicode s = (case get_codepoint s of
     None \<Rightarrow> None
   | Some (cp1, s1) \<Rightarrow>
       if 0xD800 \<le> cp1 \<and> cp1 \<le> 0xDBFF then
         (case s1 of
            c1 # c2 # s2 \<Rightarrow>
              if c1 = backslash \<and> c2 = CHR ''u'' then
                (case get_codepoint s2 of
                   None \<Rightarrow> None
                 | Some (cp2, s3) \<Rightarrow>
                     if 0xDC00 \<le> cp2 \<and> cp2 \<le> 0xDFFF then Some (codepoint_bytes (push_bit 10 cp1 + cp2 - 0x35FDC00), s3) else None)
              else None
          | _ \<Rightarrow> None)
       else if 0xDC00 \<le> cp1 \<and> cp1 \<le> 0xDFFF then None
       else Some (codepoint_bytes cp1, s1))"

text \<open>After a backslash.\<close>

definition scan_escape :: "string \<Rightarrow> (string \<times> string) option" where
  "scan_escape s = (case s of
     [] \<Rightarrow> None
   | c # s1 \<Rightarrow>
       if c = quote then Some ([quote], s1)
       else if c = backslash then Some ([backslash], s1)
       else if c = CHR ''/'' then Some (''/'', s1)
       else if c = CHR ''b'' then Some ([CHR 0x08], s1)
       else if c = CHR ''f'' then Some ([CHR 0x0C], s1)
       else if c = CHR ''n'' then Some ([CHR 0x0A], s1)
       else if c = CHR ''r'' then Some ([CHR 0x0D], s1)
       else if c = CHR ''t'' then Some ([CHR 0x09], s1)
       else if c = CHR ''u'' then scan_unicode s1
       else None)"

text \<open>The ranges of the bytes that follow a first byte, \<open>None\<close> when it is ill-formed.\<close>

definition byte_ranges :: "int \<Rightarrow> (int \<times> int) list option" where
  "byte_ranges b =
     (if b < 0x20 then None
      else if b \<le> 0x7F then Some []
      else if 0xC2 \<le> b \<and> b \<le> 0xDF then Some [(0x80, 0xBF)]
      else if b = 0xE0 then Some [(0xA0, 0xBF), (0x80, 0xBF)]
      else if b = 0xED then Some [(0x80, 0x9F), (0x80, 0xBF)]
      else if 0xE1 \<le> b \<and> b \<le> 0xEF then Some [(0x80, 0xBF), (0x80, 0xBF)]
      else if b = 0xF0 then Some [(0x90, 0xBF), (0x80, 0xBF), (0x80, 0xBF)]
      else if 0xF1 \<le> b \<and> b \<le> 0xF3 then Some [(0x80, 0xBF), (0x80, 0xBF), (0x80, 0xBF)]
      else if b = 0xF4 then Some [(0x80, 0x8F), (0x80, 0xBF), (0x80, 0xBF)]
      else None)"

lemma codepoint_from_length: "codepoint_from fs cp s = Some (cp', s') \<Longrightarrow> length s' \<le> length s"
  by (induction fs cp s rule: codepoint_from.induct) (auto split: option.splits)

lemma get_codepoint_length: "get_codepoint s = Some (cp, s') \<Longrightarrow> length s' \<le> length s"
  by (auto simp: get_codepoint_def dest: codepoint_from_length)

lemma next_byte_in_range_length: "next_byte_in_range rs s = Some (bs, s') \<Longrightarrow> length s' \<le> length s"
  by (induction rs s arbitrary: bs rule: next_byte_in_range.induct) (fastforce split: if_splits)+

lemma scan_unicode_length: "scan_unicode s = Some (bs, s') \<Longrightarrow> length s' \<le> length s"
  by (auto simp: scan_unicode_def split: option.splits if_splits list.splits dest!: get_codepoint_length)

lemma scan_escape_length: "scan_escape s = Some (bs, s') \<Longrightarrow> length s' < length s"
  by (auto simp: scan_escape_def split: list.splits if_splits dest!: scan_unicode_length)

text \<open>The loop, after the opening quote; \<open>buf\<close> is \<open>token_buffer\<close>.\<close>

function scan_string :: "string \<Rightarrow> string \<Rightarrow> token \<times> string" where
  "scan_string buf [] = (Parse_error, [])"
| "scan_string buf (c # s) =
     (if c = quote then (Value_string buf, s)
      else if c = backslash then
        (case scan_escape s of None \<Rightarrow> (Parse_error, s) | Some (bs, s1) \<Rightarrow> scan_string (buf @ bs) s1)
      else (case byte_ranges (code c) of
        None \<Rightarrow> (Parse_error, s)
      | Some rs \<Rightarrow> (case next_byte_in_range rs s of None \<Rightarrow> (Parse_error, s) | Some (bs, s1) \<Rightarrow> scan_string (buf @ c # bs) s1)))"
  by pat_completeness auto
termination
  by (relation "measure (length \<circ> snd)") (auto dest: scan_escape_length next_byte_in_range_length)

declare scan_string.simps(2) [simp del]

section \<open>Numbers\<close>

datatype number_state = Minus | Zero | Any1 | Decimal1 | Decimal2 | Exponent | Sign | Any2

datatype number_type = Unsigned | Signed | Floating

datatype move = Goto number_state | Done | Error

definition is_digit :: "char \<Rightarrow> bool" where
  "is_digit c \<longleftrightarrow> 0x30 \<le> code c \<and> code c \<le> 0x39"

abbreviation is_e :: "char \<Rightarrow> bool" where
  "is_e c \<equiv> c = CHR ''e'' \<or> c = CHR ''E''"

text \<open>The switch of each label of \<open>scan_number\<close>.\<close>

fun number_move :: "number_state \<Rightarrow> char \<Rightarrow> move" where
  "number_move Minus c = (if c = CHR ''0'' then Goto Zero else if is_digit c then Goto Any1 else Error)"
| "number_move Zero c = (if c = CHR ''.'' then Goto Decimal1 else if is_e c then Goto Exponent else Done)"
| "number_move Any1 c = (if is_digit c then Goto Any1 else if c = CHR ''.'' then Goto Decimal1 else if is_e c then Goto Exponent else Done)"
| "number_move Decimal1 c = (if is_digit c then Goto Decimal2 else Error)"
| "number_move Decimal2 c = (if is_digit c then Goto Decimal2 else if is_e c then Goto Exponent else Done)"
| "number_move Exponent c = (if c = CHR ''+'' \<or> c = CHR ''-'' then Goto Sign else if is_digit c then Goto Any2 else Error)"
| "number_move Sign c = (if is_digit c then Goto Any2 else Error)"
| "number_move Any2 c = (if is_digit c then Goto Any2 else Done)"

text \<open>The states in which the end of the input ends the number.\<close>

fun accepting :: "number_state \<Rightarrow> bool" where
  "accepting st \<longleftrightarrow> st = Zero \<or> st = Any1 \<or> st = Decimal2 \<or> st = Any2"

fun type_in :: "number_state \<Rightarrow> number_type \<Rightarrow> number_type" where
  "type_in Minus ty = Signed"
| "type_in Decimal1 ty = Floating"
| "type_in Exponent ty = Floating"
| "type_in st ty = ty"

fun number_loop :: "number_state \<Rightarrow> number_type \<Rightarrow> string \<Rightarrow> string \<Rightarrow> (number_type \<times> string \<times> string) option" where
  "number_loop st ty buf [] = (if accepting st then Some (ty, buf, []) else None)"
| "number_loop st ty buf (c # s) = (case number_move st c of
     Goto st1 \<Rightarrow> number_loop st1 (type_in st1 ty) (buf @ [c]) s
   | Done \<Rightarrow> Some (ty, buf, c # s)
   | Error \<Rightarrow> None)"

text \<open>\<open>std::strtoull\<close>, \<open>std::strtoll\<close> and \<open>std::strtod\<close> on the texts that the automaton accepts.\<close>

definition digits_value :: "string \<Rightarrow> int" where
  "digits_value = foldl (\<lambda>v c. 10 * v + (code c - 48)) 0"

fun signed_value :: "string \<Rightarrow> int" where
  "signed_value [] = 0"
| "signed_value (c # s) =
     (if c = CHR ''-'' then - digits_value s else if c = CHR ''+'' then digits_value s else digits_value (c # s))"

fun exponent_value :: "string \<Rightarrow> int" where
  "exponent_value [] = 0"
| "exponent_value (c # s) = (if is_e c then signed_value s else 0)"

definition decimal_value :: "string \<Rightarrow> rat" where
  "decimal_value s =
     (let whole = takeWhile is_digit s; r = dropWhile is_digit s;
          frac = (case r of [] \<Rightarrow> [] | c # r1 \<Rightarrow> if c = CHR ''.'' then takeWhile is_digit r1 else []);
          r2 = (case r of [] \<Rightarrow> [] | c # r1 \<Rightarrow> if c = CHR ''.'' then dropWhile is_digit r1 else r)
      in of_int (digits_value (whole @ frac)) * 10 powi (exponent_value r2 - int (length frac)))"

definition strtod :: "string \<Rightarrow> double option" where
  "strtod s =
     (let x = rnd (if s \<noteq> [] \<and> hd s = CHR ''-'' then - decimal_value (tl s) else decimal_value s)
      in if \<bar>x\<bar> < 2 ^ 1024 then Some x else None)"

definition number_token :: "number_type \<Rightarrow> string \<Rightarrow> token" where
  "number_token ty buf = (case ty of
     Unsigned \<Rightarrow> if digits_value buf < 2 ^ 64 then Value_unsigned (digits_value buf) else Value_float (strtod buf)
   | Signed \<Rightarrow> if - (2 ^ 63) \<le> signed_value buf \<and> signed_value buf < 2 ^ 63 then Value_integer (signed_value buf) else Value_float (strtod buf)
   | Floating \<Rightarrow> Value_float (strtod buf))"

text \<open>\<open>c\<close> is the first character, a minus sign or a digit.\<close>

definition scan_number :: "char \<Rightarrow> string \<Rightarrow> token \<times> string" where
  "scan_number c s =
     (let st = (if c = CHR ''-'' then Minus else if c = CHR ''0'' then Zero else Any1)
      in case number_loop st (type_in st Unsigned) [c] s of
           None \<Rightarrow> (Parse_error, s)
         | Some (ty, buf, s1) \<Rightarrow> (number_token ty buf, s1))"

section \<open>Tokens\<close>

definition scan_literal :: "string \<Rightarrow> token \<Rightarrow> string \<Rightarrow> token \<times> string" where
  "scan_literal text_rest tok s =
     (if take (length text_rest) s = text_rest then (tok, drop (length text_rest) s) else (Parse_error, s))"

definition is_blank :: "char \<Rightarrow> bool" where
  "is_blank c \<longleftrightarrow> c = CHR '' '' \<or> c = CHR 0x09 \<or> c = CHR 0x0A \<or> c = CHR 0x0D"

definition skip_whitespace :: "string \<Rightarrow> string" where
  "skip_whitespace = dropWhile is_blank"

definition skip_bom :: "string \<Rightarrow> string option" where
  "skip_bom s = (case s of
     [] \<Rightarrow> Some []
   | c # s1 \<Rightarrow> if code c = 0xEF then (if take 2 s1 = [CHR 0xBB, CHR 0xBF] then Some (drop 2 s1) else None) else Some s)"

definition scan :: "string \<Rightarrow> token \<times> string" where
  "scan s = (case skip_whitespace s of
     [] \<Rightarrow> (End_of_input, [])
   | c # s1 \<Rightarrow>
       if c = CHR ''['' then (Begin_array, s1)
       else if c = CHR '']'' then (End_array, s1)
       else if c = CHR ''{'' then (Begin_object, s1)
       else if c = CHR ''}'' then (End_object, s1)
       else if c = CHR '':'' then (Name_separator, s1)
       else if c = CHR '','' then (Value_separator, s1)
       else if c = CHR ''t'' then scan_literal ''rue'' Literal_true s1
       else if c = CHR ''f'' then scan_literal ''alse'' Literal_false s1
       else if c = CHR ''n'' then scan_literal ''ull'' Literal_null s1
       else if c = quote then scan_string [] s1
       else if c = CHR ''-'' \<or> is_digit c then scan_number c s1
       else if c = CHR 0x00 then (End_of_input, s1)
       else (Parse_error, s1))"

section \<open>A token shortens the input\<close>

lemma scan_string_length: "length (snd (scan_string buf s)) \<le> length s"
proof (induction buf s rule: scan_string.induct)
  case (2 buf c s)
  have "length (snd (scan_string (buf @ bs) s1)) \<le> Suc (length s)" if "c = backslash" "scan_escape s = Some (bs, s1)" for bs s1
    using 2(1) [OF _ that refl] scan_escape_length [OF that(2)] that(1) by simp
  moreover have "length (snd (scan_string (buf @ c # bs) s1)) \<le> Suc (length s)"
    if "c \<noteq> quote" "c \<noteq> backslash" "byte_ranges (code c) = Some rs" "next_byte_in_range rs s = Some (bs, s1)" for rs bs s1
    using 2(2) [OF that refl] next_byte_in_range_length [OF that(4)] by simp
  ultimately show ?case by (simp add: scan_string.simps split: option.splits)
qed simp

lemma number_loop_length: "number_loop st ty buf s = Some (ty', buf', s') \<Longrightarrow> length s' \<le> length s"
  by (induction st ty buf s rule: number_loop.induct) (auto split: move.splits if_splits)

lemma scan_number_length: "length (snd (scan_number c s)) \<le> length s"
  by (auto simp: scan_number_def Let_def split: option.splits dest: number_loop_length)

lemma scan_literal_length: "length (snd (scan_literal t tok s)) \<le> length s"
  by (simp add: scan_literal_def)

lemma scan_length:
  assumes "scan s = (tok, s')"
  shows "length s' \<le> length s" "tok \<noteq> End_of_input \<Longrightarrow> length s' < length s"
proof -
  have "length (skip_whitespace s) \<le> length s" by (simp add: skip_whitespace_def length_dropWhile_le)
  moreover have "s' = [] \<and> tok = End_of_input" if "skip_whitespace s = []" using assms that by (simp add: scan_def)
  moreover have "length s' \<le> length s1" if "skip_whitespace s = c # s1" for c s1
    using assms that scan_string_length [of "[]" s1] scan_number_length [of c s1] scan_literal_length [of _ _ s1]
    by (auto simp: scan_def split: if_splits) (metis snd_conv)+
  ultimately show "length s' \<le> length s" "tok \<noteq> End_of_input \<Longrightarrow> length s' < length s"
    by (cases "skip_whitespace s"; force)+
qed

end
