(* ===== verification/Json_Parser.thy ===== *)
theory Json_Parser
  imports Json_Lexer
begin

text \<open>
  The parser of \<open>nlohmann::json\<close>: the loop of \<open>sax_parse_internal\<close> over the tokens, together with
  \<open>json_sax_dom_parser\<close>, which builds the value. The stack of the loop (array or object) and the stack
  of references into the value under construction are one stack of unfinished containers; a container is
  put into the one around it when it is complete. An object is a \<open>std::map\<close>: its members are kept
  in the order of their keys, and a repeated key overwrites the value.
\<close>

section \<open>The code\<close>

datatype dom_frame = In_array "Json list" | In_object "(string \<times> Json) list" string

datatype parse_state = Finished Json string | Continue token string "dom_frame list"

text \<open>A key, the separator and the token after it; \<open>tok\<close> is the token that should be the key.\<close>

definition parse_key :: "token \<Rightarrow> string \<Rightarrow> (string \<times> token \<times> string) option" where
  "parse_key tok s = (case tok of
     Value_string k \<Rightarrow> (case scan s of (t, s1) \<Rightarrow> if t = Name_separator then Some (k, scan s1) else None)
   | _ \<Rightarrow> None)"

text \<open>After a value: what the innermost container expects.\<close>

fun next_state :: "Json \<Rightarrow> string \<Rightarrow> dom_frame list \<Rightarrow> parse_state option" where
  "next_state v s [] = Some (Finished v s)"
| "next_state v s (In_array xs # st) = (case scan s of (t, s1) \<Rightarrow>
     if t = Value_separator then (case scan s1 of (t2, s2) \<Rightarrow> Some (Continue t2 s2 (In_array (xs @ [v]) # st)))
     else if t = End_array then next_state (JArray (xs @ [v])) s1 st
     else None)"
| "next_state v s (In_object m k # st) = (case scan s of (t, s1) \<Rightarrow>
     if t = Value_separator then
       (case scan s1 of (t2, s2) \<Rightarrow>
          map_option (\<lambda>(k1, t3, s3). Continue t3 s3 (In_object (map_insert k v m) k1 # st)) (parse_key t2 s2))
     else if t = End_object then next_state (JObject (map_insert k v m)) s1 st
     else None)"

definition after_value :: "Json \<Rightarrow> string \<Rightarrow> dom_frame list \<Rightarrow> json_error + parse_state" where
  "after_value v s st = (case next_state v s st of None \<Rightarrow> Inl ParseError | Some p \<Rightarrow> Inr p)"

text \<open>One iteration of the loop: \<open>tok\<close> is \<open>last_token\<close>.\<close>

fun sax_step :: "token \<Rightarrow> string \<Rightarrow> dom_frame list \<Rightarrow> json_error + parse_state" where
  "sax_step Begin_object s st = (case scan s of (t, s1) \<Rightarrow>
     if t = End_object then after_value (JObject []) s1 st
     else (case parse_key t s1 of None \<Rightarrow> Inl ParseError | Some (k, t2, s2) \<Rightarrow> Inr (Continue t2 s2 (In_object [] k # st))))"
| "sax_step Begin_array s st = (case scan s of (t, s1) \<Rightarrow>
     if t = End_array then after_value (JArray []) s1 st else Inr (Continue t s1 (In_array [] # st)))"
| "sax_step (Value_float x) s st = (case x of None \<Rightarrow> Inl OutOfRange | Some y \<Rightarrow> after_value (JFloat y) s st)"
| "sax_step Literal_false s st = after_value (JBool False) s st"
| "sax_step Literal_null s st = after_value JNull s st"
| "sax_step Literal_true s st = after_value (JBool True) s st"
| "sax_step (Value_integer i) s st = after_value (JInt i) s st"
| "sax_step (Value_string t) s st = after_value (JString t) s st"
| "sax_step (Value_unsigned n) s st = after_value (JInt n) s st"
| "sax_step _ s st = Inl ParseError"

definition weight :: "token \<times> string \<Rightarrow> nat" where
  "weight = (\<lambda>(t, s). length s + (if t = End_of_input then 0 else 1))"

lemma scan_weight: "weight (scan s) \<le> length s"
  using scan_length [of s] by (cases "scan s") (auto simp: weight_def Suc_le_eq)

lemma parse_key_weight:
  assumes "parse_key t s = Some (k, t2, s2)"
  shows "weight (t2, s2) < length s"
proof -
  obtain s1 where "scan s = (Name_separator, s1)" "(t2, s2) = scan s1"
    using assms by (auto simp: parse_key_def split: token.splits prod.splits if_splits)
  then show ?thesis using scan_length(2) [of s Name_separator s1] scan_weight [of s1] by simp
qed

lemma next_state_weight: "next_state v s st = Some (Continue t s' st') \<Longrightarrow> weight (t, s') < length s"
proof (induction v s st rule: next_state.induct)
  case (2 v s xs st)
  then obtain t1 s1 where sc: "scan s = (t1, s1)" by (cases "scan s")
  then have l: "t1 = Value_separator \<or> t1 = End_array \<Longrightarrow> length s1 < length s" using scan_length(2) [OF sc] by auto
  show ?case using 2 l sc scan_weight [of s1] by (fastforce split: if_splits prod.splits)
next
  case (3 v s m k st)
  then obtain t1 s1 where sc: "scan s = (t1, s1)" by (cases "scan s")
  then have l: "t1 = Value_separator \<or> t1 = End_object \<Longrightarrow> length s1 < length s" using scan_length(2) [OF sc] by auto
  have "weight (t, s') < length s" if sep: "t1 = Value_separator"
  proof -
    obtain t2 s2 k1 where "scan s1 = (t2, s2)" "parse_key t2 s2 = Some (k1, t, s')" using 3(2) sc sep by (auto split: prod.splits)
    then show ?thesis using parse_key_weight [of t2 s2] scan_length(1) [of s1 t2 s2] l sep by fastforce
  qed
  then show ?case using 3 l sc by (fastforce split: if_splits)
qed simp

lemma sax_step_weight: "sax_step tok s st = Inr (Continue t s' st') \<Longrightarrow> weight (t, s') < weight (tok, s)"
proof -
  assume a: "sax_step tok s st = Inr (Continue t s' st')"
  have val: "weight (t, s') < length s1" if "after_value v s1 st = Inr (Continue t s' st')" for v s1
    using that next_state_weight by (auto simp: after_value_def split: option.splits)
  have "weight (t, s') \<le> length s" if "tok = Begin_object \<or> tok = Begin_array"
  proof -
    obtain t1 s1 where sc: "scan s = (t1, s1)" by (cases "scan s")
    then have "length s1 \<le> length s" "weight (t1, s1) \<le> length s" using scan_length(1) [OF sc] scan_weight [of s] by simp_all
    then show ?thesis using a that sc val [of _ s1] parse_key_weight [of t1 s1] by (fastforce split: if_splits option.splits)
  qed
  then have "weight (t, s') \<le> length s" using a by (cases tok) (auto split: option.splits dest!: val)
  moreover have "tok \<noteq> End_of_input" using a by auto
  ultimately show ?thesis by (simp add: weight_def)
qed

function sax_parse :: "token \<Rightarrow> string \<Rightarrow> dom_frame list \<Rightarrow> json_error + (Json \<times> string)" where
  "sax_parse tok s st = (case sax_step tok s st of
     Inl e \<Rightarrow> Inl e
   | Inr (Finished v s1) \<Rightarrow> Inr (v, s1)
   | Inr (Continue t s1 st1) \<Rightarrow> sax_parse t s1 st1)"
  by pat_completeness auto
termination
  by (relation "measure (\<lambda>(t, s, st). weight (t, s))") (auto dest: sax_step_weight)

declare sax_parse.simps [simp del]

text \<open>\<open>strict\<close>: the input has to end after the value (or at a null byte, which the lexer takes for its end).\<close>

definition json_parse :: "bool \<Rightarrow> string \<Rightarrow> json_error + Json" where
  "json_parse strict s = (case skip_bom s of
     None \<Rightarrow> Inl ParseError
   | Some s1 \<Rightarrow> (case scan s1 of (t, s2) \<Rightarrow> (case sax_parse t s2 [] of
       Inl e \<Rightarrow> Inl e
     | Inr (j, s3) \<Rightarrow> if strict \<and> fst (scan s3) \<noteq> End_of_input then Inl ParseError else Inr j)))"

end
