(* ===== verification/Json_Wf.thy ===== *)
theory Json_Wf
  imports Json_Parser
begin

text \<open>
  What the parser produces: strings are valid UTF-8, integers fit the 64-bit types of the library, floats
  are finite doubles, and the members of an object are in the order of their keys, each once.
\<close>

section \<open>UTF-8\<close>

function utf8_ok :: "string \<Rightarrow> bool" where
  "utf8_ok [] = True"
| "utf8_ok (c # s) =
     (if code c < 0x80 then utf8_ok s
      else (case byte_ranges (code c) of
        None \<Rightarrow> False
      | Some rs \<Rightarrow> (case next_byte_in_range rs s of None \<Rightarrow> False | Some (bs, s1) \<Rightarrow> utf8_ok s1)))"
  by pat_completeness auto
termination
  by (relation "measure length") (auto dest: next_byte_in_range_length)

declare utf8_ok.simps(2) [simp del]

lemma next_byte_in_range_append:
  "next_byte_in_range rs s = Some (bs, s1) \<Longrightarrow> s = bs @ s1 \<and> next_byte_in_range rs (bs @ t) = Some (bs, t)"
  by (induction rs s arbitrary: bs rule: next_byte_in_range.induct) (fastforce split: if_splits)+

lemma utf8_ok_append: "utf8_ok s \<Longrightarrow> utf8_ok t \<Longrightarrow> utf8_ok (s @ t)"
proof (induction s rule: utf8_ok.induct)
  case (2 c s)
  show ?case
  proof (cases "code c < 0x80")
    case False
    then obtain rs bs s1 where r: "byte_ranges (code c) = Some rs" "next_byte_in_range rs s = Some (bs, s1)" "utf8_ok s1"
      using 2(3) by (auto simp: utf8_ok.simps(2) split: option.splits)
    have "s = bs @ s1" "next_byte_in_range rs (s @ t) = Some (bs, s1 @ t)"
      using next_byte_in_range_append [OF r(2)] by (metis append_assoc)+
    then show ?thesis using 2(2) [OF False r(1,2) refl r(3) 2(4)] False r(1) by (simp add: utf8_ok.simps)
  qed (use 2 in \<open>simp add: utf8_ok.simps\<close>)
qed simp

lemma utf8_ok_char:
  assumes "byte_ranges (code c) = Some rs" "next_byte_in_range rs s = Some (bs, s1)"
  shows "utf8_ok (c # bs)"
proof -
  have n: "next_byte_in_range rs bs = Some (bs, [])" using next_byte_in_range_append [OF assms(2), of "[]"] by simp
  moreover have "bs = []" if "code c < 0x80" using that assms by (simp add: byte_ranges_def split: if_splits)
  ultimately show ?thesis using assms(1) by (auto simp: utf8_ok.simps)
qed

lemma or_plus:
  assumes "0 \<le> n" "n < 2 ^ k"
  shows "push_bit k m OR n = push_bit k m + (n :: int)"
proof -
  have "take_bit k n = n" using assms by (simp add: take_bit_int_eq_self_iff)
  then show ?thesis using concat_bit_eq [of k n m] concat_bit_def [of k n m] by (simp add: or.commute add.commute)
qed

lemma lead_bytes:
  "0 \<le> n \<Longrightarrow> n < 32 \<Longrightarrow> 0xC0 OR n = 0xC0 + (n :: int)"
  "0 \<le> n \<Longrightarrow> n < 16 \<Longrightarrow> 0xE0 OR n = 0xE0 + (n :: int)"
  "0 \<le> n \<Longrightarrow> n < 8 \<Longrightarrow> 0xF0 OR n = 0xF0 + (n :: int)"
  using or_plus [of n 5 6] or_plus [of n 4 14] or_plus [of n 3 30] by (simp_all add: push_bit_eq_mult)

lemma tail_byte: "0x80 OR (n AND 0x3F) = 0x80 + (n :: int) mod 64"
proof -
  have "n AND 0x3F = n mod 64" using take_bit_eq_mask [of 6 n] take_bit_eq_mod [of 6 n] by (simp add: mask_eq_exp_minus_1)
  then show ?thesis using or_plus [of "n mod 64" 6 2] by (simp add: push_bit_eq_mult)
qed

lemma code_char_of: "0 \<le> b \<Longrightarrow> b < 256 \<Longrightarrow> code (char_of b) = b"
  by simp

lemma hex_digit_range: "hex_digit c = Some d \<Longrightarrow> 0 \<le> d \<and> d < 16"
  by (auto simp: hex_digit_def split: if_splits)

lemma codepoint_from_range:
  "codepoint_from fs cp s = Some (cp', s') \<Longrightarrow> cp \<le> cp' \<and> cp' \<le> cp + (\<Sum>f\<leftarrow>fs. 15 * 2 ^ f)"
proof (induction fs cp s rule: codepoint_from.induct)
  case (3 f fs cp c s)
  then obtain d where d: "hex_digit c = Some d" "codepoint_from fs (cp + push_bit f d) s = Some (cp', s')" by (auto split: option.splits)
  then have "0 \<le> push_bit f d" "push_bit f d \<le> 15 * 2 ^ f" using hex_digit_range [OF d(1)] by (auto simp: push_bit_eq_mult)
  then show ?case using 3(1) [OF d] by (simp del: push_bit_nonnegative_int_iff)
qed auto

lemma get_codepoint_range: "get_codepoint s = Some (cp, s') \<Longrightarrow> 0 \<le> cp \<and> cp < 0x10000"
  using codepoint_from_range [of "[12, 8, 4, 0]" 0 s cp s'] by (simp add: get_codepoint_def)

lemma div_div_64: "cp div 64 div 64 = cp div 4096" "cp div 4096 div 64 = cp div (262144 :: int)"
  by (simp_all flip: zdiv_zmult2_eq)

lemma utf8_sequences:
  assumes "0 \<le> c" "c < 64"
  shows "2 \<le> a \<Longrightarrow> a < 32 \<Longrightarrow> utf8_ok (map char_of [0xC0 + a, 0x80 + c :: int])"
    and "0 \<le> a \<Longrightarrow> a < 16 \<Longrightarrow> 0 \<le> b \<Longrightarrow> b < 64 \<Longrightarrow> (a = 0 \<Longrightarrow> 32 \<le> b) \<Longrightarrow> (a = 13 \<Longrightarrow> b < 32)
      \<Longrightarrow> utf8_ok (map char_of [0xE0 + a, 0x80 + b, 0x80 + c :: int])"
    and "0 \<le> a \<Longrightarrow> a < 5 \<Longrightarrow> 0 \<le> b \<Longrightarrow> b < 64 \<Longrightarrow> (a = 0 \<Longrightarrow> 16 \<le> b) \<Longrightarrow> a \<le> 3 \<or> a = 4 \<and> b < 16 \<Longrightarrow> 0 \<le> d \<Longrightarrow> d < 64
      \<Longrightarrow> utf8_ok (map char_of [0xF0 + a, 0x80 + b, 0x80 + d, 0x80 + c :: int])"
  using assms by (auto simp: utf8_ok.simps byte_ranges_def)

lemma utf8_ok_codepoint:
  assumes "0 \<le> cp" "cp \<le> 0x10FFFF" "\<not> (0xD800 \<le> cp \<and> cp \<le> 0xDFFF)"
  shows "utf8_ok (codepoint_bytes cp)"
proof -
  consider "cp < 0x80" | "0x80 \<le> cp" "cp \<le> 0x7FF" | "0x800 \<le> cp" "cp \<le> 0xFFFF" | "0x10000 \<le> cp" by linarith
  then show ?thesis
  proof cases
    case 1
    then show ?thesis using assms(1) by (simp add: codepoint_bytes_def utf8_ok.simps)
  next
    case 2
    then have "2 \<le> cp div 64" "cp div 64 < 32" by linarith+
    then show ?thesis using 2 lead_bytes(1) [of "cp div 64"] utf8_sequences(1) [of "cp mod 64" "cp div 64"]
      by (simp add: codepoint_bytes_def drop_bit_eq_div tail_byte)
  next
    case 3
    then have a: "0 \<le> cp div 4096" "cp div 4096 < 16" by linarith+
    have "cp div 64 mod 64 = cp div 64 - 64 * (cp div 4096)" using minus_mult_div_eq_mod [of "cp div 64" 64] by (simp add: div_div_64)
    then have "cp div 4096 = 0 \<Longrightarrow> 32 \<le> cp div 64 mod 64" "cp div 4096 = 13 \<Longrightarrow> cp div 64 mod 64 < 32"
      using 3 assms(3) by linarith+
    then show ?thesis using 3 a lead_bytes(2) [of "cp div 4096"] utf8_sequences(2) [of "cp mod 64" "cp div 4096" "cp div 64 mod 64"]
      by (simp add: codepoint_bytes_def drop_bit_eq_div tail_byte)
  next
    case 4
    then have a: "0 \<le> cp div 262144" "cp div 262144 < 5" using assms(2) by linarith+
    have "cp div 4096 mod 64 = cp div 4096 - 64 * (cp div 262144)" using minus_mult_div_eq_mod [of "cp div 4096" 64] by (simp add: div_div_64)
    then have "cp div 262144 = 0 \<Longrightarrow> 16 \<le> cp div 4096 mod 64" "cp div 262144 \<le> 3 \<or> cp div 262144 = 4 \<and> cp div 4096 mod 64 < 16"
      using 4 assms(2) by linarith+
    then show ?thesis using 4 a lead_bytes(3) [of "cp div 262144"]
        utf8_sequences(3) [of "cp mod 64" "cp div 262144" "cp div 4096 mod 64" "cp div 64 mod 64"]
      by (simp add: codepoint_bytes_def drop_bit_eq_div tail_byte)
  qed
qed

lemma scan_unicode_utf8: "scan_unicode s = Some (bs, s') \<Longrightarrow> utf8_ok bs"
  by (auto simp: scan_unicode_def push_bit_eq_mult split: option.splits if_splits list.splits dest!: get_codepoint_range
      intro!: utf8_ok_codepoint)

lemma scan_escape_utf8: "scan_escape s = Some (bs, s') \<Longrightarrow> utf8_ok bs"
  by (auto simp: scan_escape_def utf8_ok.simps split: list.splits if_splits dest: scan_unicode_utf8)

definition finite_double :: "double \<Rightarrow> bool" where
  "finite_double x \<longleftrightarrow> rnd x = x \<and> \<bar>x\<bar> < 2 ^ 1024"

fun token_ok :: "token \<Rightarrow> bool" where
  "token_ok (Value_string t) = utf8_ok t"
| "token_ok (Value_unsigned n) = (0 \<le> n \<and> n < 2 ^ 64)"
| "token_ok (Value_integer i) = (- (2 ^ 63) \<le> i \<and> i < 2 ^ 63)"
| "token_ok (Value_float (Some x)) = finite_double x"
| "token_ok _ = True"

lemma scan_string_ok: "utf8_ok buf \<Longrightarrow> token_ok (fst (scan_string buf s))"
proof (induction buf s rule: scan_string.induct)
  case (2 buf c s)
  have "token_ok (fst (scan_string (buf @ bs) s1))" if "c = backslash" "scan_escape s = Some (bs, s1)" for bs s1
    using 2(1) [OF _ that refl] that 2(3) scan_escape_utf8 [OF that(2)] utf8_ok_append [of buf bs] by simp
  moreover have "token_ok (fst (scan_string (buf @ c # bs) s1))"
    if "c \<noteq> quote" "c \<noteq> backslash" "byte_ranges (code c) = Some rs" "next_byte_in_range rs s = Some (bs, s1)" for rs bs s1
    using 2(2) [OF that refl] 2(3) utf8_ok_char [OF that(3,4)] utf8_ok_append [of buf "c # bs"] by simp
  ultimately show ?case using 2(3) by (simp add: scan_string.simps split: option.splits)
qed simp

section \<open>Numbers\<close>

text \<open>A rounded number is not rounded again.\<close>

lemma rnd_rnd [simp]: "rnd (rnd x) = rnd x"
proof (cases "x = 0")
  case False
  let ?u = "2 powi ulp_exp x :: rat" and ?m = "round_even (x / 2 powi ulp_exp x)"
  have "\<bar>x\<bar> < 2 powi (expo x + 1)" using expo_bounds [OF False] by simp
  also have "\<dots> \<le> 2 powi (53 + ulp_exp x)" by (rule power_int_increasing) (simp_all add: ulp_exp_def)
  also have "\<dots> = 2 ^ 53 * ?u" by (simp add: power_int_add)
  finally have "\<bar>x / ?u\<bar> \<le> 2 ^ 53" by (simp add: abs_divide divide_le_eq)
  then have "x / ?u \<le> of_int (2 ^ 53)" "of_int (- (2 ^ 53)) \<le> x / ?u" unfolding abs_le_iff by simp_all
  then have "?m \<le> round_even (of_int (2 ^ 53))" "round_even (of_int (- (2 ^ 53))) \<le> ?m" by (simp_all only: round_even_mono)
  then have "\<bar>?m\<bar> \<le> 2 ^ 53" unfolding round_even_of_int by linarith
  then have "rnd (of_int ?m * ?u) = of_int ?m * ?u" by (rule rnd_exact) (simp add: ulp_exp_def)
  then show ?thesis using False by (simp add: rnd_def [of x])
qed (simp add: rnd_def)

lemma strtod_finite: "strtod s = Some x \<Longrightarrow> finite_double x"
  by (auto simp: strtod_def finite_double_def Let_def split: if_splits)

lemma digits_value_nonneg: "list_all is_digit s \<Longrightarrow> 0 \<le> digits_value s"
proof -
  have "0 \<le> v \<Longrightarrow> list_all is_digit s \<Longrightarrow> 0 \<le> foldl (\<lambda>v c. 10 * v + (code c - 48)) v s" for v
    by (induction s arbitrary: v) (auto simp: is_digit_def)
  then show "list_all is_digit s \<Longrightarrow> 0 \<le> digits_value s" by (simp add: digits_value_def)
qed

lemma number_loop_type: "number_loop st ty buf s = Some (Unsigned, buf', s') \<Longrightarrow> ty = Unsigned"
proof (induction st ty buf s rule: number_loop.induct)
  case (2 st ty buf c s)
  show ?case
  proof (cases "number_move st c")
    case (Goto st1)
    then have "type_in st1 ty = Unsigned" using 2 by simp
    then show ?thesis by (cases st1) auto
  qed (use 2 in auto)
qed (auto split: if_splits)

lemma number_loop_digits:
  "number_loop st ty buf s = Some (Unsigned, buf', s') \<Longrightarrow> st = Zero \<or> st = Any1 \<Longrightarrow> list_all is_digit buf \<Longrightarrow> list_all is_digit buf'"
proof (induction st ty buf s rule: number_loop.induct)
  case (2 st ty buf c s)
  show ?case
  proof (cases "number_move st c")
    case (Goto st1)
    then have "st1 = Any1 \<and> is_digit c \<or> type_in st1 ty = Floating" using 2(3) by (auto split: if_splits)
    then show ?thesis using 2 Goto by (auto dest: number_loop_type)
  qed (use 2 in auto)
qed (auto split: if_splits)

lemma float_token_ok: "token_ok (Value_float (strtod s))"
  using strtod_finite [of s] by (cases "strtod s") auto

lemma scan_number_ok: "is_digit c \<or> c = CHR ''-'' \<Longrightarrow> token_ok (fst (scan_number c s))"
proof -
  assume c: "is_digit c \<or> c = CHR ''-''"
  let ?st = "if c = CHR ''-'' then Minus else if c = CHR ''0'' then Zero else Any1"
  show ?thesis
  proof (cases "number_loop ?st (type_in ?st Unsigned) [c] s")
    case (Some r)
    then obtain ty buf s1 where r: "number_loop ?st (type_in ?st Unsigned) [c] s = Some (ty, buf, s1)" by (cases r) auto
    have "0 \<le> digits_value buf" if "ty = Unsigned"
    proof -
      have "c \<noteq> CHR ''-''" using r that by (auto dest: number_loop_type)
      then show ?thesis using r that c number_loop_digits [of ?st] by (intro digits_value_nonneg) (auto split: if_splits)
    qed
    then show ?thesis using r float_token_ok by (auto simp: scan_number_def Let_def number_token_def split: number_type.splits)
  qed (simp add: scan_number_def Let_def)
qed

lemma scan_ok: "token_ok (fst (scan s))"
  using scan_string_ok [of "[]"] scan_number_ok
  by (auto simp: scan_def scan_literal_def split: list.splits)

section \<open>Values\<close>

fun wf_json :: "Json \<Rightarrow> bool" where
  "wf_json (JInt i) = (- (2 ^ 63) \<le> i \<and> i < 2 ^ 64)"
| "wf_json (JFloat x) = finite_double x"
| "wf_json (JString s) = utf8_ok s"
| "wf_json (JArray xs) = (\<forall>v \<in> set xs. wf_json v)"
| "wf_json (JObject m) = (sorted_wrt (<) (map fst m) \<and> (\<forall>e \<in> set m. utf8_ok (fst e) \<and> wf_json (snd e)))"
| "wf_json _ = True"

fun frame_ok :: "dom_frame \<Rightarrow> bool" where
  "frame_ok (In_array xs) = wf_json (JArray xs)"
| "frame_ok (In_object m k) = (wf_json (JObject m) \<and> utf8_ok k)"

lemma set_map_insert: "set (map_insert k v m) \<subseteq> insert (k, v) (set m)"
  by (induction k v m rule: map_insert.induct) auto

lemma sorted_map_insert: "sorted_wrt (<) (map fst m) \<Longrightarrow> sorted_wrt (<) (map fst (map_insert k v m))"
proof (induction k v m rule: map_insert.induct)
  case (2 k v k1 v1 m)
  have "\<forall>e \<in> set (map_insert k v m). fst e = k \<or> fst e \<in> fst ` set m" using set_map_insert [of k v m] by force
  then show ?case using 2 by (fastforce intro: less_trans)
qed simp

lemma wf_map_insert: "wf_json (JObject m) \<Longrightarrow> utf8_ok k \<Longrightarrow> wf_json v \<Longrightarrow> wf_json (JObject (map_insert k v m))"
  using set_map_insert [of k v m] sorted_map_insert [of m k v] by (auto 0 3)

lemma parse_key_ok:
  assumes "parse_key t s = Some (k, t2, s2)" "token_ok t"
  shows "utf8_ok k \<and> token_ok t2"
proof -
  obtain s1 where "t = Value_string k" "scan s1 = (t2, s2)"
    using assms(1) by (auto simp: parse_key_def split: token.splits prod.splits if_splits)
  then show ?thesis using assms(2) scan_ok [of s1] by simp
qed

fun state_ok :: "parse_state \<Rightarrow> bool" where
  "state_ok (Finished v s) = wf_json v"
| "state_ok (Continue t s st) = (token_ok t \<and> list_all frame_ok st)"

lemma scan_fst_ok: "scan s = (t, s1) \<Longrightarrow> token_ok t"
  using scan_ok [of s] by simp

lemma next_state_ok: "next_state v s st = Some p \<Longrightarrow> wf_json v \<Longrightarrow> list_all frame_ok st \<Longrightarrow> state_ok p"
proof (induction v s st rule: next_state.induct)
  case (2 v s xs st)
  then show ?case by (auto split: prod.splits if_splits dest: scan_fst_ok)
next
  case (3 v s m k st)
  then have w: "wf_json (JObject (map_insert k v m))" by (intro wf_map_insert) auto
  show ?case using 3 w by (auto split: prod.splits if_splits simp del: wf_json.simps dest!: parse_key_ok dest: scan_fst_ok)
qed auto

lemma after_value_ok: "after_value v s st = Inr p \<Longrightarrow> wf_json v \<Longrightarrow> list_all frame_ok st \<Longrightarrow> state_ok p"
  by (auto simp: after_value_def split: option.splits dest: next_state_ok)

lemma sax_step_ok: "sax_step t s st = Inr p \<Longrightarrow> token_ok t \<Longrightarrow> list_all frame_ok st \<Longrightarrow> state_ok p"
proof (induction t s st rule: sax_step.induct)
  case (1 s st)
  obtain t1 s1 where sc: "scan s = (t1, s1)" by fastforce
  show ?case using 1 sc scan_fst_ok [OF sc] after_value_ok [of "JObject []"]
    by (auto split: if_splits option.splits dest: parse_key_ok)
next
  case (2 s st)
  obtain t1 s1 where sc: "scan s = (t1, s1)" by fastforce
  show ?case using 2 sc scan_fst_ok [OF sc] after_value_ok [of "JArray []"] by (auto split: if_splits)
qed (auto dest: after_value_ok split: option.splits)

lemma sax_parse_ok: "sax_parse t s st = Inr (v, s') \<Longrightarrow> token_ok t \<Longrightarrow> list_all frame_ok st \<Longrightarrow> wf_json v"
proof (induction t s st rule: sax_parse.induct)
  case (1 t s st)
  then obtain p where p: "sax_step t s st = Inr p" "state_ok p" using sax_step_ok
    by (cases "sax_step t s st") (auto simp: sax_parse.simps [of t])
  show ?case
  proof (cases p)
    case (Finished v1 s1)
    then show ?thesis using 1(2) p by (simp add: sax_parse.simps [of t])
  next
    case (Continue t1 s1 st1)
    then show ?thesis using 1(1) [OF p(1) Continue] 1(2) p by (simp add: sax_parse.simps [of t])
  qed
qed

lemma json_parse_ok: "json_parse strict s = Inr j \<Longrightarrow> wf_json j"
  by (auto simp: json_parse_def split: option.splits prod.splits sum.splits if_splits dest: sax_parse_ok scan_fst_ok)

end
