(* ===== verification/Json_Dump.thy ===== *)
theory Json_Dump
  imports Json_Wf
begin

text \<open>
  The serialiser of \<open>nlohmann::json\<close> (\<open>class serializer\<close>) with the error handler \<open>strict\<close>, the only one
  the program uses: a string that is not UTF-8 makes \<open>dump\<close> throw, the value \<open>None\<close>. The 512 bytes of
  \<open>string_buffer\<close> are written out whenever they fill up; here they are the text written so far. The
  shortest representation of a float, computed by \<open>to_chars\<close>, is the argument \<open>show_double\<close>. Indentation
  steps up to 512 are covered, as \<open>indent_string\<close> grows by doubling.
\<close>

section \<open>Strings\<close>

text \<open>The table of the decoder: 256 classes of bytes and nine rows of sixteen transitions.\<close>

definition utf8d :: "nat list" where
  "utf8d = replicate 128 0 @ replicate 16 1 @ replicate 16 9 @ replicate 32 7 @ [8, 8] @ replicate 30 2
     @ [10, 3, 3, 3, 3, 3, 3, 3, 3, 3, 3, 3, 3, 4, 3, 3]
     @ [11, 6, 6, 6, 5, 8, 8, 8, 8, 8, 8, 8, 8, 8, 8, 8]
     @ [0, 1, 2, 3, 5, 8, 7, 1, 1, 1, 4, 6, 1, 1, 1, 1]
     @ [1, 1, 1, 1, 1, 1, 1, 1, 1, 1, 1, 1, 1, 1, 1, 1]
     @ [1, 0, 1, 1, 1, 1, 1, 0, 1, 0, 1, 1, 1, 1, 1, 1]
     @ [1, 2, 1, 1, 1, 1, 1, 2, 1, 2, 1, 1, 1, 1, 1, 1]
     @ [1, 1, 1, 1, 1, 1, 1, 2, 1, 1, 1, 1, 1, 1, 1, 1]
     @ [1, 2, 1, 1, 1, 1, 1, 1, 1, 2, 1, 1, 1, 1, 1, 1]
     @ [1, 1, 1, 1, 1, 1, 1, 3, 1, 3, 1, 1, 1, 1, 1, 1]
     @ [1, 3, 1, 1, 1, 1, 1, 3, 1, 3, 1, 1, 1, 1, 1, 1]
     @ [1, 3, 1, 1, 1, 1, 1, 1, 1, 1, 1, 1, 1, 1, 1, 1]"

abbreviation (input) UTF8_ACCEPT :: nat where "UTF8_ACCEPT \<equiv> 0"
abbreviation (input) UTF8_REJECT :: nat where "UTF8_REJECT \<equiv> 1"

text \<open>The new state and code point.\<close>

definition decode :: "nat \<Rightarrow> u32 \<Rightarrow> int \<Rightarrow> nat \<times> u32" where
  "decode state codep byte =
     (let type = utf8d ! nat byte;
          codep1 = (if state \<noteq> UTF8_ACCEPT then (word_of_int byte AND 0x3F) OR push_bit 6 codep else drop_bit type 0xFF AND word_of_int byte)
      in (utf8d ! (256 + state * 16 + type), codep1))"

definition hex4 :: "nat \<Rightarrow> string" where
  "hex4 n = map (\<lambda>d. ''0123456789abcdef'' ! d) [n div 4096 mod 16, n div 256 mod 16, n div 16 mod 16, n mod 16]"

text \<open>What is written for a complete code point; \<open>c\<close> is its last byte, those before it have been copied.\<close>

definition dump_codepoint :: "bool \<Rightarrow> u32 \<Rightarrow> char \<Rightarrow> string" where
  "dump_codepoint ensure_ascii cp c =
     (if cp = 0x08 then [backslash, CHR ''b'']
      else if cp = 0x09 then [backslash, CHR ''t'']
      else if cp = 0x0A then [backslash, CHR ''n'']
      else if cp = 0x0C then [backslash, CHR ''f'']
      else if cp = 0x0D then [backslash, CHR ''r'']
      else if cp = 0x22 then [backslash, quote]
      else if cp = 0x5C then [backslash, backslash]
      else if cp \<le> 0x1F \<or> ensure_ascii \<and> 0x7F \<le> cp then
        (if cp \<le> 0xFFFF then [backslash, CHR ''u''] @ hex4 (unat cp)
         else [backslash, CHR ''u''] @ hex4 (unat (0xD7C0 + drop_bit 10 cp)) @ [backslash, CHR ''u''] @ hex4 (unat (0xDC00 + (cp AND 0x3FF))))
      else [c])"

fun dump_from :: "bool \<Rightarrow> nat \<Rightarrow> u32 \<Rightarrow> string \<Rightarrow> string option" where
  "dump_from ensure_ascii state cp [] = (if state = UTF8_ACCEPT then Some [] else None)"
| "dump_from ensure_ascii state cp (c # s) = (case decode state cp (code c) of (state1, cp1) \<Rightarrow>
     if state1 = UTF8_ACCEPT then map_option ((@) (dump_codepoint ensure_ascii cp1 c)) (dump_from ensure_ascii state1 cp1 s)
     else if state1 = UTF8_REJECT then None
     else map_option ((@) (if ensure_ascii then [] else [c])) (dump_from ensure_ascii state1 cp1 s))"

definition dump_escaped :: "bool \<Rightarrow> string \<Rightarrow> string option" where
  "dump_escaped ensure_ascii s = dump_from ensure_ascii UTF8_ACCEPT 0 s"

section \<open>Integers\<close>

function count_digits :: "nat \<Rightarrow> nat" where
  "count_digits x =
     (if x < 10 then 1 else if x < 100 then 2 else if x < 1000 then 3 else if x < 10000 then 4 else 4 + count_digits (x div 10000))"
  by pat_completeness auto
termination
  by (relation "measure id") auto

declare count_digits.simps [simp del]

definition digit :: "nat \<Rightarrow> char" where
  "digit d = char_of (48 + d)"

text \<open>The loop that fills \<open>number_buffer\<close> from the back, two digits at a time; \<open>p\<close> is \<open>buffer_ptr\<close>.\<close>

function fill_digits :: "nat \<Rightarrow> nat \<Rightarrow> string \<Rightarrow> string" where
  "fill_digits x p buf =
     (if 100 \<le> x then fill_digits (x div 100) (p - 2) (buf[p - 1 := digit (x mod 100 mod 10), p - 2 := digit (x mod 100 div 10)])
      else if 10 \<le> x then buf[p - 1 := digit (x mod 10), p - 2 := digit (x div 10)]
      else buf[p - 1 := digit x])"
  by pat_completeness auto
termination
  by (relation "measure fst") auto

declare fill_digits.simps [simp del]

definition remove_sign :: "int \<Rightarrow> nat" where
  "remove_sign x = nat (- (x + 1)) + 1"

definition dump_integer :: "int \<Rightarrow> string" where
  "dump_integer x =
     (if x = 0 then ''0''
      else let buf = replicate 64 (CHR 0x00);
               (buf1, abs_value, n_chars) =
                 (if x < 0 then (buf[0 := CHR ''-''], remove_sign x, 1 + count_digits (remove_sign x)) else (buf, nat x, count_digits (nat x)))
           in take n_chars (fill_digits abs_value n_chars buf1))"

section \<open>Values\<close>

abbreviation newline_char :: char where "newline_char \<equiv> CHR 0x0A"

text \<open>The items of a container, each but the last followed by the separator.\<close>

fun join :: "string \<Rightarrow> string list \<Rightarrow> string" where
  "join sep [] = []"
| "join sep [x] = x"
| "join sep (x # y # xs) = x @ sep @ join sep (y # xs)"

definition indent :: "nat \<Rightarrow> string" where
  "indent n = replicate n (CHR '' '')"

text \<open>The brackets around the items of a container that is not empty.\<close>

definition enclose :: "bool \<Rightarrow> nat \<Rightarrow> nat \<Rightarrow> char \<Rightarrow> char \<Rightarrow> string list \<Rightarrow> string" where
  "enclose pretty cur_indent new_indent open_char close_char items =
     (if pretty then [open_char, newline_char] @ join [CHR '','', newline_char] (map ((@) (indent new_indent)) items)
        @ [newline_char] @ indent cur_indent @ [close_char]
      else [open_char] @ join '','' items @ [close_char])"

fun dump :: "(double \<Rightarrow> string) \<Rightarrow> bool \<Rightarrow> bool \<Rightarrow> nat \<Rightarrow> nat \<Rightarrow> Json \<Rightarrow> string option" where
  "dump show_double pretty ensure_ascii step cur (JObject m) =
     (if m = [] then Some ''{}''
      else let new_indent = (if pretty then cur + step else cur)
           in map_option (enclose pretty cur new_indent (CHR ''{'') (CHR ''}''))
                (option_list (map (\<lambda>(k, v). case (dump_escaped ensure_ascii k, dump show_double pretty ensure_ascii step new_indent v) of
                   (Some key, Some val) \<Rightarrow> Some ([quote] @ key @ [quote] @ (if pretty then '': '' else '':'') @ val)
                 | _ \<Rightarrow> None) m)))"
| "dump show_double pretty ensure_ascii step cur (JArray xs) =
     (if xs = [] then Some ''[]''
      else let new_indent = (if pretty then cur + step else cur)
           in map_option (enclose pretty cur new_indent (CHR ''['') (CHR '']''))
                (option_list (map (dump show_double pretty ensure_ascii step new_indent) xs)))"
| "dump show_double pretty ensure_ascii step cur (JString s) = map_option (\<lambda>t. [quote] @ t @ [quote]) (dump_escaped ensure_ascii s)"
| "dump show_double pretty ensure_ascii step cur (JBool b) = Some (if b then ''true'' else ''false'')"
| "dump show_double pretty ensure_ascii step cur (JInt i) = Some (dump_integer i)"
| "dump show_double pretty ensure_ascii step cur (JFloat x) = Some (show_double x)"
| "dump show_double pretty ensure_ascii step cur JNull = Some ''null''"

text \<open>\<open>basic_json::dump\<close>: without an argument the text is compact.\<close>

definition json_dump :: "(double \<Rightarrow> string) \<Rightarrow> nat option \<Rightarrow> Json \<Rightarrow> string option" where
  "json_dump show_double indent_arg j = (case indent_arg of
     None \<Rightarrow> dump show_double False False 0 0 j
   | Some n \<Rightarrow> dump show_double True False n 0 j)"

end
