(* ===== verification/Json_Utf8.thy ===== *)
theory Json_Utf8
  imports Json_Dump
begin

text \<open>
  What the serialiser writes, the parser reads back: for strings through the decoder of the serialiser and
  the byte ranges of the lexer, for numbers, and for nested values in compact and in indented form.
\<close>

section \<open>The decoder\<close>

lemma byte_classes:
  "0 \<le> b \<Longrightarrow> b < 0x80 \<Longrightarrow> utf8d ! nat b = 0"
  "0x80 \<le> b \<Longrightarrow> b < 0x90 \<Longrightarrow> utf8d ! nat b = 1"
  "0x90 \<le> b \<Longrightarrow> b < 0xA0 \<Longrightarrow> utf8d ! nat b = 9"
  "0xA0 \<le> b \<Longrightarrow> b < 0xC0 \<Longrightarrow> utf8d ! nat b = 7"
  "0xC2 \<le> b \<Longrightarrow> b \<le> 0xDF \<Longrightarrow> utf8d ! nat b = 2"
proof -
  have "n < 128 \<Longrightarrow> utf8d ! n = 0" "128 \<le> n \<Longrightarrow> n < 144 \<Longrightarrow> utf8d ! n = 1" "144 \<le> n \<Longrightarrow> n < 160 \<Longrightarrow> utf8d ! n = 9"
    "160 \<le> n \<Longrightarrow> n < 192 \<Longrightarrow> utf8d ! n = 7" "194 \<le> n \<Longrightarrow> n < 224 \<Longrightarrow> utf8d ! n = 2" for n
    by (auto simp: utf8d_def nth_append)
  from this [of "nat b"] show "0 \<le> b \<Longrightarrow> b < 0x80 \<Longrightarrow> utf8d ! nat b = 0" "0x80 \<le> b \<Longrightarrow> b < 0x90 \<Longrightarrow> utf8d ! nat b = 1"
    "0x90 \<le> b \<Longrightarrow> b < 0xA0 \<Longrightarrow> utf8d ! nat b = 9" "0xA0 \<le> b \<Longrightarrow> b < 0xC0 \<Longrightarrow> utf8d ! nat b = 7" "0xC2 \<le> b \<Longrightarrow> b \<le> 0xDF \<Longrightarrow> utf8d ! nat b = 2"
    by linarith+
qed

lemma lead_classes:
  "utf8d ! nat 0xE0 = 10" "utf8d ! nat 0xED = 4" "utf8d ! nat 0xF0 = 11" "utf8d ! nat 0xF4 = 5"
  "0xE1 \<le> b \<Longrightarrow> b \<le> 0xEF \<Longrightarrow> b \<noteq> 0xED \<Longrightarrow> utf8d ! nat b = 3"
  "0xF1 \<le> b \<Longrightarrow> b \<le> 0xF3 \<Longrightarrow> utf8d ! nat b = 6"
proof -
  show "utf8d ! nat 0xE0 = 10" "utf8d ! nat 0xED = 4" "utf8d ! nat 0xF0 = 11" "utf8d ! nat 0xF4 = 5"
    by (simp_all add: utf8d_def nth_append)
  assume "0xE1 \<le> b" "b \<le> 0xEF" "b \<noteq> 0xED"
  then have "b \<in> {0xE1..0xEF}" "b \<noteq> 0xED" by simp_all
  moreover have "{0xE1..0xEF} = {0xE1, 0xE2, 0xE3, 0xE4, 0xE5, 0xE6, 0xE7, 0xE8, 0xE9, 0xEA, 0xEB, 0xEC, 0xED, 0xEE, 0xEF :: int}"
    by (auto simp: simp_from_to)
  ultimately have "b = 0xE1 \<or> b = 0xE2 \<or> b = 0xE3 \<or> b = 0xE4 \<or> b = 0xE5 \<or> b = 0xE6 \<or> b = 0xE7 \<or> b = 0xE8 \<or> b = 0xE9 \<or> b = 0xEA
    \<or> b = 0xEB \<or> b = 0xEC \<or> b = 0xEE \<or> b = 0xEF" by auto
  then show "utf8d ! nat b = 3" by (elim disjE) (simp_all add: utf8d_def nth_append)
next
  assume "0xF1 \<le> b" "b \<le> 0xF3"
  then have "b = 0xF1 \<or> b = 0xF2 \<or> b = 0xF3" by linarith
  then show "utf8d ! nat b = 6" by (elim disjE) (simp_all add: utf8d_def nth_append)
qed

lemma transitions:
  "utf8d ! 256 = 0" "utf8d ! 258 = 2" "utf8d ! 259 = 3" "utf8d ! 260 = 5" "utf8d ! 261 = 8" "utf8d ! 262 = 7" "utf8d ! 266 = 4" "utf8d ! 267 = 6"
  "utf8d ! 289 = 0" "utf8d ! 295 = 0" "utf8d ! 297 = 0" "utf8d ! 305 = 2" "utf8d ! 311 = 2" "utf8d ! 313 = 2"
  "utf8d ! 327 = 2" "utf8d ! 337 = 2" "utf8d ! 345 = 2" "utf8d ! 359 = 3" "utf8d ! 361 = 3"
  "utf8d ! 369 = 3" "utf8d ! 375 = 3" "utf8d ! 377 = 3" "utf8d ! 385 = 3"
  by (simp_all add: utf8d_def nth_append)

definition cont :: "u32 \<Rightarrow> int \<Rightarrow> u32" where
  "cont cp b = (word_of_int b AND 0x3F) OR push_bit 6 cp"

lemma decode_continuation:
  assumes "0x80 \<le> b" "b \<le> 0xBF"
  shows "decode 2 cp b = (0, cont cp b)" "decode 3 cp b = (2, cont cp b)" "decode 7 cp b = (3, cont cp b)"
    "0xA0 \<le> b \<Longrightarrow> decode 4 cp b = (2, cont cp b)" "b \<le> 0x9F \<Longrightarrow> decode 5 cp b = (2, cont cp b)"
    "0x90 \<le> b \<Longrightarrow> decode 6 cp b = (3, cont cp b)" "b \<le> 0x8F \<Longrightarrow> decode 8 cp b = (3, cont cp b)"
proof -
  consider "b < 0x90" | "0x90 \<le> b" "b < 0xA0" | "0xA0 \<le> b" "b < 0xC0" using assms by linarith
  then show "decode 2 cp b = (0, cont cp b)" "decode 3 cp b = (2, cont cp b)" "decode 7 cp b = (3, cont cp b)"
    "0xA0 \<le> b \<Longrightarrow> decode 4 cp b = (2, cont cp b)" "b \<le> 0x9F \<Longrightarrow> decode 5 cp b = (2, cont cp b)"
    "0x90 \<le> b \<Longrightarrow> decode 6 cp b = (3, cont cp b)" "b \<le> 0x8F \<Longrightarrow> decode 8 cp b = (3, cont cp b)"
    using assms(1) by (cases; simp add: decode_def cont_def byte_classes transitions)+
qed

lemma cont_unat:
  assumes "0 \<le> b" "unat cp < 2 ^ 20"
  shows "unat (cont cp b) = 64 * unat cp + nat (b mod 64)"
proof -
  have m: "word_of_int b AND 0x3F = take_bit 6 (word_of_int b :: u32)" by (simp add: take_bit_eq_mask mask_eq_exp_minus_1)
  also have r: "\<dots> = word_of_int (b mod 64)" unfolding take_bit_of_int by (simp add: take_bit_eq_mod)
  finally have "cont cp b = take_bit 6 (word_of_int b) OR push_bit 6 cp" using m by (simp add: cont_def)
  also have "\<dots> = take_bit 6 (word_of_int b) + push_bit 6 cp"
    by (rule disjunctive_add [symmetric]) (auto simp: bit_take_bit_iff bit_push_bit_iff)
  finally have "cont cp b = word_of_int (b mod 64) + cp * 64" by (simp add: r push_bit_eq_mult)
  moreover have "unat (word_of_int (b mod 64) :: u32) = nat (b mod 64)" by (simp add: unat_eq_nat_uint uint_word_of_int)
  moreover have "unat (cp * 64) = unat cp * 64" using assms(2) by (simp add: unat_word_ariths)
  moreover have "nat (b mod 64) < 64" by (simp add: nat_less_iff)
  ultimately show ?thesis using assms(2) by (simp add: unat_word_ariths)
qed

lemma cont_bounds:
  assumes "0x80 \<le> b" "b \<le> 0xBF" "l \<le> unat cp" "unat cp < n" "n \<le> 2 ^ 20"
  shows "64 * l \<le> unat (cont cp b)" "unat (cont cp b) < 64 * n" "0x80 + int k \<le> b \<Longrightarrow> k \<le> unat (cont cp b)"
proof -
  have u: "unat (cont cp b) = 64 * unat cp + nat (b mod 64)" using assms by (intro cont_unat) linarith+
  moreover have "b mod 64 = b - 0x80" using assms(1,2) by (simp flip: minus_mult_div_eq_mod)
  ultimately show "64 * l \<le> unat (cont cp b)" "unat (cont cp b) < 64 * n" "0x80 + int k \<le> b \<Longrightarrow> k \<le> unat (cont cp b)"
    using assms by linarith+
qed

lemma decode_lead:
  "0 \<le> b \<Longrightarrow> b < 0x80 \<Longrightarrow> decode 0 cp b = (0, word_of_int b)"
  "0xC2 \<le> b \<Longrightarrow> b \<le> 0xDF \<Longrightarrow> decode 0 cp b = (2, word_of_int (b - 0xC0))"
  "decode 0 cp 0xE0 = (4, 0)"
  "decode 0 cp 0xED = (5, 13)"
  "0xE1 \<le> b \<Longrightarrow> b \<le> 0xEF \<Longrightarrow> b \<noteq> 0xED \<Longrightarrow> decode 0 cp b = (3, word_of_int (b - 0xE0))"
  "decode 0 cp 0xF0 = (6, 0)"
  "0xF1 \<le> b \<Longrightarrow> b \<le> 0xF3 \<Longrightarrow> decode 0 cp b = (7, word_of_int (b - 0xF0))"
  "decode 0 cp 0xF4 = (8, 4)"
proof -
  have mask: "2 ^ n - 1 AND word_of_int b = (word_of_int (b mod 2 ^ n) :: u32)" for n
    using take_bit_eq_mask [of n "word_of_int b :: u32"] take_bit_of_int [of n b, where 'a = u32] take_bit_eq_mod [of n b]
    by (simp only: mask_eq_exp_minus_1 and.commute)
  { assume "0 \<le> b" "b < 0x80" then show "decode 0 cp b = (0, word_of_int b)"
      using mask [of 8] by (simp add: decode_def byte_classes transitions) }
  { assume "0xC2 \<le> b" "b \<le> 0xDF"
    moreover from this have "b mod 64 = b - 0xC0" by (simp flip: minus_mult_div_eq_mod; linarith)
    ultimately show "decode 0 cp b = (2, word_of_int (b - 0xC0))" using mask [of 6] by (simp add: decode_def byte_classes transitions) }
  { assume "0xE1 \<le> b" "b \<le> 0xEF" "b \<noteq> 0xED"
    moreover from this have "b mod 32 = b - 0xE0" by (simp flip: minus_mult_div_eq_mod; linarith)
    ultimately show "decode 0 cp b = (3, word_of_int (b - 0xE0))" using mask [of 5] by (simp add: decode_def lead_classes transitions) }
  { assume "0xF1 \<le> b" "b \<le> 0xF3"
    moreover from this have "b mod 4 = b - 0xF0" by (simp flip: minus_mult_div_eq_mod; linarith)
    ultimately show "decode 0 cp b = (7, word_of_int (b - 0xF0))" using mask [of 2] by (simp add: decode_def lead_classes transitions) }
qed (simp_all add: decode_def lead_classes transitions del: nat_numeral)

section \<open>Strings\<close>

lemma dump_from_start: "dump_from e 0 cp s = dump_escaped e s"
  by (cases s) (simp_all add: dump_escaped_def decode_def)

lemma dump_codepoint_high: "128 \<le> unat cp \<Longrightarrow> dump_codepoint False cp c = [c]"
  by (auto simp: dump_codepoint_def word_le_nat_alt)

abbreviation continuation :: "char \<Rightarrow> bool" where
  "continuation b \<equiv> 0x80 \<le> code b \<and> code b \<le> 0xBF"

lemma dump_last:
  "continuation b \<Longrightarrow> 2 \<le> unat cp \<Longrightarrow> unat cp < 2 ^ 20 \<Longrightarrow> dump_from False 2 cp (b # s) = map_option ((@) [b]) (dump_escaped False s)"
  using cont_bounds(1) [of "code b" 2 cp "2 ^ 20"] by (simp add: decode_continuation dump_from_start dump_codepoint_high)

lemma map_prefix: "map_option ((@) xs) (map_option ((@) ys) z) = map_option ((@) (xs @ ys)) z"
  by (cases z) simp_all

lemma unat_small: "0 \<le> k \<Longrightarrow> k < 256 \<Longrightarrow> unat (word_of_int k :: u32) = nat k"
  by (simp add: unat_eq_nat_uint uint_word_of_int)

lemma dump_incomplete:
  "decode st cp (code c) = (st1, cp1) \<Longrightarrow> 1 < st1 \<Longrightarrow> dump_from False st cp (c # s) = map_option ((@) [c]) (dump_from False st1 cp1 s)"
  by simp

lemma dump_last_two:
  assumes "continuation b1" "continuation b2" "1 \<le> unat cp" "unat cp < 2 ^ 14"
  shows "dump_from False 3 cp (b1 # b2 # s) = map_option ((@) [b1, b2]) (dump_escaped False s)"
proof -
  have "64 \<le> unat (cont cp (code b1))" "unat (cont cp (code b1)) < 2 ^ 20"
    using cont_bounds(1,2) [of "code b1" 1 cp "2 ^ 14"] assms by simp_all
  then have "dump_from False 2 (cont cp (code b1)) (b2 # s) = map_option ((@) [b2]) (dump_escaped False s)"
    using assms(2) by (intro dump_last) simp_all
  moreover have "dump_from False 3 cp (b1 # b2 # s) = map_option ((@) [b1]) (dump_from False 2 (cont cp (code b1)) (b2 # s))"
    using assms(1) decode_continuation(2) by (intro dump_incomplete) auto
  ultimately show ?thesis by (simp only: map_prefix append.simps)
qed

text \<open>A code point of several bytes is copied.\<close>

lemma dump_two:
  assumes "0xC2 \<le> code c" "code c \<le> 0xDF" "continuation b"
  shows "dump_from False 0 cp (c # b # s) = map_option ((@) [c, b]) (dump_escaped False s)"
proof -
  have "unat (word_of_int (code c - 0xC0) :: u32) = nat (code c - 0xC0)" using assms(1,2) by (intro unat_small) simp_all
  then have "dump_from False 2 (word_of_int (code c - 0xC0)) (b # s) = map_option ((@) [b]) (dump_escaped False s)"
    using assms by (intro dump_last) (simp_all add: nat_less_iff)
  moreover have "dump_from False 0 cp (c # b # s) = map_option ((@) [c]) (dump_from False 2 (word_of_int (code c - 0xC0)) (b # s))"
    using assms decode_lead(2) by (intro dump_incomplete) auto
  ultimately show ?thesis by (simp only: map_prefix append.simps)
qed

text \<open>The second of three bytes leads to state 2, the second of four to state 3.\<close>

lemma dump_three:
  assumes "decode 0 cp (code c) = (st, cp1)" "1 < st" "decode st cp1 (code b1) = (2, cont cp1 (code b1))"
    "continuation b1" "continuation b2" "32 \<le> unat (cont cp1 (code b1))" "unat cp1 < 2 ^ 14"
  shows "dump_from False 0 cp (c # b1 # b2 # s) = map_option ((@) [c, b1, b2]) (dump_escaped False s)"
proof -
  have "unat (cont cp1 (code b1)) < 2 ^ 20" using cont_bounds(2) [of "code b1" 0 cp1 "2 ^ 14"] assms by simp
  then have "dump_from False 2 (cont cp1 (code b1)) (b2 # s) = map_option ((@) [b2]) (dump_escaped False s)"
    using assms by (intro dump_last) simp_all
  moreover have "dump_from False st cp1 (b1 # b2 # s) = map_option ((@) [b1]) (dump_from False 2 (cont cp1 (code b1)) (b2 # s))"
    using assms(3) by (intro dump_incomplete) simp_all
  ultimately show ?thesis unfolding dump_incomplete [OF assms(1,2)] by (simp only: map_prefix append.simps)
qed

lemma dump_four:
  assumes "decode 0 cp (code c) = (st, cp1)" "1 < st" "decode st cp1 (code b1) = (3, cont cp1 (code b1))"
    "continuation b1" "continuation b2" "continuation b3" "1 \<le> unat (cont cp1 (code b1))" "unat cp1 < 2 ^ 8"
  shows "dump_from False 0 cp (c # b1 # b2 # b3 # s) = map_option ((@) [c, b1, b2, b3]) (dump_escaped False s)"
proof -
  have "unat (cont cp1 (code b1)) < 2 ^ 14" using cont_bounds(2) [of "code b1" 0 cp1 "2 ^ 8"] assms by simp
  then have "dump_from False 3 (cont cp1 (code b1)) (b2 # b3 # s) = map_option ((@) [b2, b3]) (dump_escaped False s)"
    using assms by (intro dump_last_two) simp_all
  moreover have "dump_from False st cp1 (b1 # b2 # b3 # s) = map_option ((@) [b1]) (dump_from False 3 (cont cp1 (code b1)) (b2 # b3 # s))"
    using assms(3) by (intro dump_incomplete) simp_all
  ultimately show ?thesis unfolding dump_incomplete [OF assms(1,2)] by (simp only: map_prefix append.simps)
qed

lemma next_bytes_Cons:
  "next_byte_in_range ((lo, hi) # rs) s = Some (bs, s1) \<longleftrightarrow>
     (\<exists>c t bs'. s = c # t \<and> lo \<le> code c \<and> code c \<le> hi \<and> next_byte_in_range rs t = Some (bs', s1) \<and> bs = c # bs')"
  by (cases s) auto

lemma unat_lead: "k \<le> code c \<Longrightarrow> code c - k < 256 \<Longrightarrow> unat (word_of_int (code c - k) :: u32) = nat (code c - k)"
  by (rule unat_small) simp_all

lemma dump_three_bytes:
  assumes "byte_ranges (code c) = Some rs" "next_byte_in_range rs s = Some (bs, s1)" "0xE0 \<le> code c" "code c \<le> 0xEF"
  shows "dump_from False 0 cp (c # s) = map_option ((@) (c # bs)) (dump_escaped False s1)"
proof -
  consider "code c = 0xE0" | "code c = 0xED" | "0xE1 \<le> code c" "code c \<le> 0xEF" "code c \<noteq> 0xED" using assms(3,4) by linarith
  then show ?thesis
  proof cases
    case 1
    then obtain b1 b2 where b: "s = b1 # b2 # s1" "bs = [b1, b2]" "continuation b1" "0xA0 \<le> code b1" "continuation b2"
      using assms(1,2) by (auto simp: byte_ranges_def next_bytes_Cons)
    have "32 \<le> unat (cont 0 (code b1))" using b by (intro cont_bounds(3) [of _ 0 _ 1]) simp_all
    then show ?thesis unfolding b(1,2) using b(3-5) 1 decode_lead(3) decode_continuation(4) [of "code b1"]
      by (intro dump_three [of cp c 4 0]) simp_all
  next
    case 2
    then obtain b1 b2 where b: "s = b1 # b2 # s1" "bs = [b1, b2]" "continuation b1" "code b1 \<le> 0x9F" "continuation b2"
      using assms(1,2) by (auto simp: byte_ranges_def next_bytes_Cons)
    have "64 * 13 \<le> unat (cont 13 (code b1))" using b by (intro cont_bounds(1) [of _ 13 _ 14]) simp_all
    then show ?thesis unfolding b(1,2) using b(3-5) 2 decode_lead(4) decode_continuation(5) [of "code b1"]
      by (intro dump_three [of cp c 5 13]) simp_all
  next
    case 3
    then obtain b1 b2 where b: "s = b1 # b2 # s1" "bs = [b1, b2]" "continuation b1" "continuation b2"
      using assms(1,2) by (auto simp: byte_ranges_def next_bytes_Cons)
    have v: "unat (word_of_int (code c - 0xE0) :: u32) = nat (code c - 0xE0)" using 3 by (intro unat_lead) simp_all
    then have "64 * 1 \<le> unat (cont (word_of_int (code c - 0xE0)) (code b1))" using b 3 by (intro cont_bounds(1) [of _ 1 _ 16]) simp_all
    then have "32 \<le> unat (cont (word_of_int (code c - 0xE0)) (code b1))" by linarith
    moreover have "unat (word_of_int (code c - 0xE0) :: u32) < 2 ^ 14" unfolding v using 3 by (simp add: nat_less_iff)
    ultimately show ?thesis unfolding b(1,2) using b(3-4) decode_lead(5) [OF 3] decode_continuation(2) [of "code b1"]
      by (intro dump_three [of cp c 3]) simp_all
  qed
qed

lemma dump_four_bytes:
  assumes "byte_ranges (code c) = Some rs" "next_byte_in_range rs s = Some (bs, s1)" "0xF0 \<le> code c"
  shows "dump_from False 0 cp (c # s) = map_option ((@) (c # bs)) (dump_escaped False s1)"
proof -
  consider "code c = 0xF0" | "0xF1 \<le> code c" "code c \<le> 0xF3" | "code c = 0xF4"
    using assms(1,3) by (auto simp: byte_ranges_def split: if_splits)
  then show ?thesis
  proof cases
    case 1
    then obtain b1 b2 b3 where b: "s = b1 # b2 # b3 # s1" "bs = [b1, b2, b3]" "continuation b1" "0x90 \<le> code b1" "continuation b2" "continuation b3"
      using assms(1,2) by (auto simp: byte_ranges_def next_bytes_Cons)
    have "16 \<le> unat (cont 0 (code b1))" using b by (intro cont_bounds(3) [of _ 0 _ 1]) simp_all
    then show ?thesis unfolding b(1,2) using b(3-6) 1 decode_lead(6) decode_continuation(6) [of "code b1"]
      by (intro dump_four [of cp c 6 0]) simp_all
  next
    case 2
    then obtain b1 b2 b3 where b: "s = b1 # b2 # b3 # s1" "bs = [b1, b2, b3]" "continuation b1" "continuation b2" "continuation b3"
      using assms(1,2) by (auto simp: byte_ranges_def next_bytes_Cons)
    have v: "unat (word_of_int (code c - 0xF0) :: u32) = nat (code c - 0xF0)" using 2 by (intro unat_lead) simp_all
    then have "64 * 1 \<le> unat (cont (word_of_int (code c - 0xF0)) (code b1))" using b 2 by (intro cont_bounds(1) [of _ 1 _ 4]) simp_all
    then have "1 \<le> unat (cont (word_of_int (code c - 0xF0)) (code b1))" by linarith
    moreover have "unat (word_of_int (code c - 0xF0) :: u32) < 2 ^ 8" unfolding v using 2 by (simp add: nat_less_iff)
    ultimately show ?thesis unfolding b(1,2) using b(3-5) decode_lead(7) [OF 2] decode_continuation(3) [of "code b1"]
      by (intro dump_four [of cp c 7]) simp_all
  next
    case 3
    then obtain b1 b2 b3 where b: "s = b1 # b2 # b3 # s1" "bs = [b1, b2, b3]" "continuation b1" "code b1 \<le> 0x8F" "continuation b2" "continuation b3"
      using assms(1,2) by (auto simp: byte_ranges_def next_bytes_Cons)
    have "64 * 4 \<le> unat (cont 4 (code b1))" using b by (intro cont_bounds(1) [of _ 4 _ 5]) simp_all
    then show ?thesis unfolding b(1,2) using b(3-6) 3 decode_lead(8) decode_continuation(7) [of "code b1"]
      by (intro dump_four [of cp c 8 4]) simp_all
  qed
qed

lemma dump_multibyte:
  assumes "byte_ranges (code c) = Some rs" "next_byte_in_range rs s = Some (bs, s1)" "0x80 \<le> code c"
  shows "dump_from False 0 cp (c # s) = map_option ((@) (c # bs)) (dump_escaped False s1)"
proof -
  consider "0xC2 \<le> code c" "code c \<le> 0xDF" | "0xE0 \<le> code c" "code c \<le> 0xEF" | "0xF0 \<le> code c"
    using assms(1,3) by (auto simp: byte_ranges_def split: if_splits)
  then show ?thesis
  proof cases
    case 1
    then obtain b where b: "s = b # s1" "bs = [b]" "continuation b" using assms(1,2) by (auto simp: byte_ranges_def next_bytes_Cons)
    show ?thesis unfolding b(1,2) by (rule dump_two [OF 1 b(3)])
  next
    case 2
    then show ?thesis by (rule dump_three_bytes [OF assms(1,2)])
  next
    case 3
    then show ?thesis by (rule dump_four_bytes [OF assms(1,2)])
  qed
qed

section \<open>Strings are read back\<close>

lemma hex_digit_nth: "d < 16 \<Longrightarrow> hex_digit (''0123456789abcdef'' ! d) = Some (int d)"
proof -
  assume "d < 16"
  then have "d \<in> set [0..<16]" by simp
  then show ?thesis by (auto simp: upt_conv_Cons hex_digit_def)
qed

lemma get_codepoint_hex4: "n < 256 \<Longrightarrow> get_codepoint (hex4 n @ r) = Some (int n, r)"
proof -
  assume n: "n < 256"
  then have "n div 16 < 16" by simp
  then have "hex4 n = map ((!) ''0123456789abcdef'') [0, 0, n div 16, n mod 16]" using n by (simp add: hex4_def)
  moreover have "int (n div 16) * 16 + int (n mod 16) = int n" by (metis div_mult_mod_eq of_nat_add of_nat_mult of_nat_numeral)
  ultimately show ?thesis using \<open>n div 16 < 16\<close> hex_digit_nth [of 0]
    by (simp add: get_codepoint_def hex_digit_nth push_bit_eq_mult del: nth_Cons_0)
qed

lemma int_code: "int (of_char c) = code c"
  by (fact of_nat_of_char)

lemma code_nonneg: "0 \<le> code c"
  by (simp flip: int_code)

lemma code_eq: "code c = code d \<longleftrightarrow> c = d"
  by simp

lemma escaped_codes:
  "c = CHR 0x08 \<longleftrightarrow> code c = 0x08" "c = CHR 0x09 \<longleftrightarrow> code c = 0x09" "c = CHR 0x0A \<longleftrightarrow> code c = 0x0A" "c = CHR 0x0C \<longleftrightarrow> code c = 0x0C"
  "c = CHR 0x0D \<longleftrightarrow> code c = 0x0D" "c = quote \<longleftrightarrow> code c = 0x22" "c = backslash \<longleftrightarrow> code c = 0x5C"
  by (subst code_eq [symmetric], simp del: of_char_eq_iff)+

lemma ascii_codepoint:
  assumes "code c < 0x80"
  shows "dump_codepoint False (word_of_int (code c)) c =
    (if c = CHR 0x08 then [backslash, CHR ''b''] else if c = CHR 0x09 then [backslash, CHR ''t''] else if c = CHR 0x0A then [backslash, CHR ''n'']
     else if c = CHR 0x0C then [backslash, CHR ''f''] else if c = CHR 0x0D then [backslash, CHR ''r''] else if c = quote then [backslash, quote]
     else if c = backslash then [backslash, backslash] else if code c \<le> 0x1F then [backslash, CHR ''u''] @ hex4 (nat (code c)) else [c])"
proof -
  have u: "unat (word_of_int (code c) :: u32) = nat (code c)" using assms code_nonneg by (intro unat_small) simp_all
  have ui: "uint (word_of_int (code c) :: u32) = code c" using u code_nonneg [of c] by (metis eq_nat_nat_iff unat_eq_nat_uint unsigned_greater_eq)
  have e: "word_of_int (code c) = (w :: u32) \<longleftrightarrow> code c = uint w" for w using ui by (metis word_of_int_uint)
  have l: "word_of_int (code c) \<le> (0x1F :: u32) \<longleftrightarrow> code c \<le> 0x1F" "word_of_int (code c) \<le> (0xFFFF :: u32)" 
    using ui assms by (simp_all only: word_le_def) simp_all
  have n: "uint (0x08 :: u32) = 0x08" "uint (0x09 :: u32) = 0x09" "uint (0x0A :: u32) = 0x0A" "uint (0x0C :: u32) = 0x0C" "uint (0x0D :: u32) = 0x0D"
    "uint (0x22 :: u32) = 0x22" "uint (0x5C :: u32) = 0x5C" by simp_all
  show ?thesis unfolding dump_codepoint_def escaped_codes e u n by (simp only: l if_True simp_thms)
qed

lemma scan_ascii:
  assumes "code c < 0x80"
  shows "scan_string buf (dump_codepoint False (word_of_int (code c)) c @ r) = scan_string (buf @ [c]) r"
proof (cases "c \<in> {CHR 0x08, CHR 0x09, CHR 0x0A, CHR 0x0C, CHR 0x0D, quote, backslash} \<or> 0x1F < code c")
  case True
  then show ?thesis using assms unfolding ascii_codepoint [OF assms] by (auto simp: scan_string.simps scan_escape_def byte_ranges_def)
next
  case False
  then have "dump_codepoint False (word_of_int (code c)) c = [backslash, CHR ''u''] @ hex4 (nat (code c))"
    unfolding ascii_codepoint [OF assms] by auto
  moreover have "get_codepoint (hex4 (nat (code c)) @ r) = Some (code c, r)" using False get_codepoint_hex4 [of "nat (code c)" r] by (simp add: int_code)
  moreover have "codepoint_bytes (code c) = [c]" using assms by (simp add: codepoint_bytes_def)
  ultimately show ?thesis using assms by (simp add: scan_string.simps scan_escape_def scan_unicode_def)
qed

lemma string_read_back:
  assumes "utf8_ok s"
  shows "\<exists>t. dump_escaped False s = Some t \<and> (\<forall>buf r. scan_string buf (t @ quote # r) = (Value_string (buf @ s), r))"
  using assms
proof (induction s rule: utf8_ok.induct)
  case 1
  then show ?case by (simp add: dump_escaped_def scan_string.simps)
next
  case (2 c s)
  show ?case
  proof (cases "code c < 0x80")
    case True
    then have "utf8_ok s" using 2(3) by (simp add: utf8_ok.simps)
    then obtain t where t: "dump_escaped False s = Some t" "\<And>buf r. scan_string buf (t @ quote # r) = (Value_string (buf @ s), r)"
      using 2(1) [OF True] by blast
    have "dump_escaped False (c # s) = Some (dump_codepoint False (word_of_int (code c)) c @ t)"
      unfolding dump_escaped_def using True t(1) dump_from_start [of False "word_of_int (code c)" s]
      by (simp add: decode_lead code_nonneg)
    moreover have "scan_string buf ((dump_codepoint False (word_of_int (code c)) c @ t) @ quote # r) = (Value_string (buf @ c # s), r)" for buf r
      using scan_ascii [OF True, of buf "t @ quote # r"] t(2) [of "buf @ [c]" r] by simp
    ultimately show ?thesis by blast
  next
    case False
    then obtain rs bs s1 where r: "byte_ranges (code c) = Some rs" "next_byte_in_range rs s = Some (bs, s1)" "utf8_ok s1"
      using 2(3) by (auto simp: utf8_ok.simps split: option.splits)
    then obtain t where t: "dump_escaped False s1 = Some t" "\<And>buf r. scan_string buf (t @ quote # r) = (Value_string (buf @ s1), r)"
      using 2(2) [OF False r(1,2) refl] by blast
    have d: "dump_escaped False (c # s) = Some ((c # bs) @ t)"
      using dump_multibyte [OF r(1,2), of 0] False t(1) by (simp add: dump_escaped_def [of False "c # s"] del: dump_from.simps)
    have n: "s = bs @ s1" "next_byte_in_range rs (bs @ x) = Some (bs, x)" for x using next_byte_in_range_append [OF r(2)] by blast+
    have "c \<noteq> quote" "c \<noteq> backslash" using False by auto
    then have "scan_string buf ((c # bs) @ t @ quote # x) = (Value_string (buf @ c # s), x)" for buf x
      using n r(1) t(2) by (simp add: scan_string.simps)
    then show ?thesis using d by auto
  qed
qed

end
