(* ===== verification/Json_Roundtrip.thy ===== *)
theory Json_Roundtrip
  imports Json_Utf8
begin

text \<open>
  What the serialiser writes, the parser reads back: numbers, and nested values in compact and in
  indented form.
\<close>

section \<open>Integers\<close>

lemma to_string_step: "10 \<le> n \<Longrightarrow> to_string n = to_string (n div 10) @ [digit (n mod 10)]"
  by (subst to_string.simps) (simp add: digit_def)

lemma to_string_digit: "n < 10 \<Longrightarrow> to_string n = [digit n]"
  by (subst to_string.simps) (simp add: digit_def)

lemma is_digit_digit: "d < 10 \<Longrightarrow> is_digit (digit d) \<and> code (digit d) - 48 = int d"
  by (simp add: digit_def is_digit_def of_char_of flip: int_code)

lemma digit_0: "digit 0 = CHR ''0''"
  using is_digit_digit [of 0] code_eq [of "digit 0" "CHR ''0''"] by simp

lemma to_string_two: "100 \<le> n \<Longrightarrow> to_string n = to_string (n div 100) @ [digit (n mod 100 div 10), digit (n mod 100 mod 10)]"
proof -
  assume n: "100 \<le> n"
  have "n div 10 div 10 = n div 100" "n div 10 mod 10 = n mod 100 div 10" "n mod 100 mod 10 = n mod 10"
    using mod_mult2_eq [of n 10 10] by (simp_all flip: div_mult2_eq)
  moreover have "10 \<le> n div 10" using n by linarith
  ultimately show ?thesis using n to_string_step [of n] to_string_step [of "n div 10"] by simp
qed

lemma drop_two:
  assumes "2 \<le> p" "p \<le> length buf"
  shows "drop (p - 2) (buf[p - 1 := a, p - 2 := b]) = b # a # drop p buf"
proof -
  have "Suc (p - 2) = p - 1" "Suc (p - 1) = p" using assms by simp_all
  then show ?thesis using assms Cons_nth_drop_Suc [of "p - 2" "buf[p - 1 := a, p - 2 := b]"] Cons_nth_drop_Suc [of "p - 1" "buf[p - 1 := a, p - 2 := b]"]
    by simp
qed

lemma length_to_string_pos: "0 < length (to_string n)"
  by (subst to_string.simps) simp

lemma fill_digits_eq:
  "length (to_string x) \<le> p \<Longrightarrow> p \<le> length buf \<Longrightarrow> fill_digits x p buf = take (p - length (to_string x)) buf @ to_string x @ drop p buf"
proof (induction x p buf rule: fill_digits.induct)
  case (1 x p buf)
  consider "100 \<le> x" | "10 \<le> x" "x < 100" | "x < 10" by linarith
  then show ?case
  proof cases
    case 1
    let ?buf = "buf[p - 1 := digit (x mod 100 mod 10), p - 2 := digit (x mod 100 div 10)]"
    have l: "length (to_string x) = 2 + length (to_string (x div 100))" using to_string_two [OF 1] by simp
    then have "fill_digits x p buf = take (p - 2 - length (to_string (x div 100))) ?buf @ to_string (x div 100) @ drop (p - 2) ?buf"
      using "1.IH" [OF 1] "1.prems" 1 by (subst fill_digits.simps) simp
    then show ?thesis using drop_two [of p buf] "1.prems" l to_string_two [OF 1] by simp
  next
    case 2
    then have t: "to_string x = [digit (x div 10), digit (x mod 10)]" using to_string_step [of x] to_string_digit [of "x div 10"] by simp
    let ?buf = "buf[p - 1 := digit (x mod 10), p - 2 := digit (x div 10)]"
    have "fill_digits x p buf = ?buf" using 2 by (subst fill_digits.simps) simp
    also have "\<dots> = take (p - 2) ?buf @ drop (p - 2) ?buf" by (rule append_take_drop_id [symmetric])
    finally show ?thesis using drop_two [of p buf] "1.prems" t by (simp flip: numeral_2_eq_2)
  next
    case 3
    then have "fill_digits x p buf = buf[p - 1 := digit x]" by (subst fill_digits.simps) simp
    also have "\<dots> = take (p - 1) buf @ digit x # drop p buf" using "1.prems" to_string_digit [OF 3] by (subst upd_conv_take_nth_drop) simp_all
    finally show ?thesis using to_string_digit [OF 3] by simp
  qed
qed

lemma length_to_string: "n < 10 ^ k \<Longrightarrow> 0 < k \<Longrightarrow> length (to_string n) \<le> k"
proof (induction k arbitrary: n)
  case (Suc k)
  show ?case
  proof (cases "n < 10")
    case False
    then have "k \<noteq> 0" using Suc.prems(1) by (cases k) auto
    then show ?thesis using Suc.IH [of "n div 10"] Suc.prems(1) False to_string_step [of n] by (simp add: less_mult_imp_div_less mult.commute)
  qed (simp add: to_string_digit)
qed simp

lemma count_digits_length: "count_digits n = length (to_string n)"
proof (induction n rule: count_digits.induct)
  case (1 x)
  have step: "10 \<le> n \<Longrightarrow> length (to_string n) = Suc (length (to_string (n div 10)))" for n using to_string_step [of n] by simp
  have one: "n < 10 \<Longrightarrow> length (to_string n) = 1" for n by (simp add: to_string_digit)
  have "length (to_string x) = 4 + length (to_string (x div 10000))" if "10000 \<le> x"
    using that step [of x] step [of "x div 10"] step [of "x div 100"] step [of "x div 1000"] by (simp add: div_mult2_eq [symmetric])
  moreover have "length (to_string x) = 2" if "10 \<le> x" "x < 100" using that step [of x] one [of "x div 10"] by simp
  moreover have "length (to_string x) = 3" if "100 \<le> x" "x < 1000"
    using that step [of x] step [of "x div 10"] one [of "x div 100"] by (simp add: div_mult2_eq [symmetric])
  moreover have "length (to_string x) = 4" if "1000 \<le> x" "x < 10000"
    using that step [of x] step [of "x div 10"] step [of "x div 100"] one [of "x div 1000"] by (simp add: div_mult2_eq [symmetric])
  ultimately show ?case using 1 one [of x] by (subst count_digits.simps) auto
qed

lemma dump_integer_eq:
  assumes "- (2 ^ 63) \<le> i" "i < 2 ^ 64"
  shows "dump_integer i = (if i < 0 then ''-'' @ to_string (nat (- i)) else to_string (nat i))"
proof -
  have s: "remove_sign i = nat (- i)" if "i < 0" using that by (simp add: remove_sign_def)
  have l: "length (to_string (nat \<bar>i\<bar>)) \<le> 20" using assms by (intro length_to_string) (auto simp: nat_less_iff abs_if)
  have "take n (fill_digits x n buf) = to_string x" if "n = length (to_string x)" "n \<le> length buf" for n x buf
    using that fill_digits_eq [of x n buf] by simp
  moreover have "take (Suc n) (fill_digits x (Suc n) (c # buf)) = c # to_string x" if "n = length (to_string x)" "n \<le> length buf" for n x c buf
    using that fill_digits_eq [of x "Suc n" "c # buf"] by simp
  moreover have "replicate 64 c = c # replicate 63 c" for c :: char by (simp add: numeral_eq_Suc)
  moreover have "dump_integer 0 = to_string 0" by (simp add: dump_integer_def to_string_digit digit_0)
  ultimately show ?thesis using l s by (cases "i = 0") (auto simp: dump_integer_def Let_def count_digits_length)
qed

lemma digits_value_snoc: "digits_value (s @ [c]) = 10 * digits_value s + (code c - 48)"
  by (simp add: digits_value_def)

lemma to_string_value: "digits_value (to_string n) = int n \<and> list_all is_digit (to_string n)"
proof (induction n rule: to_string.induct)
  case (1 n)
  show ?case
  proof (cases "n < 10")
    case True
    then show ?thesis using is_digit_digit [of n] digits_value_snoc [of "[]" "digit n"] by (simp add: to_string_digit digits_value_def)
  next
    case False
    moreover have "10 * int (n div 10) + int (n mod 10) = int n" using mult_div_mod_eq [of 10 n] by (simp add: zdiv_int zmod_int)
    ultimately show ?thesis using 1 is_digit_digit [of "n mod 10"] by (simp add: to_string_step digits_value_snoc)
  qed
qed

lemma to_string_head: "0 < n \<Longrightarrow> \<exists>c s. to_string n = c # s \<and> c \<noteq> CHR ''0''"
proof (induction n rule: to_string.induct)
  case (1 n)
  show ?case
  proof (cases "n < 10")
    case True
    have "code (digit n) \<noteq> code (CHR ''0'')" using is_digit_digit [of n] True 1(2) by simp
    then show ?thesis using True by (auto simp: to_string_digit)
  next
    case False
    then have "0 < n div 10" by simp
    then show ?thesis using False 1(1) by (fastforce simp: to_string_step)
  qed
qed

section \<open>Numbers are read back\<close>

text \<open>What may follow a number.\<close>

definition ends :: "string \<Rightarrow> bool" where
  "ends r \<longleftrightarrow> (case r of [] \<Rightarrow> True | c # _ \<Rightarrow> \<not> is_digit c \<and> c \<noteq> CHR ''.'' \<and> \<not> is_e c)"

lemma number_loop_append:
  "number_loop st ty buf s = Some (ty', buf', []) \<Longrightarrow> ends r \<Longrightarrow> number_loop st ty buf (s @ r) = Some (ty', buf', r)"
proof (induction st ty buf s rule: number_loop.induct)
  case (1 st ty buf)
  then show ?case by (cases r) (auto simp: ends_def split: if_splits)
next
  case (2 st ty buf c s)
  then show ?case by (auto split: move.splits)
qed

lemma number_loop_digits_all: "list_all is_digit s \<Longrightarrow> number_loop Any1 ty buf s = Some (ty, buf @ s, [])"
  by (induction s arbitrary: buf) simp_all

lemma scan_number_start: "c = CHR ''-'' \<or> is_digit c \<Longrightarrow> scan (c # s) = scan_number c s"
proof -
  assume c: "c = CHR ''-'' \<or> is_digit c"
  then have "c \<noteq> CHR ''[''" "c \<noteq> CHR '']''" "c \<noteq> CHR ''{''" "c \<noteq> CHR ''}''" "c \<noteq> CHR '':''" "c \<noteq> CHR '',''" "c \<noteq> CHR ''t''" "c \<noteq> CHR ''f''"
    "c \<noteq> CHR ''n''" "c \<noteq> quote" "\<not> is_blank c" by (auto simp: is_digit_def is_blank_def)
  then show ?thesis using c by (simp add: scan_def skip_whitespace_def)
qed

definition number_reads :: "string \<Rightarrow> number_type \<Rightarrow> bool" where
  "number_reads t ty \<longleftrightarrow> (case t of [] \<Rightarrow> False | c # s \<Rightarrow> (c = CHR ''-'' \<or> is_digit c) \<and>
     (let st = (if c = CHR ''-'' then Minus else if c = CHR ''0'' then Zero else Any1)
      in number_loop st (type_in st Unsigned) [c] s = Some (ty, t, [])))"

lemma scan_number_text: "number_reads t ty \<Longrightarrow> ends r \<Longrightarrow> scan (t @ r) = (number_token ty t, r)"
  by (cases t) (auto simp: number_reads_def Let_def scan_number_start scan_number_def number_loop_append split: if_splits)

lemma unsigned_reads: "number_reads (to_string n) Unsigned"
proof (cases "n = 0")
  case False
  then obtain c s where t: "to_string n = c # s" "c \<noteq> CHR ''0''" using to_string_head by blast
  then have "is_digit c" "list_all is_digit s" using to_string_value [of n] by simp_all
  moreover from this have "c \<noteq> CHR ''-''" by (auto simp: is_digit_def)
  ultimately show ?thesis using t by (simp add: number_reads_def number_loop_digits_all)
qed (simp add: number_reads_def to_string_digit digit_0 is_digit_def)

lemma signed_reads: "0 < n \<Longrightarrow> number_reads (CHR ''-'' # to_string n) Signed"
proof -
  assume "0 < n"
  then obtain c s where t: "to_string n = c # s" "c \<noteq> CHR ''0''" using to_string_head by blast
  then have "is_digit c" "list_all is_digit s" using to_string_value [of n] by simp_all
  then show ?thesis using t by (simp add: number_reads_def number_loop_digits_all)
qed

lemma scan_integer:
  assumes "- (2 ^ 63) \<le> i" "i < 2 ^ 64" "ends r"
  shows "scan (dump_integer i @ r) = (if i < 0 then Value_integer i else Value_unsigned i, r)"
proof (cases "i < 0")
  case True
  then show ?thesis using assms signed_reads [of "nat (- i)"] scan_number_text [of "CHR ''-'' # to_string (nat (- i))" Signed r] to_string_value [of "nat (- i)"]
    by (simp add: dump_integer_eq number_token_def)
next
  case False
  then show ?thesis using assms unsigned_reads [of "nat i"] scan_number_text [of "to_string (nat i)" Unsigned r] to_string_value [of "nat i"]
    by (simp add: dump_integer_eq number_token_def)
qed

section \<open>Values are read back\<close>

text \<open>
  \<open>show_double\<close> has to give, for the floats of a value, a number with a fraction or an exponent that the C
  library converts back: what \<open>to_chars\<close> documents.
\<close>

definition reads_as :: "string \<Rightarrow> double \<Rightarrow> bool" where
  "reads_as t x \<longleftrightarrow> number_reads t Floating \<and> strtod t = Some x"

fun json_floats :: "Json \<Rightarrow> double set" where
  "json_floats (JFloat x) = {x}"
| "json_floats (JArray xs) = (\<Union>v \<in> set xs. json_floats v)"
| "json_floats (JObject m) = (\<Union>e \<in> set m. json_floats (snd e))"
| "json_floats _ = {}"

text \<open>The parser at the start of a value, and after one.\<close>

definition parse_at :: "string \<Rightarrow> dom_frame list \<Rightarrow> json_error + (Json \<times> string)" where
  "parse_at s st = (case scan s of (t, s1) \<Rightarrow> sax_parse t s1 st)"

definition proceed :: "json_error + parse_state \<Rightarrow> json_error + (Json \<times> string)" where
  "proceed r = (case r of Inl e \<Rightarrow> Inl e | Inr (Finished v s) \<Rightarrow> Inr (v, s) | Inr (Continue t s st) \<Rightarrow> sax_parse t s st)"

definition resume :: "Json \<Rightarrow> string \<Rightarrow> dom_frame list \<Rightarrow> json_error + (Json \<times> string)" where
  "resume v s st = proceed (after_value v s st)"

lemma sax_parse_step: "sax_parse t s st = proceed (sax_step t s st)"
  by (subst sax_parse.simps) (simp add: proceed_def split: sum.splits parse_state.splits)

abbreviation blank :: "string \<Rightarrow> bool" where
  "blank \<equiv> list_all is_blank"

lemma scan_blank: "blank pre \<Longrightarrow> scan (pre @ s) = scan s"
proof -
  assume "blank pre"
  then have "skip_whitespace (pre @ s) = skip_whitespace s" by (induction pre) (simp_all add: skip_whitespace_def)
  then show ?thesis by (simp add: scan_def)
qed

lemma scan_signs:
  "scan (CHR ''['' # s) = (Begin_array, s)" "scan (CHR '']'' # s) = (End_array, s)" "scan (CHR ''{'' # s) = (Begin_object, s)"
  "scan (CHR ''}'' # s) = (End_object, s)" "scan (CHR '':'' # s) = (Name_separator, s)" "scan (CHR '','' # s) = (Value_separator, s)"
  "scan (quote # s) = scan_string [] s"
  by (simp_all add: scan_def skip_whitespace_def is_blank_def)

lemma scan_words:
  "scan (''true'' @ s) = (Literal_true, s)" "scan (''false'' @ s) = (Literal_false, s)" "scan (''null'' @ s) = (Literal_null, s)"
  by (simp_all add: scan_def skip_whitespace_def is_blank_def scan_literal_def)

text \<open>A text that is read as a value wherever it stands.\<close>

definition text_of :: "string \<Rightarrow> Json \<Rightarrow> bool" where
  "text_of t v \<longleftrightarrow> t \<noteq> [] \<and> code (hd t) < 0x80 \<and>
     (\<forall>pre r st. blank pre \<longrightarrow> ends r \<longrightarrow> fst (scan (pre @ t @ r)) \<noteq> End_array \<and> parse_at (pre @ t @ r) st = resume v r st)"

lemma text_ofI:
  assumes "t \<noteq> []" "code (hd t) < 0x80" "tok \<noteq> End_array"
    and "\<And>r. ends r \<Longrightarrow> scan (t @ r) = (tok, r)" "\<And>s st. sax_step tok s st = after_value v s st"
  shows "text_of t v"
  using assms by (simp add: text_of_def scan_blank parse_at_def resume_def sax_parse_step)

lemma resume_item:
  "resume v (CHR '','' # s) (In_array xs # st) = parse_at s (In_array (xs @ [v]) # st)"
  "blank pre \<Longrightarrow> resume v (pre @ CHR '']'' # s) (In_array xs # st) = resume (JArray (xs @ [v])) s st"
  "blank pre \<Longrightarrow> resume v (pre @ CHR ''}'' # s) (In_object m k # st) = resume (JObject (map_insert k v m)) s st"
  by (simp_all add: resume_def after_value_def scan_signs scan_blank parse_at_def proceed_def split: prod.splits)

lemma resume_Nil: "resume v s [] = Inr (v, s)"
  by (simp add: resume_def after_value_def proceed_def)

lemma ends_simps [simp]: "ends []" "ends (CHR '','' # s)" "ends (CHR '']'' # s)" "ends (CHR ''}'' # s)" "ends (CHR 0x0A # s)"
  by (simp_all add: ends_def is_digit_def)

lemma read_items:
  assumes "list_all2 text_of ts vs" "ts \<noteq> []" "blank pre" "blank ind" "blank nl" "blank post" "ends (post @ CHR '']'' # r)"
  shows "parse_at (pre @ join (CHR '','' # nl) (map ((@) ind) ts) @ post @ CHR '']'' # r) (In_array xs # st) = resume (JArray (xs @ vs)) r st"
  using assms(1-3)
proof (induction ts arbitrary: vs xs pre)
  case (Cons t ts)
  then obtain v vs' where v: "vs = v # vs'" "text_of t v" "list_all2 text_of ts vs'" by (auto simp: list_all2_Cons1)
  have p: "blank (pre @ ind)" using Cons.prems(3) assms(4) by simp
  have read: "parse_at ((pre @ ind) @ t @ r') (In_array xs # st) = resume v r' (In_array xs # st)" if "ends r'" for r'
    using v(2) p that unfolding text_of_def by blast
  show ?case
  proof (cases ts)
    case Nil
    then show ?thesis using read [OF assms(7)] v(1,3) assms(6) by (simp add: resume_item)
  next
    case (Cons t' ts')
    let ?s = "nl @ join (CHR '','' # nl) (map ((@) ind) ts) @ post @ CHR '']'' # r"
    have "resume v (CHR '','' # ?s) (In_array xs # st) = resume (JArray (xs @ vs)) r st"
      using Cons.IH [OF v(3) _ assms(5), of "xs @ [v]"] Cons v(1) by (simp add: resume_item)
    then show ?thesis using read [of "CHR '','' # ?s"] Cons by simp
  qed
qed simp

text \<open>A member of an object: a key and a value.\<close>

definition reads_string :: "string \<Rightarrow> string \<Rightarrow> bool" where
  "reads_string t s \<longleftrightarrow> (\<forall>buf r. scan_string buf (t @ quote # r) = (Value_string (buf @ s), r))"

definition member_of :: "string \<Rightarrow> string \<times> Json \<Rightarrow> bool" where
  "member_of t e \<longleftrightarrow> (\<exists>key sp val. t = quote # key @ quote # CHR '':'' # sp @ val \<and> blank sp \<and> reads_string key (fst e) \<and> text_of val (snd e))"

lemma memberI:
  "reads_string key (fst e) \<Longrightarrow> text_of val (snd e) \<Longrightarrow> member_of ([quote] @ key @ [quote] @ (if pretty then '': '' else '':'') @ val) e"
  unfolding member_of_def by (rule exI [of _ key], rule exI [of _ "if pretty then '' '' else []"], rule exI [of _ val]) (simp add: is_blank_def)

lemma read_member:
  assumes "member_of t e" "blank pre" "ends r"
  shows "\<exists>s s1. scan (pre @ t @ r) = (Value_string (fst e), s) \<and> parse_key (Value_string (fst e)) s = Some (fst e, scan s1)
    \<and> (\<forall>st. parse_at s1 st = resume (snd e) r st)"
proof -
  obtain key sp val where t: "t = quote # key @ quote # CHR '':'' # sp @ val" "blank sp" "reads_string key (fst e)" "text_of val (snd e)"
    using assms(1) by (auto simp: member_of_def)
  then have "scan (pre @ t @ r) = (Value_string (fst e), CHR '':'' # sp @ val @ r)" by (simp add: scan_blank assms(2) scan_signs reads_string_def)
  moreover have "parse_key (Value_string (fst e)) (CHR '':'' # sp @ val @ r) = Some (fst e, scan (sp @ val @ r))" by (simp add: parse_key_def scan_signs)
  moreover have "parse_at (sp @ val @ r) st = resume (snd e) r st" for st using t(2,4) assms(3) unfolding text_of_def by blast
  ultimately show ?thesis by blast
qed

lemma resume_member:
  assumes "member_of t e" "blank pre" "ends r"
  shows "resume v (CHR '','' # pre @ t @ r) (In_object m k # st) = resume (snd e) r (In_object (map_insert k v m) (fst e) # st)"
proof -
  obtain s s1 where "scan (pre @ t @ r) = (Value_string (fst e), s)" "parse_key (Value_string (fst e)) s = Some (fst e, scan s1)"
    "\<And>st. parse_at s1 st = resume (snd e) r st" using read_member [OF assms] by blast
  then show ?thesis by (auto simp: resume_def [of v] after_value_def scan_signs proceed_def parse_at_def split: prod.splits)
qed

lemma read_first_member:
  assumes "member_of t e" "blank pre" "ends r"
  shows "parse_at (CHR ''{'' # pre @ t @ r) st = resume (snd e) r (In_object [] (fst e) # st)"
proof -
  obtain s s1 where "scan (pre @ t @ r) = (Value_string (fst e), s)" "parse_key (Value_string (fst e)) s = Some (fst e, scan s1)"
    "\<And>st. parse_at s1 st = resume (snd e) r st" using read_member [OF assms] by blast
  then show ?thesis by (auto simp: parse_at_def [of "CHR ''{'' # pre @ t @ r"] scan_signs sax_parse_step proceed_def parse_at_def split: prod.splits)
qed

abbreviation insert_all :: "(string \<times> Json) list \<Rightarrow> (string \<times> Json) list \<Rightarrow> (string \<times> Json) list" where
  "insert_all es m \<equiv> fold (\<lambda>e. map_insert (fst e) (snd e)) es m"

lemma read_members:
  assumes "list_all2 member_of ts es" "blank ind" "blank post" "ends (post @ CHR ''}'' # r)"
  shows "resume v (concat (map (\<lambda>t. CHR '','' # ind @ t) ts) @ post @ CHR ''}'' # r) (In_object m k # st)
    = resume (JObject (insert_all es (map_insert k v m))) r st"
  using assms(1)
proof (induction ts arbitrary: es v m k)
  case (Cons t ts)
  then obtain e es' where e: "es = e # es'" "member_of t e" "list_all2 member_of ts es'" by (auto simp: list_all2_Cons1)
  let ?r = "concat (map (\<lambda>t. CHR '','' # ind @ t) ts) @ post @ CHR ''}'' # r"
  have "ends ?r" using assms(4) by (cases ts) simp_all
  then show ?case using resume_member [OF e(2) assms(2), of ?r] Cons.IH [OF e(3)] e(1) by simp
qed (use assms(3) in \<open>simp add: resume_item\<close>)

lemma map_insert_last: "\<forall>e \<in> set m. fst e < k \<Longrightarrow> map_insert k v m = m @ [(k, v)]"
  by (induction m) (auto dest: less_asym)

lemma insert_all_sorted: "sorted_wrt (<) (map fst (m @ es)) \<Longrightarrow> insert_all es m = m @ es"
proof (induction es arbitrary: m)
  case (Cons e es)
  then have "map_insert (fst e) (snd e) m = m @ [e]" by (subst map_insert_last) (auto simp: sorted_wrt_append)
  then show ?case using Cons by simp
qed simp

lemma join_concat: "join sep (x # xs) = x @ concat (map ((@) sep) xs)"
  by (induction xs arbitrary: x) simp_all

lemma read_object:
  assumes "list_all2 member_of ts es" "ts \<noteq> []" "sorted_wrt (<) (map fst es)" "blank pre" "blank ind" "blank nl" "blank post" "ends (post @ CHR ''}'' # r)"
  shows "parse_at (pre @ CHR ''{'' # nl @ join (CHR '','' # nl) (map ((@) ind) ts) @ post @ CHR ''}'' # r) st = resume (JObject es) r st"
proof -
  obtain t ts' e es' where e: "ts = t # ts'" "es = e # es'" "member_of t e" "list_all2 member_of ts' es'"
    using assms(1,2) by (auto simp: list_all2_Cons1 neq_Nil_conv)
  let ?r = "concat (map (\<lambda>t. CHR '','' # (nl @ ind) @ t) ts') @ post @ CHR ''}'' # r"
  have "ends ?r" using assms(8) by (cases ts') simp_all
  then have "parse_at (CHR ''{'' # (nl @ ind) @ t @ ?r) st = resume (snd e) ?r (In_object [] (fst e) # st)"
    using e(3) assms(5,6) by (intro read_first_member) simp_all
  also have "\<dots> = resume (JObject (insert_all es' [(fst e, snd e)])) r st"
    using read_members [OF e(4) _ assms(7,8), of "nl @ ind" "snd e" "[]"] assms(5,6) by simp
  also have "insert_all es' [(fst e, snd e)] = es" using insert_all_sorted [of "[e]" es'] assms(3) e(2) by simp
  finally show ?thesis using e(1) by (simp add: parse_at_def scan_blank assms(4) join_concat comp_def)
qed

lemma read_array:
  assumes "list_all2 text_of ts vs" "ts \<noteq> []" "blank pre" "blank ind" "blank nl" "blank post" "ends (post @ CHR '']'' # r)"
  shows "parse_at (pre @ CHR ''['' # nl @ join (CHR '','' # nl) (map ((@) ind) ts) @ post @ CHR '']'' # r) st = resume (JArray vs) r st"
proof -
  let ?s = "nl @ join (CHR '','' # nl) (map ((@) ind) ts) @ post @ CHR '']'' # r"
  obtain t ts' v where t: "ts = t # ts'" "text_of t v" using assms(1,2) by (auto simp: list_all2_Cons1 neq_Nil_conv)
  let ?r = "concat (map (\<lambda>t. CHR '','' # (nl @ ind) @ t) ts') @ post @ CHR '']'' # r"
  have "ends ?r" using assms(7) by (cases ts') simp_all
  then have "fst (scan ((nl @ ind) @ t @ ?r)) \<noteq> End_array" using t(2) assms(4,5) unfolding text_of_def by (meson list_all_append)
  then have "fst (scan ?s) \<noteq> End_array" using t(1) by (simp add: join_concat comp_def)
  then have "parse_at (pre @ CHR ''['' # ?s) st = parse_at ?s (In_array [] # st)"
    by (auto simp: parse_at_def scan_blank assms(3) scan_signs sax_parse_step [of Begin_array] proceed_def split: prod.splits)
  also have "\<dots> = resume (JArray vs) r st" using read_items [OF assms(1,2,5,4,5,6,7), of "[]"] by simp
  finally show ?thesis .
qed

lemma blank_indent: "blank (indent n)"
  by (simp add: indent_def list_all_iff is_blank_def)

lemma enclosed_text:
  assumes "\<And>pre nl ind post r st. blank pre \<Longrightarrow> blank nl \<Longrightarrow> blank ind \<Longrightarrow> blank post \<Longrightarrow> ends (post @ close_char # r)
      \<Longrightarrow> parse_at (pre @ open_char # nl @ join (CHR '','' # nl) (map ((@) ind) ts) @ post @ close_char # r) st = resume v r st"
    and "open_char = CHR ''['' \<and> close_char = CHR '']'' \<or> open_char = CHR ''{'' \<and> close_char = CHR ''}''"
  shows "text_of (enclose pretty cur new_indent open_char close_char ts) v"
proof -
  have e: "ends (close_char # r)" for r using assms(2) by auto
  have "parse_at (pre @ enclose pretty cur new_indent open_char close_char ts @ r) st = resume v r st" if "blank pre" for pre r st
  proof (cases pretty)
    case True
    have "ends (([newline_char] @ indent cur) @ close_char # r)" by simp
    moreover have "blank [newline_char]" by (simp add: is_blank_def)
    ultimately show ?thesis using assms(1) [OF that _ blank_indent, of "[newline_char]" "[newline_char] @ indent cur" r new_indent st] True blank_indent
      by (simp add: enclose_def)
  next
    case False
    have "map ((@) []) ts = ts" by (induction ts) simp_all
    then show ?thesis using assms(1) [OF that, of "[]" "[]" "[]" r st] e False by (simp add: enclose_def)
  qed
  moreover have "fst (scan (pre @ enclose pretty cur new_indent open_char close_char ts @ r)) \<noteq> End_array" if "blank pre" for pre r
    using assms(2) by (auto simp: scan_blank that enclose_def scan_signs)
  moreover have "enclose pretty cur new_indent open_char close_char ts \<noteq> []" "code (hd (enclose pretty cur new_indent open_char close_char ts)) < 0x80"
    using assms(2) by (auto simp: enclose_def)
  ultimately show ?thesis unfolding text_of_def by blast
qed

lemma option_list_exists:
  "(\<And>x. x \<in> set xs \<Longrightarrow> \<exists>t. f x = Some t \<and> P t x) \<Longrightarrow> \<exists>ts. option_list (map f xs) = Some ts \<and> list_all2 P ts xs"
proof (induction xs)
  case (Cons x xs)
  then obtain ts where "option_list (map f xs) = Some ts" "list_all2 P ts xs" by fastforce
  moreover obtain t where "f x = Some t" "P t x" using Cons.prems by fastforce
  ultimately show ?case by auto
qed simp

lemma scalar_texts:
  "text_of ''null'' JNull" "text_of ''true'' (JBool True)" "text_of ''false'' (JBool False)" "text_of ''{}'' (JObject [])" "text_of ''[]'' (JArray [])"
proof -
  show "text_of ''null'' JNull" by (rule text_ofI [of _ Literal_null]) (use scan_words in simp_all)
  show "text_of ''true'' (JBool True)" by (rule text_ofI [of _ Literal_true]) (use scan_words in simp_all)
  show "text_of ''false'' (JBool False)" by (rule text_ofI [of _ Literal_false]) (use scan_words in simp_all)
  show "text_of ''{}'' (JObject [])" "text_of ''[]'' (JArray [])"
    by (simp_all add: text_of_def scan_blank scan_signs parse_at_def sax_parse_step resume_def)
qed

lemma string_text: "reads_string t s \<Longrightarrow> text_of ([quote] @ t @ [quote]) (JString s)"
  by (rule text_ofI [of _ "Value_string s"]) (simp_all add: scan_signs reads_string_def)

lemma number_reads_ascii: "number_reads t ty \<Longrightarrow> t \<noteq> [] \<and> code (hd t) < 0x80"
  by (cases t) (auto simp: number_reads_def is_digit_def)

lemma integer_text: "- (2 ^ 63) \<le> i \<Longrightarrow> i < 2 ^ 64 \<Longrightarrow> text_of (dump_integer i) (JInt i)"
proof -
  assume i: "- (2 ^ 63) \<le> i" "i < 2 ^ 64"
  have "number_reads (dump_integer i) (if i < 0 then Signed else Unsigned)"
    using signed_reads [of "nat (- i)"] unsigned_reads [of "nat i"] by (simp add: dump_integer_eq [OF i])
  note number_reads_ascii [OF this]
  then show ?thesis by (intro text_ofI [of _ "if i < 0 then Value_integer i else Value_unsigned i"]) (simp_all add: scan_integer [OF i])
qed

lemma float_text: "reads_as t x \<Longrightarrow> text_of t (JFloat x)"
  using number_reads_ascii [of t Floating] scan_number_text [of t Floating]
  by (intro text_ofI [of _ "Value_float (Some x)"]) (simp_all add: reads_as_def number_token_def)

lemma dump_read_back:
  assumes "wf_json j" "\<forall>x \<in> json_floats j. reads_as (show_double x) x"
  shows "\<exists>t. dump show_double pretty False step cur j = Some t \<and> text_of t j"
  using assms
proof (induction show_double pretty "False" step cur j rule: dump.induct)
  case (1 show_double pretty step cur m)
  show ?case
  proof (cases "m = []")
    case False
    let ?n = "if pretty then cur + step else cur"
    let ?f = "\<lambda>(k, v). case (dump_escaped False k, dump show_double pretty False step ?n v) of
      (Some key, Some val) \<Rightarrow> Some ([quote] @ key @ [quote] @ (if pretty then '': '' else '':'') @ val) | _ \<Rightarrow> None"
    have "\<exists>t. ?f e = Some t \<and> member_of t e" if e: "e \<in> set m" for e
    proof -
      have "utf8_ok (fst e)" "wf_json (snd e)" "\<forall>x \<in> json_floats (snd e). reads_as (show_double x) x" using 1(2,3) e by auto
      moreover from this obtain key where "dump_escaped False (fst e) = Some key" "reads_string key (fst e)"
        using string_read_back [of "fst e"] unfolding reads_string_def by blast
      moreover obtain val where "dump show_double pretty False step ?n (snd e) = Some val" "text_of val (snd e)"
        using 1(1) [OF False refl e, of "fst e" "snd e"] calculation by auto
      ultimately show ?thesis using memberI [of key e val pretty] by (cases e) simp
    qed
    then obtain ts where ts: "option_list (map ?f m) = Some ts" "list_all2 member_of ts m" using option_list_exists [of m ?f member_of] by blast
    have "text_of (enclose pretty cur ?n (CHR ''{'') (CHR ''}'') ts) (JObject m)"
      using ts(2) False 1(2) by (intro enclosed_text read_object) (auto simp: list_all2_Nil)
    then show ?thesis using False ts(1) by (simp add: Let_def)
  qed (simp add: scalar_texts)
next
  case (2 show_double pretty step cur xs)
  show ?case
  proof (cases "xs = []")
    case False
    let ?n = "if pretty then cur + step else cur"
    have "\<exists>t. dump show_double pretty False step ?n v = Some t \<and> text_of t v" if "v \<in> set xs" for v
      using 2(1) [OF False refl that] 2(2,3) that by auto
    then obtain ts where ts: "option_list (map (dump show_double pretty False step ?n) xs) = Some ts" "list_all2 text_of ts xs"
      using option_list_exists [of xs "dump show_double pretty False step ?n" text_of] by blast
    have "text_of (enclose pretty cur ?n (CHR ''['') (CHR '']'') ts) (JArray xs)"
      using ts(2) False by (intro enclosed_text read_array) auto
    then show ?thesis using False ts(1) by (simp add: Let_def)
  qed (simp add: scalar_texts)
next
  case (3 show_double pretty step cur s)
  then obtain t where "dump_escaped False s = Some t" "reads_string t s" using string_read_back [of s] by (auto simp: reads_string_def)
  then show ?case using string_text [of t s] by simp
qed (auto simp: scalar_texts integer_text float_text)

lemma text_of_parse: "text_of t j \<Longrightarrow> json_parse strict t = Inr j"
proof -
  assume t: "text_of t j"
  then have "skip_bom t = Some t" by (cases t) (auto simp: text_of_def skip_bom_def)
  moreover have "parse_at t [] = Inr (j, [])" using t resume_Nil [of j "[]"] unfolding text_of_def
    by (metis append_Nil append_Nil2 ends_simps(1) list.pred_inject(1))
  ultimately show ?thesis by (auto simp: json_parse_def parse_at_def scan_def skip_whitespace_def split: prod.splits)
qed

end
