(* ===== verification/Json_Text.thy ===== *)
theory Json_Text
  imports Json_Roundtrip Config Http_Control
begin

text \<open>
  The components that take a parser, on the parser and the serialiser of the library: configuration files as
  texts, commands of the control server as texts, and the detour of replay commands through a text.
\<close>

section \<open>The library\<close>

text \<open>\<open>file >> j\<close> reads one value and leaves what follows it, \<open>json::parse\<close> needs the whole text.\<close>

definition read_stream :: "string \<Rightarrow> Json option" where
  "read_stream s = parsed (json_parse False s)"

definition nlohmann :: "(double \<Rightarrow> string) \<Rightarrow> (control_exn \<Rightarrow> string) \<Rightarrow> json_library" where
  "nlohmann show_double what =
     \<lparr>lib_parse = json_parse True, lib_dump = (\<lambda>j. the (json_dump show_double None j)), lib_what = what\<rparr>"

lemma dump_parse:
  assumes "wf_json j" "\<forall>x \<in> json_floats j. reads_as (show_double x) x"
  shows "\<exists>t. json_dump show_double ind j = Some t \<and> (\<forall>strict. json_parse strict t = Inr j)"
proof -
  obtain t where "json_dump show_double ind j = Some t" "text_of t j"
    using dump_read_back [OF assms, of False 0 0] dump_read_back [OF assms, of True _ 0] by (cases ind) (auto simp: json_dump_def)
  then show ?thesis using text_of_parse by blast
qed

section \<open>Configuration files\<close>

lemma sorted_keys:
  "sorted_wrt (<) [''feeds'', ''metrics'', ''network'', ''pipeline'', ''queue'', ''security'', ''storage'']"
  "sorted_wrt (<) [''binance_enabled'', ''default_symbols'', ''mock_enabled'']"
  "sorted_wrt (<) [''ctrl_http_port'', ''pubsub_port'', ''ws_metrics_port'']"
  "sorted_wrt (<) [''normalizer_threads'', ''publisher_lanes'', ''recorder_fsync_ms'']"
  "sorted_wrt (<) [''high_watermark'', ''low_watermark'']"
  "sorted_wrt (<) [''dir'', ''index_interval'', ''roll_bytes'']"
  "sorted_wrt (<) [''l1_rate'', ''l2_rate'', ''trade_rate'']"
  by (simp_all add: less_char_def)

definition utf8_config :: "Config \<Rightarrow> bool" where
  "utf8_config c \<longleftrightarrow> utf8_ok (sec_token (security c)) \<and> utf8_ok (stor_dir (storage c)) \<and> (\<forall>s \<in> set (default_symbols (feeds c)). utf8_ok s)"

lemma utf8_ascii: "list_all (\<lambda>c. code c < 0x80) s \<Longrightarrow> utf8_ok s"
  by (induction s) (simp_all add: utf8_ok.simps)

lemma wf_json_uint: "LENGTH('a::len) \<le> 64 \<Longrightarrow> wf_json (json_uint (w :: 'a word))"
proof -
  assume "LENGTH('a) \<le> 64"
  then have "(2 :: int) ^ LENGTH('a) \<le> 2 ^ 64" by (intro power_increasing) simp_all
  then have "uint w < 2 ^ 64" using unsigned_less [of w, where 'a = int] by linarith
  moreover have "- (2 ^ 63) \<le> uint w" by (rule order.trans [of _ 0]) simp_all
  ultimately show ?thesis by (simp add: json_uint_def)
qed

lemma wf_config_json: "utf8_config c \<Longrightarrow> wf_json (config_json c)"
  by (simp add: config_json_def utf8_config_def utf8_ascii wf_json_uint sorted_keys sorted_wrt1 del: sorted_wrt.simps)

lemma floats_config_json: "json_floats (config_json c) = {}"
  by (simp add: config_json_def json_uint_def)

section \<open>Commands as texts\<close>

definition rates_json :: "int \<Rightarrow> int \<Rightarrow> int \<Rightarrow> Json" where
  "rates_json a b c = JObject [(''l1_rate'', JInt a), (''l2_rate'', JInt b), (''trade_rate'', JInt c)]"

lemma wf_rates_json: "{a, b, c} \<subseteq> {0..<2 ^ 32} \<Longrightarrow> wf_json (rates_json a b c)"
  by (simp add: rates_json_def utf8_ascii sorted_keys del: sorted_wrt.simps)

lemma wf_json_set: "wf_json j \<Longrightarrow> utf8_ok k \<Longrightarrow> wf_json v \<Longrightarrow> json_set k v j = Some j1 \<Longrightarrow> wf_json j1"
  by (induction k v j rule: json_set.induct) (auto simp del: wf_json.simps(5) intro: wf_map_insert simp: wf_json.simps(5) [of "[_]"])

lemma floats_json_set: "json_set k v j = Some j1 \<Longrightarrow> json_floats j1 \<subseteq> json_floats j \<union> json_floats v"
proof (induction k v j rule: json_set.induct)
  case (1 k v m)
  have "(\<Union>e \<in> set (map_insert k v m). json_floats (snd e)) \<subseteq> (\<Union>e \<in> insert (k, v) (set m). json_floats (snd e))"
    using set_map_insert [of k v m] by (rule UN_mono) simp
  moreover have "j1 = JObject (map_insert k v m)" using 1 by simp
  ultimately show ?case by (simp add: Un_commute)
qed auto

lemma retarget [simp]: "internal_error (req\<lparr>req_target := t\<rparr>) = internal_error req" "envelope (req\<lparr>req_target := t\<rparr>) res = envelope req res"
  by (simp_all add: internal_error_def envelope_def)

text \<open>A replay command is written to a text and parsed again.\<close>

lemma replay_detour:
  assumes "wf_json j" "\<forall>x \<in> json_floats j. reads_as (show_double x) x" "utf8_ok action"
  shows "replay_request (nlohmann show_double what) pw ci req action j w = (case json_set ''action'' (JString action) j of
    None \<Rightarrow> Some (internal_error req, w) | Some j1 \<Rightarrow> replay_command (nlohmann show_double what) ci j1 w)"
proof (cases "json_set ''action'' (JString action) j")
  case (Some j1)
  have "wf_json j1" using wf_json_set [OF assms(1) _ _ Some] assms(3) by (simp add: utf8_ascii)
  moreover have "\<forall>x \<in> json_floats j1. reads_as (show_double x) x" using floats_json_set [OF Some] assms(2) by auto
  ultimately obtain t where "json_dump show_double None j1 = Some t" "json_parse True t = Inr j1" using dump_parse by blast
  then show ?thesis using Some by (simp add: replay_request_def handle_replay_post_def nlohmann_def)
qed (simp add: replay_request_def)

text \<open>A number of at least two to the 1024 is no double: the library throws \<open>out_of_range\<close>, not \<open>parse_error\<close>.\<close>

lemma strtod_overflow: "2 ^ 1024 \<le> decimal_value t \<Longrightarrow> hd t \<noteq> CHR ''-'' \<Longrightarrow> strtod t = None"
proof -
  assume "2 ^ 1024 \<le> decimal_value t" "hd t \<noteq> CHR ''-''"
  then have "rnd (2 ^ 1024) \<le> rnd (decimal_value t)" by (intro rnd_mono)
  moreover have "rnd (2 ^ 1024) = 2 ^ 1024" using rnd_exact [of 1 1024] by (simp add: power_int_def)
  ultimately have "\<not> \<bar>rnd (decimal_value t)\<bar> < 2 ^ 1024" by linarith
  then show ?thesis using \<open>hd t \<noteq> CHR ''-''\<close> by (simp add: strtod_def)
qed

lemma parse_overflow:
  assumes "number_reads t Floating" "strtod t = None"
  shows "json_parse strict t = Inl OutOfRange"
proof -
  have "skip_bom t = Some t" using number_reads_ascii [OF assms(1)] by (cases t) (auto simp: skip_bom_def)
  moreover have "scan t = (Value_float None, [])" using scan_number_text [OF assms(1), of "[]"] assms(2) by (simp add: number_token_def)
  ultimately show ?thesis by (simp add: json_parse_def sax_parse.simps)
qed

section \<open>Properties\<close>

text \<open>
  C13: round trip of JSON texts. Every value whose strings are UTF-8, whose integers fit 64 bits, whose
  floats are finite and whose members are in the order of a \<open>std::map\<close> is written by \<open>dump\<close>, compact or
  indented, as a text that the parser, strict or not, reads back as exactly that value, provided that the texts of its
  floats convert back.
\<close>

theorem json_roundtrip:
  assumes "wf_json j" "\<forall>x \<in> json_floats j. reads_as (show_double x) x"
  shows "\<exists>t. json_dump show_double ind j = Some t \<and> (\<forall>strict. json_parse strict t = Inr j)"
  using assms by (rule dump_parse)

definition example_json :: Json where
  "example_json = JObject [(''a'', JArray [JInt (- 7), JNull, JString [CHR 0x0A, CHR 0xC3, CHR 0xA9]]), (''b'', JFloat (1 / 2))]"

lemma example_json_ok: "wf_json example_json" "\<forall>x \<in> json_floats example_json. reads_as ((\<lambda>_. ''0.5'') x) x"
proof -
  have r: "rnd (1 / 2) = 1 / 2" using rnd_exact [of 1 "- 1"] by (simp add: power_int_minus)
  have "decimal_value ''0.5'' = 1 / 2" by (simp add: decimal_value_def digits_value_def is_digit_def power_int_minus)
  then have "strtod ''0.5'' = (if \<bar>rnd (1 / 2)\<bar> < 2 ^ 1024 then Some (rnd (1 / 2)) else None)" by (simp only: strtod_def Let_def) simp
  then have "strtod ''0.5'' = Some (1 / 2)" unfolding r by simp
  moreover have "number_reads ''0.5'' Floating" by (simp add: number_reads_def is_digit_def)
  ultimately show "\<forall>x \<in> json_floats example_json. reads_as ((\<lambda>_. ''0.5'') x) x" by (simp add: example_json_def reads_as_def)
  show "wf_json example_json" using r by (simp add: example_json_def finite_double_def utf8_ok.simps byte_ranges_def less_char_def)
qed

theorem json_roundtrip_witness:
  "\<exists>t. json_dump (\<lambda>_. ''0.5'') (Some 2) example_json = Some t \<and> json_parse True t = Inr example_json"
  using json_roundtrip [OF example_json_ok, of "Some 2"] by blast

text \<open>
  C35: what the parser accepts. A value that the parser returns, for whatever text, has valid UTF-8
  strings, integers within 64 bits, finite doubles and sorted members without repetition; so
  \<open>dump\<close> never throws on it, and what it writes is read as the same value.
\<close>

theorem parsed_json_prints:
  assumes "json_parse strict s = Inr j"
  shows "wf_json j \<and> ((\<forall>x \<in> json_floats j. reads_as (show_double x) x)
    \<longrightarrow> (\<exists>t. json_dump show_double ind j = Some t \<and> json_parse strict' t = Inr j))"
  using json_parse_ok [OF assms] dump_parse [of j show_double ind] by blast

theorem parsed_json_prints_witness:
  "\<exists>t. json_dump (\<lambda>_. []) None (JObject [(''a'', JInt 2)]) = Some t \<and> json_parse True t = Inr (JObject [(''a'', JInt 2)])"
proof -
  have "json_parse True ''{\"a\":1, \"a\":2}'' = Inr (JObject [(''a'', JInt 2)])" by code_simp
  from parsed_json_prints [OF this, of "\<lambda>_. []" None True] show ?thesis by simp
qed

text \<open>
  C36: round trip of configuration files. The text of a configuration, in compact or indented form, is loaded as that
  configuration, whatever its ports, sizes, flags and UTF-8 names; the buckets of the
  histograms are the exception, they are never read.
\<close>

theorem config_text_roundtrip:
  assumes "utf8_config c"
  shows "\<exists>t. json_dump show_double ind (config_json c) = Some t
    \<and> load_from_file read_stream (Some t) = c\<lparr>cfg_metrics := cfg_metrics default_config\<rparr>"
proof -
  obtain t where "json_dump show_double ind (config_json c) = Some t" "json_parse False t = Inr (config_json c)"
    using dump_parse [OF wf_config_json [OF assms]] by (metis floats_config_json ball_empty)
  then show ?thesis by (simp add: load_from_file_def read_stream_def parsed_def load_config_json)
qed

theorem config_text_roundtrip_witness:
  "\<exists>t. json_dump (\<lambda>_. []) (Some 2) (config_json (default_config\<lparr>security := \<lparr>sec_token = ''t''\<rparr>\<rparr>)) = Some t
     \<and> load_from_file read_stream (Some t) = default_config\<lparr>security := \<lparr>sec_token = ''t''\<rparr>\<rparr>"
proof -
  have "utf8_config (default_config\<lparr>security := \<lparr>sec_token = ''t''\<rparr>\<rparr>)" by (simp add: utf8_config_def default_config_def utf8_ascii)
  from config_text_roundtrip [OF this, of "\<lambda>_. []" "Some 2"] show ?thesis by simp
qed



text \<open>
  C38: numbers out of range. A body that is a floating-point number of at least two to the 1024 is not answered as invalid JSON: the
  exception passes the handler of parse errors of all three commands that take a body, the answer is 500, and nothing changes.
\<close>

theorem overflow_is_internal_error:
  assumes "number_reads t Floating" "2 ^ 1024 \<le> decimal_value t" "hd t \<noteq> CHR ''-''" "req_method req = Post" "req_body req = t"
    and "req_target req \<in> {''/feeds/start'', ''/replay/start'', ''/replay/stop''}"
  shows "handle_http_request (nlohmann show_double what) pw ci req w = Some (envelope req (internal_error req), w)"
proof -
  have "json_parse True t = Inl OutOfRange" using assms(1) strtod_overflow [OF assms(2,3)] by (rule parse_overflow)
  moreover have "t \<noteq> []" using number_reads_ascii [OF assms(1)] by simp
  ultimately show ?thesis using assms(4-6) by (auto simp: handle_http_request_def route_def nlohmann_def unparsed_def)
qed

theorem overflow_is_internal_error_witness:
  "\<forall>ci. \<exists>res. handle_http_request (nlohmann (\<lambda>_. []) (\<lambda>_. [])) [] ci (example_request\<lparr>req_body := ''1e999''\<rparr>) example_world = Some (res, example_world)
     \<and> res_status res = 500"
proof
  fix ci
  have "number_reads ''1e999'' Floating" by (simp add: number_reads_def is_digit_def)
  moreover have "2 ^ 1024 \<le> decimal_value ''1e999''"
  proof -
    define n where "n = (999 :: nat)"
    have "(2 :: rat) ^ 1024 \<le> 2 ^ (3 * n)" by (rule power_increasing) (simp_all add: n_def)
    also have "\<dots> = (2 ^ 3) ^ n" by (rule power_mult)
    also have "\<dots> \<le> 10 ^ n" by (rule power_mono) simp_all
    also have "exponent_value ''e999'' = int n" by (simp add: n_def digits_value_def)
    then have "decimal_value ''1e999'' = 10 ^ n" by (simp add: decimal_value_def digits_value_def is_digit_def del: exponent_value.simps)
    then have "10 ^ n = decimal_value ''1e999''" by (rule sym)
    finally show ?thesis .
  qed
  ultimately show "\<exists>res. handle_http_request (nlohmann (\<lambda>_. []) (\<lambda>_. [])) [] ci (example_request\<lparr>req_body := ''1e999''\<rparr>) example_world = Some (res, example_world)
     \<and> res_status res = 500"
    using overflow_is_internal_error [of "''1e999''" "example_request\<lparr>req_body := ''1e999''\<rparr>" "\<lambda>_. []" "\<lambda>_. []" "[]" ci example_world]
    by (simp add: example_request_def)
qed

end
