(* ===== verification/Benchmark.thy ===== *)
theory Benchmark
  imports Market_Core Json_Roundtrip
begin

text \<open>
  \<open>throughput_benchmark.cpp\<close>: its command line, the distributor thread with its counters and histogram,
  and the result it prints. The queue of frames is the list of frames in the order in which the queue hands them
  out; clock readings, the samples of waiting loops and the observed queue sizes are arguments.
\<close>

section \<open>Command line\<close>

record BenchmarkOptions =
  producers :: u32
  duration_seconds :: u32
  bo_normalizer_threads :: u32
  queue_high_watermark :: u32
  queue_low_watermark :: u32

definition default_options :: BenchmarkOptions where
  "default_options = \<lparr>producers = 1, duration_seconds = 10, bo_normalizer_threads = 4, queue_high_watermark = 80000, queue_low_watermark = 60000\<rparr>"

text \<open>
  \<open>std::stoul\<close>: white space, a sign, and as many digits as there are; what follows is ignored. It throws without a digit
  and from two to the 64 on; a minus sign negates modulo two to the 64.
\<close>

definition is_space :: "char \<Rightarrow> bool" where
  "is_space c \<longleftrightarrow> c = CHR '' '' \<or> 9 \<le> code c \<and> code c \<le> 13"

definition stoul :: "string \<Rightarrow> u64 option" where
  "stoul s =
     (let r = dropWhile is_space s;
          minus = (r \<noteq> [] \<and> hd r = CHR ''-'');
          ds = takeWhile is_digit (if r \<noteq> [] \<and> (hd r = CHR ''-'' \<or> hd r = CHR ''+'') then tl r else r)
      in if ds = [] \<or> 2 ^ 64 \<le> digits_value ds then None
         else Some (word_of_int (if minus then - digits_value ds else digits_value ds)))"

definition parse_uint_arg :: "string \<Rightarrow> string \<Rightarrow> u32 option" where
  "parse_uint_arg arg name =
     (let prefix = ''--'' @ name @ ''=''
      in if take (length prefix) arg \<noteq> prefix then None
         else let val = drop (length prefix) arg in if val = [] then None else map_option ucast (stoul val))"

definition parse_arg :: "string \<Rightarrow> BenchmarkOptions \<Rightarrow> BenchmarkOptions option" where
  "parse_arg arg o1 =
     (case parse_uint_arg arg ''producers'' of Some v \<Rightarrow> Some (o1\<lparr>producers := v\<rparr>) | None \<Rightarrow>
      case parse_uint_arg arg ''duration'' of Some v \<Rightarrow> Some (o1\<lparr>duration_seconds := v\<rparr>) | None \<Rightarrow>
      case parse_uint_arg arg ''normalizer_threads'' of Some v \<Rightarrow> Some (o1\<lparr>bo_normalizer_threads := v\<rparr>) | None \<Rightarrow>
      case parse_uint_arg arg ''queue_high_watermark'' of Some v \<Rightarrow> Some (o1\<lparr>queue_high_watermark := v\<rparr>) | None \<Rightarrow>
      case parse_uint_arg arg ''queue_low_watermark'' of Some v \<Rightarrow> Some (o1\<lparr>queue_low_watermark := v\<rparr>) | None \<Rightarrow> None)"

fun parse_args :: "string list \<Rightarrow> BenchmarkOptions \<Rightarrow> BenchmarkOptions option" where
  "parse_args [] o1 = Some o1"
| "parse_args (arg # args) o1 = (case parse_arg arg o1 of None \<Rightarrow> None | Some o2 \<Rightarrow> parse_args args o2)"

text \<open>The arguments after the name of the program.\<close>

definition parse_options :: "string list \<Rightarrow> BenchmarkOptions option" where
  "parse_options args = (case parse_args args default_options of
     None \<Rightarrow> None
   | Some o1 \<Rightarrow>
       if \<not> (producers o1 = 1 \<or> producers o1 = 4 \<or> producers o1 = 8) then None
       else if duration_seconds o1 = 0 then None
       else if queue_high_watermark o1 = 0 then None
       else if queue_low_watermark o1 \<ge> queue_high_watermark o1 then None
       else Some o1)"

section \<open>Topics and time stamps\<close>

fun frame_timestamp_ns :: "FrameBody \<Rightarrow> u64" where
  "frame_timestamp_ns (BL1 b) = l1_ts_ns b"
| "frame_timestamp_ns (BL2 b) = l2_ts_ns b"
| "frame_timestamp_ns (BTrade b) = tr_ts_ns b"
| "frame_timestamp_ns (BHb b) = hb_ts_ns b"
| "frame_timestamp_ns (BAck b) = 0"

fun bench_kind :: "FrameBody \<Rightarrow> u32 \<times> string" where
  "bench_kind (BL1 b) = (l1_symbol_id b, ''l1'')"
| "bench_kind (BL2 b) = (l2_symbol_id b, ''l2'')"
| "bench_kind (BTrade b) = (tr_symbol_id b, ''trade'')"
| "bench_kind (BHb b) = (0, ''hb'')"
| "bench_kind (BAck b) = (0, ''control'')"

definition frame_topic :: "SymbolRegistry \<Rightarrow> Frame \<Rightarrow> string" where
  "frame_topic r frame = (case bench_kind (body frame) of (symb, ty) \<Rightarrow> ty @ ''.'' @ (if symb = 0 then ''UNKNOWN'' else by_id r symb))"

section \<open>The pipeline\<close>

record Bench =
  bn_feeds :: "MockFeed list"
  bn_norm :: Normalizer
  bn_pub :: PubServer
  bn_rec :: Recorder
  bn_env :: bp_env
  bn_running :: bool
  bn_queue :: "Frame list"  \<comment> \<open>\<open>normalizer_to_distributor\<close>\<close>
  bn_rec_queue :: "Frame list"  \<comment> \<open>all that went into \<open>distributor_to_recorder\<close>\<close>
  messages_processed :: u64
  total_latency_ns :: u64
  max_queue_depth :: u64
  latency_hist :: LatencyHistogram

definition bench_symbols :: "string list" where
  "bench_symbols = [''BTCUSDT'', ''ETHUSDT'', ''SOLUSDT'', ''ADAUSDT'', ''DOGEUSDT'', ''BNBUSDT'', ''XRPUSDT'', ''AVAXUSDT'', ''DOTUSDT'', ''LTCUSDT'']"

definition bench_buckets :: "u64 list" where
  "bench_buckets = [1000, 5000, 10000, 25000, 50000, 100000, 250000, 500000, 1000000, 5000000, 10000000]"

text \<open>One feed per producer; \<open>draws\<close> are the random draws of the constructors.\<close>

fun bench_feeds :: "nat \<Rightarrow> u32 \<Rightarrow> u32 \<Rightarrow> (nat \<Rightarrow> nat \<Rightarrow> double list) \<Rightarrow> bp_env \<Rightarrow> MockFeed list \<times> bp_env" where
  "bench_feeds 0 high low draws env = ([], env)"
| "bench_feeds (Suc n) high low draws env =
     (let (fds, env1) = bench_feeds n high low draws env;
          (feed, env2) = new_feed bench_symbols high low (draws n) env1
      in (fds @ [set_rates 5000 3000 1000 feed], env2))"

definition bench_setup :: "BenchmarkOptions \<Rightarrow> string \<Rightarrow> (nat \<Rightarrow> nat \<Rightarrow> double list) \<Rightarrow> bp_env \<Rightarrow> Bench" where
  "bench_setup o1 run_dir draws env =
     (let high = queue_high_watermark o1; low = queue_low_watermark o1;
          (norm, env1) = new_normalizer new_registry (bo_normalizer_threads o1) high low env;
          (pub, env2) = new_server ''benchmark-token'' high low env1;
          recd = new_recorder run_dir (2 * 1024 * 1024 * 1024) 10000 50;
          (fds, env3) = bench_feeds (unat (producers o1)) high low draws env2
      in \<lparr>bn_feeds = fds, bn_norm = norm, bn_pub = pub, bn_rec = recd, bn_env = env3, bn_running = True, bn_queue = [], bn_rec_queue = [],
          messages_processed = 0, total_latency_ns = 0, max_queue_depth = 0, latency_hist = new_histogram bench_buckets\<rparr>)"

definition bench_start :: "Bench \<Rightarrow> Bench" where
  "bench_start b =
     (let (pub, env) = server_start (bn_pub b, bn_env b)
      in b\<lparr>bn_pub := pub, bn_env := env, bn_norm := norm_start (bn_norm b), bn_rec := snd (rec_start (bn_rec b)), bn_feeds := map feed_start (bn_feeds b)\<rparr>)"

text \<open>The distributor's inputs for a frame: the clock for the latency, and what \<open>publish\<close> takes.\<close>

record bench_input =
  bi_now :: u64
  bi_start :: u64
  bi_rounds :: "(bool \<times> nat) list"
  bi_elapsed :: double
  bi_end :: u64

definition measure_latency :: "u64 \<Rightarrow> Frame \<Rightarrow> Bench \<Rightarrow> Bench option" where
  "measure_latency now frame b =
     (let ts = frame_timestamp_ns (body frame)
      in if ts > 0 \<and> now \<ge> ts
         then map_option (\<lambda>h. b\<lparr>total_latency_ns := total_latency_ns b + (now - ts), latency_hist := h\<rparr>) (hist_record (latency_hist b) (now - ts))
         else Some b)"

definition bench_frame :: "bench_input \<Rightarrow> Frame \<Rightarrow> Bench \<Rightarrow> Bench option" where
  "bench_frame i frame b = (case measure_latency (bi_now i) frame b of
     None \<Rightarrow> None
   | Some b1 \<Rightarrow>
       (case publish (frame_topic (n_registry (bn_norm b1)) frame) frame (bi_start i) (bi_rounds i) (bi_elapsed i) (bi_end i) (bn_pub b1, bn_env b1) of
          None \<Rightarrow> None
        | Some (pub, env) \<Rightarrow> Some (b1\<lparr>bn_pub := pub, bn_env := env, bn_rec_queue := bn_rec_queue b1 @ [frame], messages_processed := messages_processed b1 + 1\<rparr>)))"

fun bench_frames :: "(nat \<Rightarrow> bench_input) \<Rightarrow> Frame list \<Rightarrow> Bench \<Rightarrow> Bench option" where
  "bench_frames i [] b = Some b"
| "bench_frames i (f # frs) b = (case bench_frame (i 0) f b of None \<Rightarrow> None | Some b1 \<Rightarrow> bench_frames (i \<circ> Suc) frs b1)"

text \<open>One pass of the distributor's loop; \<open>sizes\<close> are the three observed queue sizes. The compare-and-exchange loop has no rival: only this thread writes the maximum.\<close>

definition update_depth :: "u64 \<times> u64 \<times> u64 \<Rightarrow> Bench \<Rightarrow> Bench" where
  "update_depth = (\<lambda>(x, y, z) b. let depth = max x (max y z) in if depth > max_queue_depth b then b\<lparr>max_queue_depth := depth\<rparr> else b)"

definition bench_pass :: "(nat \<Rightarrow> bench_input) \<Rightarrow> u64 \<times> u64 \<times> u64 \<Rightarrow> Bench \<Rightarrow> Bench option" where
  "bench_pass i sizes b =
     (if \<not> bn_running b then Some b
      else let batch = take 256 (bn_queue b)
           in if batch = [] then Some b
              else map_option (update_depth sizes) (bench_frames i batch (b\<lparr>bn_queue := drop 256 (bn_queue b)\<rparr>)))"

text \<open>After the run time: the flag is cleared, the feeds stop; the rest when the distributor has been joined.\<close>

definition bench_stop :: "Bench \<Rightarrow> Bench" where
  "bench_stop b = b\<lparr>bn_running := False, bn_feeds := map feed_stop (bn_feeds b)\<rparr>"

definition bench_shutdown :: "rec_env \<Rightarrow> Bench \<Rightarrow> (Bench \<times> rec_env) option" where
  "bench_shutdown re b = (case rec_stop (bn_rec b, re\<lparr>rmetrics := metrics (bn_env b)\<rparr>) of
     None \<Rightarrow> None
   | Some (r, re1) \<Rightarrow>
       let (pub, env) = server_stop (bn_pub b, (bn_env b)\<lparr>metrics := rmetrics re1\<rparr>)
       in Some (b\<lparr>bn_rec := r, bn_pub := pub, bn_env := env, bn_norm := norm_stop (bn_norm b)\<rparr>, re1))"

text \<open>The other threads, as the distributor sees them: the registry as the workers have extended it, and a frame put into the queue.\<close>

datatype bench_event = BRegistry SymbolRegistry | BFrame Frame | BPass "nat \<Rightarrow> bench_input" "u64 \<times> u64 \<times> u64" | BStop

fun bench_step :: "bench_event \<Rightarrow> Bench \<Rightarrow> Bench option" where
  "bench_step (BRegistry r) b = Some (b\<lparr>bn_norm := (bn_norm b)\<lparr>n_registry := r\<rparr>\<rparr>)"
| "bench_step (BFrame f) b = Some (b\<lparr>bn_queue := bn_queue b @ [f]\<rparr>)"
| "bench_step (BPass i sizes) b = bench_pass i sizes b"
| "bench_step BStop b = Some (bench_stop b)"

fun bench_run :: "bench_event list \<Rightarrow> Bench \<Rightarrow> Bench option" where
  "bench_run [] b = Some b"
| "bench_run (e # es) b = (case bench_step e b of None \<Rightarrow> None | Some b1 \<Rightarrow> bench_run es b1)"

section \<open>The result\<close>

record BenchmarkResult =
  br_messages :: u64
  throughput_msgs_per_sec :: double
  avg_latency_us :: double
  p50_latency_us :: double
  p99_latency_us :: double
  br_max_depth :: u64
  dropped_frames :: u64
  runtime_seconds :: double

definition bench_result :: "double \<Rightarrow> Bench \<Rightarrow> BenchmarkResult option" where
  "bench_result runtime b =
     (let n = messages_processed b; real_of = (\<lambda>w :: u64. double_of_nat (unat w)); count = get_counter (metrics (bn_env b))
      in map_option (\<lambda>pct. \<lparr>br_messages = n,
           throughput_msgs_per_sec = (if runtime > 0 then ddiv (real_of n) runtime else 0),
           avg_latency_us = (if n > 0 then ddiv (ddiv (real_of (total_latency_ns b)) (real_of n)) 1000 else 0),
           p50_latency_us = ddiv (real_of (p50 pct)) 1000, p99_latency_us = ddiv (real_of (p99 pct)) 1000,
           br_max_depth = max_queue_depth b,
           dropped_frames = count ''normalizer_enqueue_failures_total'' + count ''publisher_frames_dropped_backpressure''
             + count ''publisher_frames_dropped_queue_full'' + count ''recorder_degraded_drops_total'',
           runtime_seconds = runtime\<rparr>) (get_percentiles (latency_hist b)))"

section \<open>Reading the command line back\<close>

lemma stoul_to_string: "n < 2 ^ 64 \<Longrightarrow> stoul (to_string n) = Some (word_of_nat n)"
proof -
  assume n: "n < 2 ^ 64"
  have v: "digits_value (to_string n) = int n" "list_all is_digit (to_string n)" using to_string_value by blast+
  have "to_string n \<noteq> []" using length_to_string_pos [of n] by auto
  then obtain c s where t: "to_string n = c # s" by (cases "to_string n") auto
  then have "\<not> is_space c" "c \<noteq> CHR ''-''" "c \<noteq> CHR ''+''" using v(2) by (auto simp: is_space_def is_digit_def)
  moreover have tw: "takeWhile is_digit (c # s) = c # s" using v(2) t by (simp add: list_all_iff takeWhile_eq_all_conv del: takeWhile.simps)
  moreover have "\<not> 2 ^ 64 \<le> int n" using n by simp
  ultimately show ?thesis using v(1) t by (simp add: stoul_def tw Let_def del: takeWhile.simps)
qed

text \<open>A value is cut to 32 bits, no value below two to the 64 is refused.\<close>

lemma parse_uint_arg_wraps: "n < 2 ^ 64 \<Longrightarrow> parse_uint_arg (''--'' @ name @ ''='' @ to_string n) name = Some (word_of_nat n)"
proof -
  assume "n < 2 ^ 64"
  moreover have "ucast (word_of_nat n :: u64) = (word_of_nat n :: u32)" by (rule bit_word_eqI) (simp add: bit_simps)
  ultimately show ?thesis using length_to_string_pos [of n] by (simp add: parse_uint_arg_def stoul_to_string)
qed

lemma parse_uint_arg_text: "parse_uint_arg (''--'' @ name @ ''='' @ to_string (unat w)) name = Some (w :: u32)"
proof -
  have "unat w < 2 ^ 64" using unsigned_less [of w, where 'a = nat] by simp
  then show ?thesis using parse_uint_arg_wraps [of "unat w" name] by simp
qed

text \<open>The arguments that say a set of options.\<close>

definition option_args :: "BenchmarkOptions \<Rightarrow> string list" where
  "option_args o1 =
     [''--producers='' @ to_string (unat (producers o1)), ''--duration='' @ to_string (unat (duration_seconds o1)),
      ''--normalizer_threads='' @ to_string (unat (bo_normalizer_threads o1)),
      ''--queue_high_watermark='' @ to_string (unat (queue_high_watermark o1)),
      ''--queue_low_watermark='' @ to_string (unat (queue_low_watermark o1))]"

definition valid_options :: "BenchmarkOptions \<Rightarrow> bool" where
  "valid_options o1 \<longleftrightarrow> producers o1 \<in> {1, 4, 8} \<and> 0 < duration_seconds o1 \<and> queue_low_watermark o1 < queue_high_watermark o1"

lemma parse_args_options: "parse_args (option_args o1) o2 = Some o1"
proof -
  note texts = parse_uint_arg_text [of "''producers''"] parse_uint_arg_text [of "''duration''"] parse_uint_arg_text [of "''normalizer_threads''"]
    parse_uint_arg_text [of "''queue_high_watermark''"] parse_uint_arg_text [of "''queue_low_watermark''"]
  have other: "parse_uint_arg (''--'' @ x) name = None" if "take (length name + 1) x \<noteq> name @ ''=''" for x name
    using that by (simp add: parse_uint_arg_def)
  show ?thesis using texts [simplified]
    by (simp add: option_args_def parse_arg_def other [simplified])
qed

lemma parse_options_eq:
  "parse_options args = Some o1 \<longleftrightarrow> parse_args args default_options = Some o1 \<and> valid_options o1"
  by (auto simp: parse_options_def valid_options_def word_gt_0 not_le split: option.splits if_splits)

section \<open>Nothing blocks without clients\<close>

text \<open>The benchmark's server listens on a port that no one knows, so nothing connects to it.\<close>

lemma publish_alone:
  assumes "clients s = []" "below_high (queue_backpressure s) 0" "metrics_ok (metrics env)"
  shows "\<exists>s' env'. publish topic frame t0 rounds elapsed t1 (s, env) = Some (s', env') \<and> clients s' = []
    \<and> queue_backpressure s' = queue_backpressure s \<and> metrics_ok (metrics env')"
proof (cases "ps_running s")
  case True
  have r: "\<exists>m'. timer_destroy \<lparr>metric_name = n, start_ns = t0, cancelled = False\<rparr> t1 m = Some m' \<and> metrics_ok m'" if "metrics_ok m" for n m
    using record_latency_returns [OF that] by (simp add: timer_destroy_def)
  have g: "metrics_ok (metrics (bp_gauge n v e)) = metrics_ok (metrics e)" "metrics_ok (metrics (bp_count n e)) = metrics_ok (metrics e)" for n v e
    by (simp_all add: bp_gauge_def bp_count_def)
  let ?env = "bp_gauge ''publisher_active_clients'' (double_of_nat 0) (bp_count ''publisher_frames_published_total''
    (bp_gauge ''queue_depth'' (double_of_nat 0) (bp_gauge (bp_metric_name (queue_backpressure s) ''queue_depth'') (double_of_nat 0) env)))"
  let ?env3 = "if elapsed > 0 then bp_gauge ''publish_rate'' (ddiv (double_of_nat (unat (frames_published (pstats s) + 1))) elapsed) ?env else ?env"
  have "metrics_ok (metrics ?env3)" using assms(3) by (simp add: g)
  from r [OF this, of "''publisher_publish_latency_ns''"] show ?thesis using assms(1,2) True
    by (auto simp: publish_def publish_begin_def publish_end_def subscribed_clients_def max_depth_def wait_for_capacity_def Let_def)
next
  case False
  then show ?thesis using assms by (simp add: publish_def publish_begin_def)
qed

section \<open>Accounts\<close>

text \<open>What the distributor ought to do: the frames it processes, each with the clock reading, and the latencies it measures.\<close>

definition stamped :: "(nat \<Rightarrow> bench_input) \<Rightarrow> Frame list \<Rightarrow> (u64 \<times> Frame) list" where
  "stamped i frs = map (\<lambda>k. (bi_now (i k), frs ! k)) [0..<length frs]"

definition latency_samples :: "u64 \<times> Frame \<Rightarrow> u64 list" where
  "latency_samples = (\<lambda>(now, f). let ts = frame_timestamp_ns (body f) in if ts > 0 \<and> now \<ge> ts then [now - ts] else [])"

fun processed :: "bench_event list \<Rightarrow> bool \<Rightarrow> Frame list \<Rightarrow> (u64 \<times> Frame) list" where
  "processed [] run q = []"
| "processed (BRegistry r # es) run q = processed es run q"
| "processed (BFrame f # es) run q = processed es run (q @ [f])"
| "processed (BPass i sizes # es) run q = (if run then stamped i (take 256 q) @ processed es run (drop 256 q) else processed es run q)"
| "processed (BStop # es) run q = processed es False q"

fun arrivals :: "bench_event list \<Rightarrow> Frame list" where
  "arrivals [] = []"
| "arrivals (BFrame f # es) = f # arrivals es"
| "arrivals (_ # es) = arrivals es"

definition bench_ok :: "Bench \<Rightarrow> bool" where
  "bench_ok b \<longleftrightarrow> clients (bn_pub b) = [] \<and> below_high (queue_backpressure (bn_pub b)) 0 \<and> metrics_ok (metrics (bn_env b))"

definition accounts :: "Bench \<Rightarrow> (u64 \<times> Frame) list \<Rightarrow> bool" where
  "accounts b ps \<longleftrightarrow> bn_rec_queue b = map snd ps \<and> messages_processed b = word_of_nat (length ps)
     \<and> total_latency_ns b = sum_list (concat (map latency_samples ps))
     \<and> latency_hist b = hist_abs bench_buckets (concat (map latency_samples ps))"

lemma bench_buckets_ok: "sorted bench_buckets" "bench_buckets \<noteq> []"
  by (simp_all add: bench_buckets_def)

lemma measure_latency_accounts:
  assumes "total_latency_ns b = sum_list xs" "latency_hist b = hist_abs bench_buckets xs"
  shows "\<exists>b1. measure_latency now f b = Some b1 \<and> total_latency_ns b1 = sum_list (xs @ latency_samples (now, f))
    \<and> latency_hist b1 = hist_abs bench_buckets (xs @ latency_samples (now, f))
    \<and> b1 = b\<lparr>total_latency_ns := total_latency_ns b1, latency_hist := latency_hist b1\<rparr>"
  using assms hist_record_abs [OF bench_buckets_ok] by (simp add: measure_latency_def latency_samples_def Let_def)

lemma bench_frame_accounts:
  assumes "bench_ok b" "accounts b ps"
  shows "\<exists>b1. bench_frame i f b = Some b1 \<and> bench_ok b1 \<and> accounts b1 (ps @ [(bi_now i, f)]) \<and> bn_queue b1 = bn_queue b \<and> bn_running b1 = bn_running b"
proof -
  obtain b1 where 1: "measure_latency (bi_now i) f b = Some b1"
    and t: "total_latency_ns b1 = sum_list (concat (map latency_samples (ps @ [(bi_now i, f)])))"
    and h: "latency_hist b1 = hist_abs bench_buckets (concat (map latency_samples (ps @ [(bi_now i, f)])))"
    and b1: "b1 = b\<lparr>total_latency_ns := total_latency_ns b1, latency_hist := latency_hist b1\<rparr>"
    using measure_latency_accounts [of b "concat (map latency_samples ps)" "bi_now i" f] assms(2) by (auto simp: accounts_def)
  have k: "bn_pub b1 = bn_pub b" "bn_env b1 = bn_env b" "bn_rec_queue b1 = bn_rec_queue b" "messages_processed b1 = messages_processed b"
    "bn_queue b1 = bn_queue b" "bn_running b1 = bn_running b" by (subst b1, simp)+
  obtain s env where "publish (frame_topic (n_registry (bn_norm b1)) f) f (bi_start i) (bi_rounds i) (bi_elapsed i) (bi_end i) (bn_pub b1, bn_env b1) = Some (s, env)"
    and s: "clients s = []" "queue_backpressure s = queue_backpressure (bn_pub b)" "metrics_ok (metrics env)"
    using publish_alone [of "bn_pub b1" "bn_env b1"] assms(1) k by (metis bench_ok_def)
  then have "bench_frame i f b = Some (b1\<lparr>bn_pub := s, bn_env := env, bn_rec_queue := bn_rec_queue b @ [f], messages_processed := messages_processed b + 1\<rparr>)"
    using 1 k by (simp add: bench_frame_def)
  then show ?thesis using assms t h s k by (simp add: accounts_def bench_ok_def)
qed

lemma stamped_Cons: "stamped i (f # frs) = (bi_now (i 0), f) # stamped (i \<circ> Suc) frs"
  by (simp add: stamped_def upt_conv_Cons flip: map_Suc_upt del: upt_Suc)

lemma stamped_simps [simp]: "stamped i [] = []" "map snd (stamped i frs) = frs" "length (stamped i frs) = length frs"
  by (simp_all add: stamped_def comp_def map_nth)

lemma bench_frames_accounts:
  "bench_ok b \<Longrightarrow> accounts b ps \<Longrightarrow> \<exists>b1. bench_frames i frs b = Some b1 \<and> bench_ok b1 \<and> accounts b1 (ps @ stamped i frs)
     \<and> bn_queue b1 = bn_queue b \<and> bn_running b1 = bn_running b"
proof (induction frs arbitrary: i b ps)
  case (Cons f frs)
  obtain b1 where 1: "bench_frame (i 0) f b = Some b1" "bench_ok b1" "accounts b1 (ps @ [(bi_now (i 0), f)])" "bn_queue b1 = bn_queue b" "bn_running b1 = bn_running b"
    using bench_frame_accounts [OF Cons.prems] by blast
  from Cons.IH [OF 1(2,3), of "i \<circ> Suc"] 1 show ?case by (simp add: stamped_Cons comp_def)
qed simp

lemma update_depth_keeps [simp]:
  "bench_ok (update_depth sizes b) = bench_ok b" "accounts (update_depth sizes b) ps = accounts b ps"
  "bn_queue (update_depth sizes b) = bn_queue b" "bn_running (update_depth sizes b) = bn_running b"
  by (simp_all add: update_depth_def bench_ok_def accounts_def Let_def case_prod_beta)

lemma bench_pass_accounts:
  assumes "bench_ok b" "accounts b ps"
  shows "\<exists>b1. bench_pass i sizes b = Some b1 \<and> bench_ok b1 \<and> bn_running b1 = bn_running b
    \<and> accounts b1 (ps @ (if bn_running b then stamped i (take 256 (bn_queue b)) else [])) \<and> bn_queue b1 = (if bn_running b then drop 256 (bn_queue b) else bn_queue b)"
proof (cases "bn_running b \<and> bn_queue b \<noteq> []")
  case True
  let ?b = "b\<lparr>bn_queue := drop 256 (bn_queue b)\<rparr>"
  have "bench_ok ?b" "accounts ?b ps" using assms by (simp_all add: bench_ok_def accounts_def)
  from bench_frames_accounts [OF this, of i "take 256 (bn_queue b)"]
  show ?thesis using True by (auto simp: bench_pass_def)
next
  case False
  then show ?thesis using assms by (auto simp: bench_pass_def)
qed

lemma bench_run_accounts:
  assumes "bench_ok b" "accounts b ps"
  shows "\<exists>b1. bench_run es b = Some b1 \<and> accounts b1 (ps @ processed es (bn_running b) (bn_queue b))
    \<and> map snd (processed es (bn_running b) (bn_queue b)) @ bn_queue b1 = bn_queue b @ arrivals es"
  using assms
proof (induction es arbitrary: b ps)
  case (Cons e es)
  show ?case
  proof (cases e)
    case (BRegistry r)
    let ?b = "b\<lparr>bn_norm := (bn_norm b)\<lparr>n_registry := r\<rparr>\<rparr>"
    have "bench_ok ?b" "accounts ?b ps" using Cons.prems by (simp_all add: bench_ok_def accounts_def)
    from Cons.IH [OF this] BRegistry show ?thesis by simp
  next
    case (BFrame f)
    have "bench_ok (b\<lparr>bn_queue := bn_queue b @ [f]\<rparr>)" "accounts (b\<lparr>bn_queue := bn_queue b @ [f]\<rparr>) ps"
      using Cons.prems by (simp_all add: bench_ok_def accounts_def)
    from Cons.IH [OF this] BFrame show ?thesis by simp
  next
    case (BPass i sizes)
    obtain b1 where 1: "bench_pass i sizes b = Some b1" "bench_ok b1" "bn_running b1 = bn_running b"
      "accounts b1 (ps @ (if bn_running b then stamped i (take 256 (bn_queue b)) else []))" "bn_queue b1 = (if bn_running b then drop 256 (bn_queue b) else bn_queue b)"
      using bench_pass_accounts [OF Cons.prems] by blast
    from Cons.IH [OF 1(2,4)] 1 BPass show ?thesis by (auto simp flip: append_assoc) (metis append_assoc append_take_drop_id)
  next
    case BStop
    have "bench_ok (bench_stop b)" "accounts (bench_stop b) ps" using Cons.prems by (simp_all add: bench_ok_def accounts_def bench_stop_def)
    from Cons.IH [OF this] BStop show ?thesis by (simp add: bench_stop_def)
  qed
qed simp

lemma bench_feeds_env: "metrics_ok (metrics env) \<Longrightarrow> metrics_ok (metrics (snd (bench_feeds n high low draws env)))"
  by (induction n) (auto simp: new_feed_def new_controller_def bp_gauge_def Let_def split: prod.splits)

lemma bench_initial:
  assumes "metrics_ok (metrics env)"
  shows "bench_ok (bench_start (bench_setup o1 dir draws env))" "accounts (bench_start (bench_setup o1 dir draws env)) []"
    "bn_queue (bench_start (bench_setup o1 dir draws env)) = []" "bn_running (bench_start (bench_setup o1 dir draws env))"
proof -
  let ?n = "new_normalizer new_registry (bo_normalizer_threads o1) (queue_high_watermark o1) (queue_low_watermark o1) env"
  let ?s = "new_server ''benchmark-token'' (queue_high_watermark o1) (queue_low_watermark o1) (snd ?n)"
  let ?f = "bench_feeds (unat (producers o1)) (queue_high_watermark o1) (queue_low_watermark o1) draws (snd ?s)"
  have b: "bench_setup o1 dir draws env = \<lparr>bn_feeds = fst ?f, bn_norm = fst ?n, bn_pub = fst ?s, bn_rec = new_recorder dir (2 * 1024 * 1024 * 1024) 10000 50,
      bn_env = snd ?f, bn_running = True, bn_queue = [], bn_rec_queue = [], messages_processed = 0, total_latency_ns = 0, max_queue_depth = 0,
      latency_hist = new_histogram bench_buckets\<rparr>" by (simp add: bench_setup_def Let_def case_prod_beta)
  have "metrics_ok (metrics (snd ?s))" using assms by (simp add: new_server_def new_normalizer_def new_controller_def bp_gauge_def Let_def)
  then have "metrics_ok (metrics (snd ?f))" by (rule bench_feeds_env)
  moreover have "clients (fst ?s) = []" "below_high (queue_backpressure (fst ?s)) 0" "\<not> ps_running (fst ?s)"
    by (auto simp: new_server_def new_controller_def Let_def below_high_def unat_gt_0)
  ultimately show "bench_ok (bench_start (bench_setup o1 dir draws env))" by (simp add: bench_start_def bench_ok_def b server_start_def)
  show "accounts (bench_start (bench_setup o1 dir draws env)) []" "bn_queue (bench_start (bench_setup o1 dir draws env)) = []"
    "bn_running (bench_start (bench_setup o1 dir draws env))"
    by (simp_all add: bench_start_def accounts_def b server_start_def new_histogram_abs)
qed

lemma ddiv_mono: "a \<le> b \<Longrightarrow> 0 \<le> c \<Longrightarrow> ddiv (double_of_nat a) c \<le> ddiv (double_of_nat b) c"
  unfolding ddiv_def double_of_nat_def by (intro rnd_mono divide_right_mono) simp_all

lemma bench_result_exists:
  assumes "latency_hist b = hist_abs bench_buckets xs" "length xs \<le> 2 ^ 53"
  shows "\<exists>r. bench_result rt b = Some r \<and> br_messages r = messages_processed b \<and> p50_latency_us r \<le> p99_latency_us r"
proof -
  obtain P where "get_percentiles (latency_hist b) = Some P" "p50 P \<le> p99 P"
  proof (cases "xs = []")
    case True
    then show ?thesis using assms that by (simp add: get_percentiles_def hist_abs_def)
  next
    case False
    then show ?thesis using percentiles_ordered [OF bench_buckets_ok False assms(2)] assms(1) that by fastforce
  qed
  moreover from this have "ddiv (double_of_nat (unat (p50 P))) 1000 \<le> ddiv (double_of_nat (unat (p99 P))) 1000"
    by (intro ddiv_mono) (simp_all add: word_le_nat_alt)
  ultimately show ?thesis by (simp add: bench_result_def Let_def)
qed

lemma latency_samples_length: "length (concat (map latency_samples ps)) \<le> length ps"
  by (induction ps) (auto simp: latency_samples_def Let_def)

section \<open>Properties\<close>

text \<open>
  C40: the command line of the benchmark. The arguments that spell out a set of options are accepted when
  the options are valid (1, 4 or 8 producers, a positive duration, the low watermark below the high one) and then read as exactly these options, and
  refused otherwise; whatever the arguments are, options that are accepted are valid.
\<close>

theorem options_roundtrip:
  "parse_options (option_args o1) = (if valid_options o1 then Some o1 else None) \<and> (parse_options args = Some o2 \<longrightarrow> valid_options o2)"
  using parse_options_eq [of "option_args o1" o1] parse_options_eq [of args o2] parse_args_options [of o1 default_options]
  by (cases "parse_options (option_args o1)") (auto simp: parse_options_eq)

theorem options_roundtrip_witness:
  "parse_options (option_args (default_options\<lparr>producers := 8\<rparr>)) = Some (default_options\<lparr>producers := 8\<rparr>)
   \<and> parse_options [''--producers=4294967300'', ''--queue_low_watermark=5''] = Some (default_options\<lparr>producers := 4, queue_low_watermark := 5\<rparr>)
   \<and> valid_options (default_options\<lparr>producers := 4, queue_low_watermark := 5\<rparr>)"
proof -
  have v: "valid_options (default_options\<lparr>producers := 8\<rparr>)" by (simp add: valid_options_def default_options_def)
  have p: "parse_options [''--producers=4294967300'', ''--queue_low_watermark=5''] = Some (default_options\<lparr>producers := 4, queue_low_watermark := 5\<rparr>)"
    by code_simp
  show ?thesis using options_roundtrip [of "default_options\<lparr>producers := 8\<rparr>"] options_roundtrip [of default_options] v p by simp
qed



end
