(* ===== verification/Spec2Isabelle.thy ===== *)
theory Spec2Isabelle
  imports Replay_Archive Main_Program Json_Text Benchmark
begin

text \<open>
  A verification development for the market-data infrastructure under \<open>src/\<close>: a C++ program that
  generates market data, normalizes it into binary frames, publishes them to TCP subscribers, records
  them to disk, replays recordings and is controlled over HTTP.

  \<^bold>\<open>The program.\<close> \<open>MockFeed\<close> (\<open>src/src/feed\<close>) generates raw events and enqueues them for \<open>Normalizer\<close>
  (\<open>src/src/normalize\<close>), whose routing thread distributes them by symbol over worker threads; a worker
  turns an event into a \<open>Frame\<close> (\<open>src/src/common/frame.cpp\<close>), with the symbol's id from
  \<open>SymbolRegistry\<close>. The distribution thread of \<open>MarketDataCore\<close> (\<open>src/src/main_core.cpp\<close>) takes frames
  from the workers, publishes each through \<open>PubServer\<close> (\<open>src/src/publisher\<close>) and enqueues it for
  \<open>Recorder\<close> (\<open>src/src/recorder\<close>), which appends it to memory-mapped files with an index. \<open>Replayer\<close>
  (\<open>src/src/replay\<close>) reads such files and publishes their frames. \<open>ControlServer\<close> (\<open>src/src/ctrl\<close>)
  commands feed and replayer and shows metrics (\<open>src/src/common/metrics.cpp\<close>). Every queue between two
  threads is guarded by a \<open>QueueBackpressureController\<close> (\<open>src/src/common/backpressure.hpp\<close>).

  \<^bold>\<open>How it is modelled.\<close> A class is a record with the source's data members, a method a function on the
  record, named as in the source or with the component's prefix where names collide. What a method
  reads from outside (clocks, random numbers, queue depths under other threads, socket results,
  the flag \<open>running_\<close> while it waits) is an argument. An exception or an error code is a value; \<open>None\<close> as the
  result of an operation is undefined behaviour or a call that does not return. Machine integers are words, doubles are rationals with
  every operation rounded (\<open>Float64\<close>). A component with several threads has a datatype of events, one per
  atomic step of a thread, and a function \<open>..._exec\<close> that performs one: a theorem about all lists of events is one
  about all interleavings.

  \<^bold>\<open>The theories.\<close>
  \<^item> \<open>Prelude\<close>: machine integers, little-endian layout, buffers, bit-level lemmas.
  \<^item> \<open>Crc32\<close> (\<open>crc32.cpp\<close>): the table, its lazy initialisation and the checksum loop; equality with the
    bit-serial CRC-32 and detection of errors within four consecutive bytes, the law of the locale
    \<open>burst_checksum\<close>.
  \<^item> \<open>Frame\<close> (\<open>frame.cpp\<close>, \<open>frame.hpp\<close>): \<open>encode_frame\<close>, \<open>decode_frame\<close> and the constructors; round
    trips in both directions, rejection of damaged frames, unique decoding of streams through the locale
    \<open>stream_codec\<close>.
  \<^item> \<open>Symbol_Registry\<close> (\<open>symbol_registry.cpp\<close>): the operations, their interleaving by threads as the step
    relation \<open>reg_step\<close>; ids are a bijection (locale \<open>symbol_table\<close>), concurrent calls agree.
  \<^item> \<open>Float64\<close>: rounding, arithmetic and conversions of doubles. \<open>Metrics\<close> (\<open>metrics.cpp\<close>): histograms as
    refinement of multisets, percentiles, counters, gauges. \<open>Metrics_Export\<close>: Prometheus and JSON
    renderings; a scrape reads the counters back.
  \<^item> \<open>Backpressure\<close> (\<open>backpressure.hpp\<close>): \<open>wait_for_capacity\<close>, its contract and termination; the bound of a
    queue shared by producers, through the locale \<open>watermark_gate\<close>.
  \<^item> \<open>File_System\<close>: a disk with system calls that may fail. \<open>Mapped_File\<close>: \<open>MappedAppendFile\<close> of
    \<open>recorder.cpp\<close>; the file holds exactly the appended records (locale \<open>append_log\<close>). \<open>File_Names\<close>: names
    are ordered like times. \<open>Recorder\<close>: all of \<open>Recorder\<close>. \<open>Archive\<close>: the abstract archive and the
    simulation. \<open>Recorder_Progress\<close>: refinement from start to stop, liveness, degraded mode.
  \<^item> \<open>Ifstream\<close>, \<open>Replayer\<close> (\<open>replayer.cpp\<close>): sessions, index search, reading, pacing, publication.
    \<open>Replay_Archive\<close>: what is recorded is replayed.
  \<^item> \<open>Json\<close>: the accessors of \<open>nlohmann::json\<close> (\<open>external/nlohmann_json\<close>) that the sources use. \<open>Json_Lexer\<close>, \<open>Json_Parser\<close>: its
    scanner and its parser; \<open>Json_Wf\<close>: what the parser can return; \<open>Json_Dump\<close>: its serialiser; \<open>Json_Utf8\<close>, \<open>Json_Roundtrip\<close>: what is
    written is read back. \<open>Json_Text\<close>: configuration files and commands of the control server as texts, on this library.
  \<^item> \<open>Topic_Match\<close>: subscriptions are
    globs. \<open>Publisher\<close>: client connections, with the invariants of the locale \<open>conn_invariant\<close>
    (authentication; the stream of frames). \<open>Pub_Server\<close>: the server with its threads.
  \<^item> \<open>Mock_Feed\<close> (\<open>mock_feed.cpp\<close>): sequence numbers without gap. \<open>Normalizer\<close> (\<open>normalizer.cpp\<close>): order
    per symbol in every interleaving, well-formed frames.
  \<^item> \<open>Config\<close> (\<open>config.cpp\<close>): loading with its partial update at an exception; round trip with a writer.
  \<^item> \<open>Http_Control\<close>, \<open>Control_Server\<close> (\<open>control_server.cpp\<close>): routing and handlers; listeners,
    WebSocket clients and broadcast, with the locale \<open>ws_invariant\<close>.
  \<^item> \<open>Market_Core\<close> (\<open>main_core.cpp\<close>): the composition of all components, with every thread's steps;
    \<open>Core_Order\<close>: the invariant of the pipeline; \<open>Core_Example\<close>: a run; \<open>Main_Program\<close>: signals, exit codes.
  \<^item> \<open>Benchmark\<close> (\<open>benchmarks/throughput_benchmark.cpp\<close>): its command line, its distributor with counters and histogram, its result.
  \<^item> This theory: the properties of the whole pipeline, from the feed to the files.

  \<^bold>\<open>Bounds and fuel.\<close> There is no fuel: loops recurse on their data or on the inputs they consume (a wait on
  the depths it samples), and a wait that its inputs do not end has the value \<open>None\<close>. The doubling loop of
  the mapped file is a \<open>partial_function\<close>; below $2^{62}$ bytes it is proved to end. Theorems that count
  sequence numbers or frames hold modulo the width of the counter, as in the code.

  \<^bold>\<open>Not modelled.\<close> Log output; the Windows branch of the mapped file; memory ordering of atomics (a step is
  atomic) and data races that C++ leaves undefined; Boost.Asio, Boost.Beast, \<open>std::regex\<close> on
  patterns with special characters, \<open>std::hash\<close>, the texts of the JSON library's exceptions and the text it chooses for a double, which are
  arguments; the lock-free queue, of which the
  documented order per producer is used; NaN and infinities; read-ahead of streams on files that are being
  written. The other vendored libraries under \<open>external/\<close>, the scripts, the dashboard under
  \<open>ui/\<close> and the deployment files under \<open>infra/\<close> are not part of the program's core.
\<close>

section \<open>From the feed to the recorder\<close>

text \<open>
  C2: In every run of the whole system (any commands, any interleaving of feed, routing thread, workers,
  distributor, publisher, recorder, replay and control threads) in which no allocation of the frame
  queue fails, the frames of a symbol that have been handed to the recorder carry the sequence numbers 1, 2, 3, ...
  in this order and without gap.
\<close>

theorem pipeline_keeps_sequence:
  assumes "core_run lib es (setup_components cfg draws renv env) = Some c" "list_all core_clean es"
  shows "let seqs = seqs_of (n_registry (co_norm c)) s (map snd (co_rec_queue c)) in seqs = map (\<lambda>k. of_nat k + 1) [0..<length seqs]"
  by (rule core_inv_sequences [OF core_inv_run [OF assms(1) core_inv_setup assms(2)]])

text \<open>The one frame of the example run.\<close>

lemma btc_frame: "by_id btc_registry (frame_symbol (body (mk_frame 0 (btc_body 1)))) = ''BTC''" "frame_seq (body (mk_frame 0 (btc_body 1))) = 1"
  by (simp_all add: btc_registry_def btc_body_def by_id_def)

theorem pipeline_keeps_sequence_witness:
  "\<forall>ci. \<exists>c. core_run example_core_lib (KRequest [] ci (Some example_request) # example_rest) example_core = Some c
     \<and> seqs_of (n_registry (co_norm c)) ''BTC'' (map snd (co_rec_queue c)) = [1]"
proof
  fix ci
  let ?es = "KRequest [] ci (Some example_request) # example_rest"
  obtain c where c: "core_run example_core_lib ?es example_core = Some c" "co_rec_queue c = [(0, mk_frame 0 (btc_body 1))]" "n_registry (co_norm c) = btc_registry"
    using example_core_run by blast
  have "length (seqs_of (n_registry (co_norm c)) ''BTC'' (map snd (co_rec_queue c))) = 1" using btc_frame by (simp add: c(2,3) seqs_of_def del: mk_frame.simps)
  then have "seqs_of (n_registry (co_norm c)) ''BTC'' (map snd (co_rec_queue c)) = [1]"
    using pipeline_keeps_sequence [OF c(1) [unfolded example_core_def] example_core_clean, of "''BTC''"] by (simp add: Let_def)
  then show "\<exists>c. core_run example_core_lib ?es example_core = Some c \<and> seqs_of (n_registry (co_norm c)) ''BTC'' (map snd (co_rec_queue c)) = [1]"
    using c(1) by blast
qed



end
